(* ===== verification/Prelude.thy ===== *)
theory Prelude
  imports Main "HOL-Library.Char_ord" "HOL-Library.List_Lexorder" "HOL-Library.Sublist"
begin

text \<open>
  Shared vocabulary of the development.

  \<^item> \<open>ordering\<close> is Rust's \<open>std::cmp::Ordering\<close>, with \<open>reverse\<close> and \<open>then_with\<close>.
  \<^item> \<open>('a, 'e) result\<close> is Rust's \<open>Result\<close>: \<open>Inr\<close> is \<open>Ok\<close>, \<open>Inl\<close> is \<open>Err\<close>, and \<open>rbind\<close>
    is the \<open>?\<close> operator.
  \<^item> A Rust \<open>String\<close>/\<open>&str\<close> is the list of its UTF-8 bytes (\<open>string\<close>). The string
    operations below act on bytes, as the library's do on ASCII text; where the
    library's operation is Unicode-aware (\<open>trim\<close>, \<open>to_lowercase\<close>) the model is exact
    for ASCII text.
  \<^item> \<open>im_insert\<close>/\<open>im_get\<close> are the insertion-ordered map (\<open>IndexMap\<close>) and, where the
    code only looks keys up, the \<open>HashMap\<close>/\<open>BTreeMap\<close> of the source.
\<close>

section \<open>Collections of facts\<close>

named_theorems ord_simps "equations of the three-way comparisons"
named_theorems str_simps "equations of the string operations"

section \<open>Three-way comparison\<close>

datatype ordering = Less | Equal | Greater

fun reverse_ord :: "ordering \<Rightarrow> ordering" where
  "reverse_ord Less = Greater"
| "reverse_ord Equal = Equal"
| "reverse_ord Greater = Less"

definition then_with :: "ordering \<Rightarrow> ordering \<Rightarrow> ordering" where
  "then_with a b = (if a = Equal then b else a)"

definition cmp_of :: "'a::linorder \<Rightarrow> 'a \<Rightarrow> ordering" where
  "cmp_of a b = (if a < b then Less else if a = b then Equal else Greater)"

lemma reverse_reverse [simp]: "reverse_ord (reverse_ord c) = c"
  by (cases c) auto

lemma reverse_eq_iff [simp]:
  "reverse_ord c = Equal \<longleftrightarrow> c = Equal"
  "reverse_ord c = Less \<longleftrightarrow> c = Greater"
  "reverse_ord c = Greater \<longleftrightarrow> c = Less"
  by (cases c; simp)+

lemma reverse_inj [simp]: "reverse_ord a = reverse_ord b \<longleftrightarrow> a = b"
  by (cases a; cases b) auto

lemma cmp_of_iff [simp]:
  "cmp_of a b = Less \<longleftrightarrow> a < b"
  "cmp_of a b = Equal \<longleftrightarrow> a = b"
  "cmp_of a b = Greater \<longleftrightarrow> b < a"
  by (auto simp: cmp_of_def)

lemma cmp_of_refl [simp]: "cmp_of a a = Equal"
  by simp

lemma cmp_of_swap: "cmp_of b a = reverse_ord (cmp_of a b)"
  by (auto simp: cmp_of_def)

lemma then_with_swap:
  "reverse_ord (then_with a b) = then_with (reverse_ord a) (reverse_ord b)"
  by (simp add: then_with_def)

lemma then_with_Equal_iff [simp]: "then_with a b = Equal \<longleftrightarrow> a = Equal \<and> b = Equal"
  by (auto simp: then_with_def)

lemmas [ord_simps] = then_with_def cmp_of_def

text \<open>The contract of Rust's \<open>Ord::cmp\<close> up to equality: antisymmetric under
  reversal and transitive.\<close>

locale three_way =
  fixes cmp3 :: "'a \<Rightarrow> 'a \<Rightarrow> ordering"
  assumes cmp_flip: "cmp3 a b = reverse_ord (cmp3 b a)"
    and cmp_trans: "cmp3 a b \<noteq> Greater \<Longrightarrow> cmp3 b c \<noteq> Greater \<Longrightarrow> cmp3 a c \<noteq> Greater"
begin

lemma cmp_self: "cmp3 a a = Equal"
  using cmp_flip [of a a] by (cases "cmp3 a a") auto

lemma cmp_less_le: "cmp3 a b = Less \<Longrightarrow> cmp3 b c \<noteq> Greater \<Longrightarrow> cmp3 a c = Less"
  using cmp_trans [of a b c] cmp_trans [of b c a] cmp_flip [of b a] cmp_flip [of c a]
  by (cases "cmp3 a c") auto

lemma cmp_le_less: "cmp3 a b \<noteq> Greater \<Longrightarrow> cmp3 b c = Less \<Longrightarrow> cmp3 a c = Less"
  using cmp_trans [of a b c] cmp_trans [of c a b] cmp_flip [of c b] cmp_flip [of c a]
  by (cases "cmp3 a c") auto

lemma cmp_equal_trans: "cmp3 a b = Equal \<Longrightarrow> cmp3 b c = Equal \<Longrightarrow> cmp3 a c = Equal"
  using cmp_trans [of a b c] cmp_trans [of c b a] cmp_flip [of b a] cmp_flip [of c b] cmp_flip [of c a]
  by (cases "cmp3 a c") auto

end

lemma three_way_cmp_of: "three_way cmp_of"
  by unfold_locales (auto simp: cmp_of_swap [symmetric])

interpretation key: three_way cmp_of
  by (rule three_way_cmp_of)

lemma three_way_on: "three_way f \<Longrightarrow> three_way (\<lambda>a b. f (k a) (k b))"
  unfolding three_way_def by blast

lemma three_way_then_with:
  assumes "three_way f" "three_way g"
  shows "three_way (\<lambda>a b. then_with (f (fst a) (fst b)) (g (snd a) (snd b)))"
proof
  note f = three_way.cmp_flip [OF assms(1)] three_way.cmp_less_le [OF assms(1)]
    three_way.cmp_le_less [OF assms(1)] three_way.cmp_equal_trans [OF assms(1)]
    three_way.cmp_trans [OF assms(1)]
  note g = three_way.cmp_flip [OF assms(2)] three_way.cmp_trans [OF assms(2)]
  show "then_with (f (fst a) (fst b)) (g (snd a) (snd b)) =
      reverse_ord (then_with (f (fst b) (fst a)) (g (snd b) (snd a)))" for a b
    using f(1) [of "fst a"] g(1) [of "snd a"] by (simp add: then_with_swap)
  show "then_with (f (fst a) (fst b)) (g (snd a) (snd b)) \<noteq> Greater \<Longrightarrow>
      then_with (f (fst b) (fst c)) (g (snd b) (snd c)) \<noteq> Greater \<Longrightarrow>
      then_with (f (fst a) (fst c)) (g (snd a) (snd c)) \<noteq> Greater" for a b c
    using f(2-5) [of "fst a" "fst b" "fst c"] g(2) [of "snd a" "snd b" "snd c"]
    by (cases "f (fst a) (fst b)"; cases "f (fst b) (fst c)") (simp_all add: then_with_def)
qed

section \<open>Results\<close>

type_synonym ('a, 'e) result = "'e + 'a"

definition rbind :: "('a, 'e) result \<Rightarrow> ('a \<Rightarrow> ('b, 'e) result) \<Rightarrow> ('b, 'e) result" where
  "rbind m f = (case m of Inl e \<Rightarrow> Inl e | Inr x \<Rightarrow> f x)"

definition map_err :: "('e \<Rightarrow> 'f) \<Rightarrow> ('a, 'e) result \<Rightarrow> ('a, 'f) result" where
  "map_err f m = (case m of Inl e \<Rightarrow> Inl (f e) | Inr x \<Rightarrow> Inr x)"

lemma rbind_simps [simp]:
  "rbind (Inl e) f = Inl e"
  "rbind (Inr x) f = f x"
  by (simp_all add: rbind_def)

lemma map_err_simps [simp]:
  "map_err f (Inl e) = Inl (f e)"
  "map_err f (Inr x) = Inr x"
  by (simp_all add: map_err_def)

lemma rbind_Inr_iff: "rbind m f = Inr y \<longleftrightarrow> (\<exists>x. m = Inr x \<and> f x = Inr y)"
  by (cases m) auto

lemma map_err_Inr_iff [simp]: "map_err f m = Inr y \<longleftrightarrow> m = Inr y"
  by (cases m) auto

lemma rbind_InrE [elim!]:
  assumes "rbind m f = Inr y"
  obtains x where "m = Inr x" "f x = Inr y"
  using assms by (auto simp: rbind_Inr_iff)

lemma rbind_cong [fundef_cong]:
  "m = m' \<Longrightarrow> (\<And>x. m' = Inr x \<Longrightarrow> f x = g x) \<Longrightarrow> rbind m f = rbind m' g"
  by (cases m') auto

text \<open>\<open>for x in xs { *x = f(x)?; }\<close>: the first error stops the loop.\<close>

fun rmap :: "('a \<Rightarrow> ('b, 'e) result) \<Rightarrow> 'a list \<Rightarrow> ('b list, 'e) result" where
  "rmap f [] = Inr []"
| "rmap f (x # xs) = rbind (f x) (\<lambda>y. rbind (rmap f xs) (\<lambda>ys. Inr (y # ys)))"

lemma rmap_Inr_iff: "rmap f xs = Inr ys \<longleftrightarrow> list_all2 (\<lambda>x y. f x = Inr y) xs ys"
  by (induction xs arbitrary: ys) (auto simp: rbind_Inr_iff list_all2_Cons1)

section \<open>Strings\<close>

definition byte_of :: "char \<Rightarrow> nat" where
  "byte_of c = of_char c"

definition is_ascii_digit :: "char \<Rightarrow> bool" where
  "is_ascii_digit c \<longleftrightarrow> 48 \<le> byte_of c \<and> byte_of c \<le> 57"

text \<open>ASCII members of Unicode \<open>White_Space\<close>: tab, LF, VT, FF, CR and space.\<close>

definition is_ws :: "char \<Rightarrow> bool" where
  "is_ws c \<longleftrightarrow> (9 \<le> byte_of c \<and> byte_of c \<le> 13) \<or> byte_of c = 32"

definition trim_start :: "string \<Rightarrow> string" where
  "trim_start s = dropWhile is_ws s"

definition trim_end :: "string \<Rightarrow> string" where
  "trim_end s = rev (dropWhile is_ws (rev s))"

definition trim :: "string \<Rightarrow> string" where
  "trim s = trim_end (trim_start s)"

definition ascii_lower :: "char \<Rightarrow> char" where
  "ascii_lower c = (if 65 \<le> byte_of c \<and> byte_of c \<le> 90 then char_of (byte_of c + 32) else c)"

definition lower :: "string \<Rightarrow> string" where
  "lower s = map ascii_lower s"

definition eq_ignore_ascii_case :: "string \<Rightarrow> string \<Rightarrow> bool" where
  "eq_ignore_ascii_case a b \<longleftrightarrow> lower a = lower b"

definition starts_with :: "string \<Rightarrow> string \<Rightarrow> bool" where
  "starts_with s p \<longleftrightarrow> take (length p) s = p"

definition ends_with :: "string \<Rightarrow> string \<Rightarrow> bool" where
  "ends_with s p \<longleftrightarrow> length p \<le> length s \<and> drop (length s - length p) s = p"

definition strip_prefix :: "string \<Rightarrow> string \<Rightarrow> string option" where
  "strip_prefix s p = (if starts_with s p then Some (drop (length p) s) else None)"

text \<open>\<open>s.split(c)\<close>: always at least one piece.\<close>

fun split_on :: "(char \<Rightarrow> bool) \<Rightarrow> string \<Rightarrow> string list" where
  "split_on P [] = [[]]"
| "split_on P (c # cs) =
     (if P c then [] # split_on P cs
      else (case split_on P cs of [] \<Rightarrow> [[c]] | w # ws \<Rightarrow> (c # w) # ws))"

text \<open>\<open>s.split_once(c)\<close>: the parts before and after the first \<open>c\<close>.\<close>

fun split_once :: "char \<Rightarrow> string \<Rightarrow> (string \<times> string) option" where
  "split_once c [] = None"
| "split_once c (x # xs) =
     (if x = c then Some ([], xs)
      else map_option (\<lambda>(a, b). (x # a, b)) (split_once c xs))"

fun join :: "string \<Rightarrow> string list \<Rightarrow> string" where
  "join sep [] = []"
| "join sep [x] = x"
| "join sep (x # y # zs) = x @ sep @ join sep (y # zs)"

text \<open>Decimal printing of unsigned integers and \<open>str::parse::<uN>\<close> (an optional leading
  \<open>+\<close>, then at least one digit, then the range check).\<close>

fun show_nat :: "nat \<Rightarrow> string" where
  "show_nat n = (if n < 10 then [char_of (48 + n)] else show_nat (n div 10) @ [char_of (48 + n mod 10)])"

declare show_nat.simps [simp del]

definition digit_val :: "char \<Rightarrow> nat" where
  "digit_val c = byte_of c - 48"

definition digits_val :: "string \<Rightarrow> nat" where
  "digits_val s = foldl (\<lambda>n c. 10 * n + digit_val c) 0 s"

definition parse_uint :: "nat \<Rightarrow> string \<Rightarrow> nat option" where
  "parse_uint w s =
     (let ds = (case s of CHR ''+'' # r \<Rightarrow> r | _ \<Rightarrow> s) in
      if ds \<noteq> [] \<and> list_all is_ascii_digit ds \<and> digits_val ds < 2 ^ w
      then Some (digits_val ds) else None)"

lemma parse_uint_code [code]:
  "parse_uint w s =
     (let ds = (case s of CHR ''+'' # r \<Rightarrow> r | _ \<Rightarrow> s); n = digits_val ds in
      if ds \<noteq> [] \<and> list_all is_ascii_digit ds \<and> int n < 2 ^ w then Some n else None)"
proof -
  have "int n < 2 ^ w \<longleftrightarrow> n < 2 ^ w" for n
    by (metis of_nat_less_iff of_nat_numeral of_nat_power)
  then show ?thesis by (simp add: parse_uint_def Let_def)
qed

lemma split_on_nonempty [simp]: "split_on P s \<noteq> []"
  by (induction s) (auto split: list.splits)

lemma split_on_none [str_simps]: "\<forall>c \<in> set s. \<not> P c \<Longrightarrow> split_on P s = [s]"
  by (induction s) auto

lemma split_on_app [str_simps]:
  "\<forall>c \<in> set a. \<not> P c \<Longrightarrow> P x \<Longrightarrow> split_on P (a @ x # b) = a # split_on P b"
  by (induction a) auto

lemma split_once_None_iff [str_simps]: "split_once c s = None \<longleftrightarrow> c \<notin> set s"
  by (induction s) auto

lemma split_once_app [str_simps]: "c \<notin> set a \<Longrightarrow> split_once c (a @ c # b) = Some (a, b)"
  by (induction a) auto

lemma split_once_Some: "split_once c s = Some (a, b) \<Longrightarrow> s = a @ c # b \<and> c \<notin> set a"
  by (induction s arbitrary: a b) (auto split: if_splits)

lemma join_Cons: "join sep (x # xs) = x @ concat (map (\<lambda>s. sep @ s) xs)"
  by (induction xs arbitrary: x) simp_all

lemma trim_Nil [simp]: "trim [] = []"
  by (simp add: trim_def trim_start_def trim_end_def)

text \<open>A trimmed string neither starts nor ends with white space, and trimming it again
  changes nothing.\<close>

definition trimmed :: "string \<Rightarrow> bool" where
  "trimmed s \<longleftrightarrow> s = [] \<or> (\<not> is_ws (hd s) \<and> \<not> is_ws (last s))"

lemma trim_trimmed_id: "trimmed s \<Longrightarrow> trim s = s"
proof (cases "s = []")
  case False
  assume "trimmed s"
  with False have "\<not> is_ws (hd s)" "\<not> is_ws (hd (rev s))"
    by (auto simp: trimmed_def hd_rev)
  then have "dropWhile is_ws s = s" "dropWhile is_ws (rev s) = rev s"
    using False by (metis dropWhile_eq_self_iff)+
  then show ?thesis by (simp add: trim_def trim_start_def trim_end_def)
qed simp

lemma last_dropWhile_ws: "dropWhile P s \<noteq> [] \<Longrightarrow> last (dropWhile P s) = last s"
  by (induction s) auto

lemma trimmed_trim: "trimmed (trim s)"
proof (cases "trim s = []")
  case True
  then show ?thesis by (simp add: trimmed_def)
next
  case False
  let ?t = "dropWhile is_ws s"
  let ?u = "dropWhile is_ws (rev ?t)"
  have u: "?u \<noteq> []" and ts: "trim s = rev ?u"
    using False by (auto simp: trim_def trim_start_def trim_end_def)
  have t: "?t \<noteq> []"
  proof
    assume "?t = []"
    then have "?u = dropWhile is_ws (rev [])" by (simp only:)
    then show False using u by simp
  qed
  have "\<not> is_ws (hd ?u)" using u by (rule hd_dropWhile)
  then have "\<not> is_ws (last (trim s))" using u by (simp add: ts last_rev)
  moreover have "hd (trim s) = hd ?t"
    using last_dropWhile_ws [OF u] u t by (simp add: ts hd_rev last_rev)
  then have "\<not> is_ws (hd (trim s))" using hd_dropWhile [OF t] by simp
  ultimately show ?thesis by (simp add: trimmed_def)
qed

lemma trim_trim [simp]: "trim (trim s) = trim s"
  by (rule trim_trimmed_id) (rule trimmed_trim)

lemma set_trim: "set (trim s) \<subseteq> set s"
proof -
  have "set (dropWhile P xs) \<subseteq> set xs" for P :: "char \<Rightarrow> bool" and xs
    by (auto dest: set_dropWhileD)
  then show ?thesis
    unfolding trim_def trim_start_def trim_end_def by (metis set_rev subset_trans)
qed

section \<open>Decimal digit strings\<close>

lemma digits_val_Nil [simp]: "digits_val [] = 0"
  by (simp add: digits_val_def)

lemma digits_val_foldl:
  "foldl (\<lambda>n c. 10 * n + digit_val c) k s = k * 10 ^ length s + digits_val s"
proof (induction s arbitrary: k)
  case (Cons c s)
  have "digits_val (c # s) = foldl (\<lambda>n c. 10 * n + digit_val c) (digit_val c) s"
    by (simp add: digits_val_def)
  then show ?case by (simp add: Cons.IH add_mult_distrib)
qed simp

lemma digits_val_Cons: "digits_val (c # s) = digit_val c * 10 ^ length s + digits_val s"
  using digits_val_foldl [of "digit_val c" s] by (simp add: digits_val_def)

lemma char_of_byte_of [simp]: "char_of (byte_of c) = c"
  by (simp add: byte_of_def)

lemma byte_of_less_iff: "byte_of a < byte_of b \<longleftrightarrow> a < b"
  by (simp add: byte_of_def less_char_def)

lemma byte_of_inj [simp]: "byte_of a = byte_of b \<longleftrightarrow> a = b"
  by (simp add: byte_of_def)

lemma digit_val_less: "is_ascii_digit c \<Longrightarrow> digit_val c < 10"
  by (auto simp: is_ascii_digit_def digit_val_def)

lemma digits_val_less: "list_all is_ascii_digit s \<Longrightarrow> digits_val s < 10 ^ length s"
proof (induction s)
  case (Cons c s)
  then have "digit_val c * 10 ^ length s + digits_val s < (digit_val c + 1) * 10 ^ length s"
    by simp
  also have "\<dots> \<le> 10 * 10 ^ length s"
    using Cons.prems digit_val_less [of c] by (intro mult_right_mono) auto
  finally show ?case by (simp add: digits_val_Cons)
qed simp

lemma digit_val_mono:
  assumes "is_ascii_digit a" "is_ascii_digit b"
  shows "digit_val a < digit_val b \<longleftrightarrow> a < b" "digit_val a = digit_val b \<longleftrightarrow> a = b"
proof -
  have "digit_val a < digit_val b \<longleftrightarrow> byte_of a < byte_of b"
    "digit_val a = digit_val b \<longleftrightarrow> byte_of a = byte_of b"
    using assms by (auto simp: is_ascii_digit_def digit_val_def simp del: byte_of_inj)
  then show "digit_val a < digit_val b \<longleftrightarrow> a < b" "digit_val a = digit_val b \<longleftrightarrow> a = b"
    by (simp_all add: byte_of_less_iff)
qed

lemma cmp_of_digits:
  assumes "length a = length b" "list_all is_ascii_digit a" "list_all is_ascii_digit b"
  shows "cmp_of a b = cmp_of (digits_val a) (digits_val b)"
  using assms
proof (induction a b rule: list_induct2)
  case (Cons x xs y ys)
  have *: "digits_val xs < 10 ^ length ys" "digits_val ys < 10 ^ length ys"
    using Cons digits_val_less by fastforce+
  have lt: "k * 10 ^ n + u < l * 10 ^ n + v" if "k < l" "u < 10 ^ n" for k l u v n :: nat
  proof -
    have "k * 10 ^ n + u < (k + 1) * 10 ^ n" using that by simp
    also have "\<dots> \<le> l * 10 ^ n" using that by (intro mult_right_mono) auto
    finally show ?thesis by simp
  qed
  have len: "length xs = length ys" using Cons by simp
  have xy: "is_ascii_digit x" "is_ascii_digit y" using Cons.prems by auto
  consider "x < y" | "y < x" | "x = y" by force
  then show ?case
  proof cases
    case 1
    then have "digit_val x < digit_val y" using digit_val_mono xy by blast
    then show ?thesis using 1 lt [OF _ *(1)] len by (simp add: cmp_of_def digits_val_Cons)
  next
    case 2
    then have "digit_val y < digit_val x" using digit_val_mono xy by blast
    then have "digits_val (y # ys) < digits_val (x # xs)"
      using lt [OF _ *(2)] len by (simp add: digits_val_Cons)
    then show ?thesis using 2 by (auto simp: cmp_of_def)
  next
    case 3
    then show ?thesis using Cons len by (auto simp: cmp_of_def digits_val_Cons split: if_splits)
  qed
qed simp

lemma digits_val_ge:
  assumes "s \<noteq> []" "is_ascii_digit (hd s)" "hd s \<noteq> CHR ''0''"
  shows "10 ^ (length s - 1) \<le> digits_val s"
proof -
  obtain c cs where s: "s = c # cs" using assms by (cases s) auto
  have "byte_of c \<noteq> byte_of (CHR ''0'')" using assms by (simp add: s)
  then have "byte_of c \<noteq> 48" by (simp add: byte_of_def)
  then have "0 < digit_val c" using assms by (simp add: s is_ascii_digit_def digit_val_def)
  then show ?thesis unfolding s digits_val_Cons by (simp add: trans_le_add1)
qed

lemma digits_val_strip:
  "digits_val (dropWhile (\<lambda>c. c = CHR ''0'') s) = digits_val s"
proof (induction s)
  case (Cons c s)
  have "digit_val (CHR ''0'') = 0" by (simp add: digit_val_def byte_of_def)
  then show ?case using Cons by (simp add: digits_val_Cons)
qed simp

lemma digits_val_snoc: "digits_val (s @ [c]) = 10 * digits_val s + digit_val c"
  by (simp add: digits_val_def)

lemma show_nat_digits: "list_all is_ascii_digit (show_nat n) \<and> show_nat n \<noteq> [] \<and> digits_val (show_nat n) = n"
proof (induction n rule: less_induct)
  case (less n)
  have d: "is_ascii_digit (char_of (48 + k))" "digit_val (char_of (48 + k)) = k" if "k < 10" for k
    using that by (simp_all add: is_ascii_digit_def digit_val_def byte_of_def)
  show ?case
  proof (cases "n < 10")
    case True
    then show ?thesis using d [of n] digits_val_snoc [of "[]"] by (simp add: show_nat.simps [of n])
  next
    case False
    then have "n div 10 < n" by simp
    from less.IH [OF this] False d [of "n mod 10"] show ?thesis
      by (simp add: show_nat.simps [of n] digits_val_snoc)
  qed
qed

lemma parse_uint_show_nat: "n < 2 ^ w \<Longrightarrow> parse_uint w (show_nat n) = Some n"
proof -
  assume n: "n < 2 ^ w"
  obtain c cs where s: "show_nat n = c # cs" using show_nat_digits [of n] by (cases "show_nat n") auto
  then have "is_ascii_digit c" using show_nat_digits [of n] by simp
  then have "c \<noteq> CHR ''+''" by (auto simp: is_ascii_digit_def byte_of_def)
  then have "(case show_nat n of CHR ''+'' # r \<Rightarrow> r | _ \<Rightarrow> show_nat n) = show_nat n"
    unfolding s by (auto split: char.splits bool.splits)
  then show ?thesis
    using show_nat_digits [of n] n unfolding parse_uint_def Let_def by simp
qed

lemma show_nat_trimmed: "trimmed (show_nat n)"
proof -
  have "\<not> is_ws c" if "is_ascii_digit c" for c
    using that by (auto simp: is_ascii_digit_def is_ws_def)
  then show ?thesis using show_nat_digits [of n] by (simp add: trimmed_def list_all_iff)
qed

section \<open>Insertion-ordered maps\<close>

type_synonym ('k, 'v) index_map = "('k \<times> 'v) list"

definition im_get :: "('k, 'v) index_map \<Rightarrow> 'k \<Rightarrow> 'v option" where
  "im_get m k = map_of m k"

text \<open>\<open>insert\<close> replaces the value in place, or appends a new entry.\<close>

fun im_insert :: "'k \<Rightarrow> 'v \<Rightarrow> ('k, 'v) index_map \<Rightarrow> ('k, 'v) index_map" where
  "im_insert k v [] = [(k, v)]"
| "im_insert k v ((a, b) # m) = (if a = k then (k, v) # m else (a, b) # im_insert k v m)"

text \<open>\<open>entry(k).or_insert(v)\<close>: an existing value is kept.\<close>

definition im_or_insert :: "'k \<Rightarrow> 'v \<Rightarrow> ('k, 'v) index_map \<Rightarrow> ('k, 'v) index_map" where
  "im_or_insert k v m = (case im_get m k of None \<Rightarrow> m @ [(k, v)] | Some _ \<Rightarrow> m)"

definition im_keys :: "('k, 'v) index_map \<Rightarrow> 'k list" where
  "im_keys m = map fst m"

definition im_wf :: "('k, 'v) index_map \<Rightarrow> bool" where
  "im_wf m \<longleftrightarrow> distinct (map fst m)"

text \<open>The contract the components rely on, and what follows from it for loops that insert.\<close>

locale map_store =
  fixes store_get :: "'m \<Rightarrow> 'k \<Rightarrow> 'v option"
    and store_put :: "'k \<Rightarrow> 'v \<Rightarrow> 'm \<Rightarrow> 'm"
    and store_add :: "'k \<Rightarrow> 'v \<Rightarrow> 'm \<Rightarrow> 'm"
  assumes get_put: "store_get (store_put k v m) k' = (if k' = k then Some v else store_get m k')"
    and get_add: "store_get (store_add k v m) k' =
          (if k' = k \<and> store_get m k = None then Some v else store_get m k')"
begin

lemma get_fold_put:
  "store_get (fold (\<lambda>(k, v). store_put k v) kvs m) k =
     (case map_of (rev kvs) k of None \<Rightarrow> store_get m k | Some v \<Rightarrow> Some v)"
  by (induction kvs arbitrary: m) (auto simp: get_put map_add_def split: option.splits)

lemma get_fold_add:
  "store_get (fold (\<lambda>(k, v). store_add k v) kvs m) k =
     (case store_get m k of None \<Rightarrow> map_of kvs k | Some v \<Rightarrow> Some v)"
  by (induction kvs arbitrary: m) (auto simp: get_add split: option.splits)

lemma get_put_same: "store_get (store_put k v m) k = Some v"
  by (simp add: get_put)

lemma get_put_other: "k' \<noteq> k \<Longrightarrow> store_get (store_put k v m) k' = store_get m k'"
  by (simp add: get_put)

end

lemma map_of_im_insert: "map_of (im_insert k v m) k' = (if k' = k then Some v else map_of m k')"
  by (induction k v m rule: im_insert.induct) auto

interpretation im: map_store im_get im_insert im_or_insert
proof unfold_locales
  show "im_get (im_insert k v m) k' = (if k' = k then Some v else im_get m k')" for k v m k'
    by (simp add: im_get_def map_of_im_insert)
  show "im_get (im_or_insert k v m) k' =
      (if k' = k \<and> im_get m k = None then Some v else im_get m k')" for k v m k'
    by (auto simp: im_or_insert_def im_get_def map_of_append map_add_def
             split: option.splits if_splits)
qed

lemma im_keys_insert [simp]:
  "im_keys (im_insert k v m) = (if k \<in> set (im_keys m) then im_keys m else im_keys m @ [k])"
  by (induction k v m rule: im_insert.induct) (auto simp: im_keys_def)

lemma im_get_None_iff: "im_get m k = None \<longleftrightarrow> k \<notin> set (im_keys m)"
  by (simp add: im_get_def im_keys_def map_of_eq_None_iff)

lemma im_wf_insert [simp]: "im_wf m \<Longrightarrow> im_wf (im_insert k v m)"
  using im_keys_insert [of k v m] by (auto simp: im_wf_def im_keys_def split: if_splits)

lemma im_get_Nil [simp]: "im_get [] k = None"
  by (simp add: im_get_def)

end
