(* ===== verification/LockTime.thy ===== *)
theory LockTime
  imports Prelude
begin

text \<open>
  The time stamp of a lockfile (\<open>epoch_to_rfc3339\<close> in \<open>crates/barista-lockfile/src/schema.rs\<close>),
  and that its date is the Gregorian calendar's. The seconds are a \<open>u64\<close>, so the days are below
  \<open>2 ^ 48\<close> and none of the 64-bit operations wraps.
\<close>

section \<open>Time stamps\<close>

text \<open>Days since 1970-01-01 to year, month and day. The shifted day count is never negative, so
  the euclidean division of the code is division.\<close>

definition civil_of_days :: "nat \<Rightarrow> nat \<times> nat \<times> nat" where
  "civil_of_days days =
     (let z = days + 719468;
          era = z div 146097;
          doe = z - era * 146097;
          yoe = (doe - doe div 1460 + doe div 36524 - doe div 146096) div 365;
          y = yoe + era * 400;
          doy = doe - (365 * yoe + yoe div 4 - yoe div 100);
          mp = (5 * doy + 2) div 153;
          d = doy - (153 * mp + 2) div 5 + 1;
          m = (if mp < 10 then mp + 3 else mp - 9) in
      (if m \<le> 2 then y + 1 else y, m, d))"

definition pad_zero :: "nat \<Rightarrow> nat \<Rightarrow> string" where
  "pad_zero n k = (let s = show_nat k in replicate (n - length s) (CHR ''0'') @ s)"

definition epoch_to_rfc3339 :: "nat \<Rightarrow> string" where
  "epoch_to_rfc3339 secs =
     (let secs_of_day = secs mod 86400;
          hour = secs_of_day div 3600;
          minute = secs_of_day mod 3600 div 60;
          second = secs_of_day mod 60 in
      case civil_of_days (secs div 86400) of (year, m, d) \<Rightarrow>
        pad_zero 4 year @ ''-'' @ pad_zero 2 m @ ''-'' @ pad_zero 2 d @ ''T'' @
        pad_zero 2 hour @ '':'' @ pad_zero 2 minute @ '':'' @ pad_zero 2 second @ ''Z'')"

section \<open>The calendar\<close>


text \<open>The Gregorian calendar, one day after the other.\<close>

definition leap :: "nat \<Rightarrow> bool" where
  "leap y \<longleftrightarrow> 4 dvd y \<and> (\<not> 100 dvd y \<or> 400 dvd y)"

definition month_len :: "nat \<Rightarrow> nat \<Rightarrow> nat" where
  "month_len y m = (if m = 2 then if leap y then 29 else 28 else if m \<in> {4, 6, 9, 11} then 30 else 31)"

fun next_day :: "nat \<times> nat \<times> nat \<Rightarrow> nat \<times> nat \<times> nat" where
  "next_day (y, m, d) =
     (if d < month_len y m then (y, m, d + 1) else if m < 12 then (y, m + 1, 1) else (y + 1, 1, 1))"

text \<open>A day by era, century, four-year cycle, year of the cycle and day of a year that starts in
  March.\<close>

definition day_rep :: "nat \<Rightarrow> nat \<Rightarrow> nat \<Rightarrow> nat \<Rightarrow> nat \<Rightarrow> bool" where
  "day_rep c q s doy z \<longleftrightarrow> c < 4 \<and> q < 25 \<and> s < 4 \<and> doy < 365 + (if s = 3 \<and> (q < 24 \<or> c = 3) then 1 else 0) \<and>
     z mod 146097 = 36524 * c + 1461 * q + 365 * s + doy"

definition month_day :: "nat \<Rightarrow> nat \<times> nat" where
  "month_day doy =
     (let mp = (5 * doy + 2) div 153 in (if mp < 10 then mp + 3 else mp - 9, doy - (153 * mp + 2) div 5 + 1))"

definition civil_rep :: "nat \<Rightarrow> nat \<Rightarrow> nat \<times> nat \<times> nat" where
  "civil_rep y doy = (case month_day doy of (m, d) \<Rightarrow> (if m \<le> 2 then y + 1 else y, m, d))"

lemma year_of_era:
  assumes "day_rep c q s doy z" and doe: "doe = z mod 146097"
  shows "(doe - doe div 1460 + doe div 36524 - doe div 146096) div 365 = 100 * c + 4 * q + s"
proof -
  have b: "c \<le> 3" "q \<le> 24" "s \<le> 3" "doy \<le> 365" and l: "doy < 365 \<or> s = 3 \<and> (q < 24 \<or> c = 3)"
    and e: "doe = 36524 * c + 1461 * q + 365 * s + doy"
    using assms by (auto simp: day_rep_def split: if_splits)
  define x where "x = (24 * c + q + 365 * s + doy) div 1460"
  have x: "doe div 1460 = 25 * c + q + x"
  proof -
    have "doe = (24 * c + q + 365 * s + doy) + (25 * c + q) * 1460" using e by simp
    then show ?thesis unfolding x_def by (metis div_mult_self1 add.commute numeral_neq_zero zero_neq_numeral)
  qed
  have xb: "x \<le> 1" "x = 1 \<Longrightarrow> 0 < doy" "x = 0 \<Longrightarrow> doy < 365"
    unfolding x_def using b l by auto
  show ?thesis
  proof (cases "c = 3 \<and> q = 24 \<and> s = 3 \<and> doy = 365")
    case True
    then show ?thesis using e by simp
  next
    case False
    then have lt: "1461 * q + 365 * s + doy < 36524"
      using b l by (cases "q = 24"; cases "s = 3") auto
    have "doe div 36524 = c" using e lt by (simp add: div_nat_eqI)
    moreover have "doe < 146096" using e lt b False l by (cases "c = 3"; cases "q = 24"; cases "s = 3") auto
    then have "doe div 146096 = 0" by simp
    moreover have "doe - doe div 1460 + c = 365 * (100 * c + 4 * q + s) + (doy - x)"
      unfolding x using e xb b by (cases "x = 1") auto
    moreover have "doy - x < 365" using xb b by (cases "x = 1") auto
    ultimately show ?thesis by simp
  qed
qed

lemma civil_of_days_rep:
  assumes "day_rep c q s doy (days + 719468)"
  shows "civil_of_days days = civil_rep (400 * ((days + 719468) div 146097) + 100 * c + 4 * q + s) doy"
proof -
  let ?z = "days + 719468"
  define doe where "doe = ?z mod 146097"
  have m: "?z - ?z div 146097 * 146097 = doe" unfolding doe_def by (simp add: minus_div_mult_eq_mod)
  have y: "(doe - doe div 1460 + doe div 36524 - doe div 146096) div 365 = 100 * c + 4 * q + s"
    by (rule year_of_era [OF assms doe_def])
  have b: "q < 25" "s < 4" "doe = 36524 * c + 1461 * q + 365 * s + doy"
    using assms by (auto simp: day_rep_def doe_def)
  have "(100 * c + 4 * q + s) div 4 = 25 * c + q" "(100 * c + 4 * q + s) div 100 = c"
    using b by (auto intro!: div_nat_eqI)
  then have "doe - (365 * (100 * c + 4 * q + s) + (100 * c + 4 * q + s) div 4 - (100 * c + 4 * q + s) div 100) = doy"
    using b by simp
  then show ?thesis
    unfolding civil_of_days_def Let_def m y
    by (simp add: civil_rep_def month_day_def Let_def algebra_simps)
qed

lemma month_day_at:
  assumes "153 * k \<le> 5 * doy + 2" "5 * doy + 2 < 153 * k + 153"
  shows "month_day doy = (if k < 10 then k + 3 else k - 9, doy - (153 * k + 2) div 5 + 1)"
proof -
  have "(5 * doy + 2) div 153 = k" using assms by (intro div_nat_eqI) auto
  then show ?thesis by (simp only: month_day_def Let_def)
qed

lemma month_cases:
  fixes doy :: nat
  assumes "doy < 366"
  obtains "doy < 31" | "31 \<le> doy" "doy < 61" | "61 \<le> doy" "doy < 92" | "92 \<le> doy" "doy < 122"
    | "122 \<le> doy" "doy < 153" | "153 \<le> doy" "doy < 184" | "184 \<le> doy" "doy < 214" | "214 \<le> doy" "doy < 245"
    | "245 \<le> doy" "doy < 275" | "275 \<le> doy" "doy < 306" | "306 \<le> doy" "doy < 337" | "337 \<le> doy" "doy < 366"
  using assms by linarith

lemma month_day_table:
  "doy < 31 \<Longrightarrow> month_day doy = (3, doy + 1)"
  "31 \<le> doy \<Longrightarrow> doy < 61 \<Longrightarrow> month_day doy = (4, doy - 30)"
  "61 \<le> doy \<Longrightarrow> doy < 92 \<Longrightarrow> month_day doy = (5, doy - 60)"
  "92 \<le> doy \<Longrightarrow> doy < 122 \<Longrightarrow> month_day doy = (6, doy - 91)"
  "122 \<le> doy \<Longrightarrow> doy < 153 \<Longrightarrow> month_day doy = (7, doy - 121)"
  "153 \<le> doy \<Longrightarrow> doy < 184 \<Longrightarrow> month_day doy = (8, doy - 152)"
  "184 \<le> doy \<Longrightarrow> doy < 214 \<Longrightarrow> month_day doy = (9, doy - 183)"
  "214 \<le> doy \<Longrightarrow> doy < 245 \<Longrightarrow> month_day doy = (10, doy - 213)"
  "245 \<le> doy \<Longrightarrow> doy < 275 \<Longrightarrow> month_day doy = (11, doy - 244)"
  "275 \<le> doy \<Longrightarrow> doy < 306 \<Longrightarrow> month_day doy = (12, doy - 274)"
  "306 \<le> doy \<Longrightarrow> doy < 337 \<Longrightarrow> month_day doy = (1, doy - 305)"
  "337 \<le> doy \<Longrightarrow> doy < 366 \<Longrightarrow> month_day doy = (2, doy - 336)"
  using month_day_at [of 0 doy] month_day_at [of 1 doy] month_day_at [of 2 doy] month_day_at [of 3 doy]
    month_day_at [of 4 doy] month_day_at [of 5 doy] month_day_at [of 6 doy] month_day_at [of 7 doy]
    month_day_at [of 8 doy] month_day_at [of 9 doy] month_day_at [of 10 doy] month_day_at [of 11 doy]
  by simp_all

text \<open>Inside a year the next day is the calendar's; after its last day comes the first of March.\<close>

lemma civil_rep_next:
  assumes "Suc doy < 365 + (if leap (y + 1) then 1 else 0)"
  shows "civil_rep y (Suc doy) = next_day (civil_rep y doy)"
proof -
  have "Suc doy < 366" and l: "Suc doy = 365 \<Longrightarrow> leap (Suc y)" using assms by (auto split: if_splits)
  then have "doy < 366" by simp
  then show ?thesis
  proof (cases rule: month_cases)
    case 1
    then show ?thesis by (cases "Suc doy = 31"; simp add: civil_rep_def month_day_table month_len_def; arith?)
  next
    case 2
    then show ?thesis by (cases "Suc doy = 61"; simp add: civil_rep_def month_day_table month_len_def; arith?)
  next
    case 3
    then show ?thesis by (cases "Suc doy = 92"; simp add: civil_rep_def month_day_table month_len_def; arith?)
  next
    case 4
    then show ?thesis by (cases "Suc doy = 122"; simp add: civil_rep_def month_day_table month_len_def; arith?)
  next
    case 5
    then show ?thesis by (cases "Suc doy = 153"; simp add: civil_rep_def month_day_table month_len_def; arith?)
  next
    case 6
    then show ?thesis by (cases "Suc doy = 184"; simp add: civil_rep_def month_day_table month_len_def; arith?)
  next
    case 7
    then show ?thesis by (cases "Suc doy = 214"; simp add: civil_rep_def month_day_table month_len_def; arith?)
  next
    case 8
    then show ?thesis by (cases "Suc doy = 245"; simp add: civil_rep_def month_day_table month_len_def; arith?)
  next
    case 9
    then show ?thesis by (cases "Suc doy = 275"; simp add: civil_rep_def month_day_table month_len_def; arith?)
  next
    case 10
    then show ?thesis by (cases "Suc doy = 306"; simp add: civil_rep_def month_day_table month_len_def; arith?)
  next
    case 11
    then show ?thesis by (cases "Suc doy = 337"; simp add: civil_rep_def month_day_table month_len_def; arith?)
  next
    case 12
    then show ?thesis using \<open>Suc doy < 366\<close> l
      by (cases "Suc doy = 365"; simp add: civil_rep_def month_day_table month_len_def; arith?)
  qed
qed

lemma civil_rep_year:
  assumes "Suc doy = 365 + (if leap (y + 1) then 1 else 0)"
  shows "civil_rep (y + 1) 0 = next_day (civil_rep y doy)"
proof -
  have "doy < 366" "337 \<le> doy" using assms by (auto split: if_splits)
  then show ?thesis using assms by (auto simp: civil_rep_def month_day_table month_len_def split: if_splits)
qed

lemma dvd_remainder: "0 < r \<Longrightarrow> r \<le> n \<Longrightarrow> n dvd n * k + r \<longleftrightarrow> r = (n :: nat)"
  by (auto simp: dvd_add_right_iff dest: dvd_imp_le)

lemma leap_rep:
  assumes "c < 4" "q < 25" "s < 4"
  shows "leap (400 * era + 100 * c + 4 * q + s + 1) \<longleftrightarrow> s = 3 \<and> (q < 24 \<or> c = 3)"
proof -
  let ?y = "400 * era + 100 * c + 4 * q + s + 1"
  have "?y = 4 * (100 * era + 25 * c + q) + (s + 1)" "?y = 100 * (4 * era + c) + (4 * q + s + 1)"
    "?y = 400 * era + (100 * c + 4 * q + s + 1)" by simp_all
  then have "4 dvd ?y \<longleftrightarrow> s + 1 = 4" "100 dvd ?y \<longleftrightarrow> 4 * q + s + 1 = 100" "400 dvd ?y \<longleftrightarrow> 100 * c + 4 * q + s + 1 = 400"
    using dvd_remainder [of "s + 1" 4 "100 * era + 25 * c + q"] dvd_remainder [of "4 * q + s + 1" 100 "4 * era + c"]
      dvd_remainder [of "100 * c + 4 * q + s + 1" 400 era] assms by (simp_all add: add.assoc)
  then show ?thesis using assms unfolding leap_def by auto
qed

lemma day_rep_next:
  assumes "day_rep c q s doy z" "y = 400 * (z div 146097) + 100 * c + 4 * q + s"
  shows "\<exists>c' q' s' doy'. day_rep c' q' s' doy' (Suc z) \<and>
    civil_rep (400 * (Suc z div 146097) + 100 * c' + 4 * q' + s') doy' = next_day (civil_rep y doy)"
proof -
  have b: "c < 4" "q < 25" "s < 4" and r: "z mod 146097 = 36524 * c + 1461 * q + 365 * s + doy"
    and d': "doy < 365 + (if s = 3 \<and> (q < 24 \<or> c = 3) then 1 else 0)"
    using assms by (simp_all add: day_rep_def)
  have lp: "leap (y + 1) \<longleftrightarrow> s = 3 \<and> (q < 24 \<or> c = 3)" unfolding assms(2) by (rule leap_rep [OF b])
  have d: "doy < 365 + (if leap (y + 1) then 1 else 0)" unfolding lp by (rule d')
  have inside: "Suc z mod 146097 = Suc (z mod 146097)" "Suc z div 146097 = z div 146097" if "Suc (z mod 146097) < 146097"
    using that by (auto simp: mod_Suc div_Suc)
  consider "Suc doy < 365 + (if leap (y + 1) then 1 else 0)"
    | "Suc doy = 365 + (if leap (y + 1) then 1 else 0)" using d by linarith
  then show ?thesis
  proof cases
    case 1
    then have "Suc (z mod 146097) < 146097" using r b lp by (auto split: if_splits)
    with inside r b 1 lp have "day_rep c q s (Suc doy) (Suc z)" by (auto simp: day_rep_def split: if_splits)
    then show ?thesis using civil_rep_next [OF 1] inside \<open>Suc (z mod 146097) < 146097\<close> assms(2) by auto
  next
    case 2
    have year: ?thesis if "day_rep c' q' s' 0 (Suc z)" "400 * (Suc z div 146097) + 100 * c' + 4 * q' + s' = y + 1" for c' q' s'
      using that civil_rep_year [OF 2] by metis
    consider "s < 3" | "s = 3" "q < 24" | "s = 3" "q = 24" "c < 3" | "s = 3" "q = 24" "c = 3" using b by linarith
    then show ?thesis
    proof cases
      case a: 1
      then have "day_rep c q (Suc s) 0 (Suc z)" "Suc z div 146097 = z div 146097"
        using inside r b 2 lp by (auto simp: day_rep_def)
      then show ?thesis using assms(2) by (intro year) (assumption, linarith)
    next
      case a: 2
      then have "day_rep c (Suc q) 0 0 (Suc z)" "Suc z div 146097 = z div 146097"
        using inside r b 2 lp by (auto simp: day_rep_def)
      then show ?thesis using a assms(2) by (intro year) (assumption, simp)
    next
      case a: 3
      then have "day_rep (Suc c) 0 0 0 (Suc z)" "Suc z div 146097 = z div 146097"
        using inside r b 2 lp by (auto simp: day_rep_def)
      then show ?thesis using a assms(2) by (intro year) (assumption, simp)
    next
      case a: 4
      then have "z mod 146097 = 146096" using r 2 lp by simp
      then have "day_rep 0 0 0 0 (Suc z)" "Suc z div 146097 = Suc (z div 146097)"
        by (auto simp: day_rep_def mod_Suc div_Suc)
      then show ?thesis using a assms(2) by (intro year) (assumption, simp)
    qed
  qed
qed

text \<open>C38. The date of a time stamp is right for every day: the closed formula of the code agrees
  with the Gregorian calendar counted day by day from 1970-01-01.\<close>

theorem civil_calendar:
  "civil_of_days days = (next_day ^^ days) (1970, 1, 1)"
proof -
  have "\<exists>c q s doy. day_rep c q s doy (days + 719468) \<and>
    civil_rep (400 * ((days + 719468) div 146097) + 100 * c + 4 * q + s) doy = (next_day ^^ days) (1970, 1, 1)"
  proof (induction days)
    case 0
    have "day_rep 3 17 1 306 719468" "civil_rep 1969 306 = (1970, 1, 1)"
      by (simp_all add: day_rep_def civil_rep_def month_day_table)
    then show ?case by force
  next
    case (Suc days)
    then show ?case using day_rep_next by fastforce
  qed
  then show ?thesis using civil_of_days_rep by metis
qed

end
