(* ===== verification/FileSys.thy ===== *)
theory FileSys
  imports Prelude "HOL-Library.Word"
begin

text \<open>
  The operating system under the cache (\<open>std::fs\<close>, \<open>std::io\<close>, \<open>std::time\<close>): the files of
  the cache root by path, and the system calls the cache makes on them.

  Every system call may fail. \<open>wd_faults n\<close> says what happens to the \<open>n\<close>-th call of the run:
  \<open>None\<close> lets it succeed; \<open>Some (e, k)\<close> makes it return \<open>e\<close>, after the first \<open>k\<close> bytes of a
  write have reached the file. A process killed at some call is the run in which that
  call and every later one fail, so a statement for all \<open>wd_faults\<close> covers both I/O errors
  and crashes. \<open>sleep\<close> advances the clock (in milliseconds) by the requested time and a lag.
  \<open>wd_tmp_counter\<close> is the process's static counter of temporary file names.

  A file has an inode number, shared by the paths that are hard links to it. Data is only
  ever written to files with one link (the journal, the snapshot's and the store's temporary
  files), so a write updates the path it names.
\<close>

section \<open>Files\<close>

type_synonym byte = "8 word"
type_synonym bytes = "byte list"

datatype io_error = NotFound | UnexpectedEof | AlreadyExists | WouldBlock | CrossDevice | OtherIo string

datatype inode = File (f_ino: nat) (f_data: bytes)

type_synonym fs = "(string, inode) index_map"

definition fs_read :: "fs \<Rightarrow> string \<Rightarrow> bytes option" where
  "fs_read fs p = map_option f_data (im_get fs p)"

definition fresh_ino :: "fs \<Rightarrow> nat" where
  "fresh_ino fs = Suc (fold max (map (f_ino \<circ> snd) fs) 0)"

definition fs_set :: "string \<Rightarrow> bytes \<Rightarrow> fs \<Rightarrow> fs" where
  "fs_set p d fs =
     im_insert p (File (case im_get fs p of Some f \<Rightarrow> f_ino f | None \<Rightarrow> fresh_ino fs) d) fs"

definition fs_remove :: "string \<Rightarrow> fs \<Rightarrow> fs" where
  "fs_remove p fs = filter (\<lambda>(q, _). q \<noteq> p) fs"

definition fs_nlink :: "fs \<Rightarrow> string \<Rightarrow> nat" where
  "fs_nlink fs p =
     (case im_get fs p of None \<Rightarrow> 0
      | Some f \<Rightarrow> length (filter (\<lambda>(_, g). f_ino g = f_ino f) fs))"

lemma im_get_remove [simp]: "im_get (fs_remove p fs) q = (if q = p then None else im_get fs q)"
  by (induction fs) (auto simp: im_get_def fs_remove_def)

lemma fs_read_set [simp]: "fs_read (fs_set p d fs) q = (if q = p then Some d else fs_read fs q)"
  by (simp add: fs_read_def fs_set_def im.get_put)

lemma fs_read_remove [simp]: "fs_read (fs_remove p fs) q = (if q = p then None else fs_read fs q)"
  by (simp add: fs_read_def)

lemma fs_read_insert [simp]:
  "fs_read (im_insert p f fs) q = (if q = p then Some (f_data f) else fs_read fs q)"
  by (simp add: fs_read_def im.get_put)

section \<open>Programs with effects\<close>

record world =
  wd_fs :: fs
  wd_calls :: nat
  wd_clock :: nat
  wd_faults :: "nat \<Rightarrow> (io_error \<times> nat) option"
  wd_lag :: "nat \<Rightarrow> nat"
  wd_tmp_counter :: nat
  wd_thread :: nat

type_synonym ('s, 'a, 'e) io = "'s \<Rightarrow> ('a, 'e) result \<times> 's"

definition io_return :: "'a \<Rightarrow> ('s, 'a, 'e) io" where
  "io_return x w = (Inr x, w)"

definition io_fail :: "'e \<Rightarrow> ('s, 'a, 'e) io" where
  "io_fail e w = (Inl e, w)"

definition io_bind :: "('s, 'a, 'e) io \<Rightarrow> ('a \<Rightarrow> ('s, 'b, 'e) io) \<Rightarrow> ('s, 'b, 'e) io" where
  "io_bind m f w = (case m w of (Inl e, w') \<Rightarrow> (Inl e, w') | (Inr x, w') \<Rightarrow> f x w')"

definition io_map_err :: "('e \<Rightarrow> 'f) \<Rightarrow> ('s, 'a, 'e) io \<Rightarrow> ('s, 'a, 'f) io" where
  "io_map_err g m w = (case m w of (r, w') \<Rightarrow> (map_err g r, w'))"

text \<open>\<open>match m { Ok(..) => .., Err(..) => .. }\<close> and \<open>let _ = m\<close>: the result as a value.\<close>

definition io_try :: "('s, 'a, 'e) io \<Rightarrow> ('s, ('a, 'e) result, 'f) io" where
  "io_try m w = (case m w of (r, w') \<Rightarrow> (Inr r, w'))"

definition io_lift :: "('a, 'e) result \<Rightarrow> ('s, 'a, 'e) io" where
  "io_lift r w = (r, w)"

definition io_get :: "('s \<Rightarrow> 'a) \<Rightarrow> ('s, 'a, 'e) io" where
  "io_get f w = (Inr (f w), w)"

definition io_modify :: "('s \<Rightarrow> 's) \<Rightarrow> ('s, unit, 'e) io" where
  "io_modify f w = (Inr (), f w)"

section \<open>System calls\<close>

definition syscall ::
  "(fs \<Rightarrow> ('r, io_error) result \<times> fs) \<Rightarrow> (nat \<Rightarrow> fs \<Rightarrow> fs) \<Rightarrow> ('a world_scheme, 'r, io_error) io" where
  "syscall act torn w =
     (case wd_faults w (wd_calls w) of
        None \<Rightarrow> (case act (wd_fs w) of (r, fs) \<Rightarrow>
                  (r, w\<lparr>wd_fs := fs, wd_calls := Suc (wd_calls w)\<rparr>))
      | Some (e, k) \<Rightarrow>
          (Inl e, w\<lparr>wd_fs := torn k (wd_fs w), wd_calls := Suc (wd_calls w)\<rparr>))"

definition sys_pure :: "(fs \<Rightarrow> ('r, io_error) result) \<Rightarrow> ('a world_scheme, 'r, io_error) io" where
  "sys_pure f = syscall (\<lambda>fs. (f fs, fs)) (\<lambda>_ fs. fs)"

text \<open>\<open>seek\<close>, \<open>sync_all\<close>, \<open>sync_data\<close> and \<open>create_dir_all\<close> leave the files' contents alone.\<close>

definition sys_nop :: "('a world_scheme, unit, io_error) io" where
  "sys_nop = sys_pure (\<lambda>_. Inr ())"

definition sys_len :: "string \<Rightarrow> ('a world_scheme, nat, io_error) io" where
  "sys_len p = sys_pure (\<lambda>fs. case fs_read fs p of None \<Rightarrow> Inl NotFound | Some d \<Rightarrow> Inr (length d))"

definition sys_read_file :: "string \<Rightarrow> ('a world_scheme, bytes, io_error) io" where
  "sys_read_file p = sys_pure (\<lambda>fs. case fs_read fs p of None \<Rightarrow> Inl NotFound | Some d \<Rightarrow> Inr d)"

text \<open>\<open>OpenOptions::open\<close> with \<open>create(true)\<close>, with \<open>create(true).truncate(true)\<close> and with
  \<open>create_new(true)\<close>.\<close>

definition sys_open_create :: "string \<Rightarrow> ('a world_scheme, unit, io_error) io" where
  "sys_open_create p =
     syscall (\<lambda>fs. (Inr (), case fs_read fs p of None \<Rightarrow> fs_set p [] fs | Some _ \<Rightarrow> fs)) (\<lambda>_ fs. fs)"

definition sys_open_truncate :: "string \<Rightarrow> ('a world_scheme, unit, io_error) io" where
  "sys_open_truncate p = syscall (\<lambda>fs. (Inr (), fs_set p [] fs)) (\<lambda>_ fs. fs)"

definition sys_open_new :: "string \<Rightarrow> ('a world_scheme, unit, io_error) io" where
  "sys_open_new p =
     syscall (\<lambda>fs. case fs_read fs p of None \<Rightarrow> (Inr (), fs_set p [] fs)
                   | Some _ \<Rightarrow> (Inl AlreadyExists, fs)) (\<lambda>_ fs. fs)"

text \<open>\<open>write_all\<close> on a handle whose position is the end of the file. A failing write reports
  how many bytes went out: \<open>BufWriter\<close> keeps the others.\<close>

definition fs_append :: "string \<Rightarrow> bytes \<Rightarrow> fs \<Rightarrow> fs" where
  "fs_append p d fs = (case fs_read fs p of None \<Rightarrow> fs | Some old \<Rightarrow> fs_set p (old @ d) fs)"

definition sys_write_part :: "string \<Rightarrow> bytes \<Rightarrow> ('a world_scheme, unit, io_error \<times> nat) io" where
  "sys_write_part p d w =
     (case wd_faults w (wd_calls w) of
        None \<Rightarrow> (Inr (), w\<lparr>wd_fs := fs_append p d (wd_fs w), wd_calls := Suc (wd_calls w)\<rparr>)
      | Some (e, k) \<Rightarrow>
          (Inl (e, k), w\<lparr>wd_fs := fs_append p (take k d) (wd_fs w), wd_calls := Suc (wd_calls w)\<rparr>))"

definition sys_write :: "string \<Rightarrow> bytes \<Rightarrow> ('a world_scheme, unit, io_error) io" where
  "sys_write p d = io_map_err fst (sys_write_part p d)"

definition sys_set_len :: "string \<Rightarrow> nat \<Rightarrow> ('a world_scheme, unit, io_error) io" where
  "sys_set_len p n =
     syscall (\<lambda>fs. case fs_read fs p of None \<Rightarrow> (Inl NotFound, fs)
                   | Some d \<Rightarrow> (Inr (), fs_set p (take n d @ replicate (n - length d) 0) fs)) (\<lambda>_ fs. fs)"

definition sys_rename :: "string \<Rightarrow> string \<Rightarrow> ('a world_scheme, unit, io_error) io" where
  "sys_rename p q =
     syscall (\<lambda>fs. case im_get fs p of None \<Rightarrow> (Inl NotFound, fs)
                   | Some f \<Rightarrow> (Inr (), im_insert q f (fs_remove p fs))) (\<lambda>_ fs. fs)"

definition sys_unlink :: "string \<Rightarrow> ('a world_scheme, unit, io_error) io" where
  "sys_unlink p =
     syscall (\<lambda>fs. case im_get fs p of None \<Rightarrow> (Inl NotFound, fs)
                   | Some _ \<Rightarrow> (Inr (), fs_remove p fs)) (\<lambda>_ fs. fs)"

definition sys_link :: "string \<Rightarrow> string \<Rightarrow> ('a world_scheme, unit, io_error) io" where
  "sys_link p q =
     syscall (\<lambda>fs. case im_get fs p of None \<Rightarrow> (Inl NotFound, fs)
                   | Some f \<Rightarrow> (case im_get fs q of Some _ \<Rightarrow> (Inl AlreadyExists, fs)
                               | None \<Rightarrow> (Inr (), im_insert q f fs))) (\<lambda>_ fs. fs)"

text \<open>\<open>Path::is_file\<close> and \<open>Path::exists\<close>: a failing \<open>stat\<close> counts as absent.\<close>

definition sys_exists :: "string \<Rightarrow> ('a world_scheme, bool, 'e) io" where
  "sys_exists p =
     io_bind (io_try (sys_len p)) (\<lambda>r. io_return (case r of Inr _ \<Rightarrow> True | Inl _ \<Rightarrow> False))"

definition sys_nlink :: "string \<Rightarrow> ('a world_scheme, nat, io_error) io" where
  "sys_nlink p =
     sys_pure (\<lambda>fs. case im_get fs p of None \<Rightarrow> Inl NotFound | Some _ \<Rightarrow> Inr (fs_nlink fs p))"

definition sys_sleep :: "nat \<Rightarrow> ('a world_scheme, unit, 'e) io" where
  "sys_sleep ms = io_modify (\<lambda>w. w\<lparr>wd_clock := wd_clock w + ms + wd_lag w (wd_calls w)\<rparr>)"

section \<open>Reasoning about every outcome\<close>

text \<open>\<open>wp m Q E\<close> holds in the states from which \<open>m\<close> ends in \<open>Q\<close> when it returns and in \<open>E\<close>
  when it fails.\<close>

definition wp :: "('s, 'a, 'e) io \<Rightarrow> ('a \<Rightarrow> 's \<Rightarrow> bool) \<Rightarrow> ('e \<Rightarrow> 's \<Rightarrow> bool) \<Rightarrow> 's \<Rightarrow> bool" where
  "wp m Q E w = (case m w of (Inr x, w') \<Rightarrow> Q x w' | (Inl e, w') \<Rightarrow> E e w')"

named_theorems wp_simps "weakest preconditions of the program constructs"

lemma wp_return [wp_simps]: "wp (io_return x) Q E w = Q x w"
  by (simp add: wp_def io_return_def)

lemma wp_fail [wp_simps]: "wp (io_fail e) Q E w = E e w"
  by (simp add: wp_def io_fail_def)

lemma wp_get [wp_simps]: "wp (io_get f) Q E w = Q (f w) w"
  by (simp add: wp_def io_get_def)

lemma wp_modify [wp_simps]: "wp (io_modify g) Q E w = Q () (g w)"
  by (simp add: wp_def io_modify_def)

lemma wp_lift [wp_simps]: "wp (io_lift r) Q E w = (case r of Inr x \<Rightarrow> Q x w | Inl e \<Rightarrow> E e w)"
  by (simp add: wp_def io_lift_def split: sum.split)

lemma wp_bind [wp_simps]: "wp (io_bind m f) Q E w = wp m (\<lambda>x. wp (f x) Q E) E w"
  by (auto simp: wp_def io_bind_def split: prod.split sum.split)

lemma wp_map_err [wp_simps]: "wp (io_map_err g m) Q E w = wp m Q (\<lambda>e. E (g e)) w"
  by (auto simp: wp_def io_map_err_def map_err_def split: prod.split sum.split)

lemma wp_try [wp_simps]: "wp (io_try m) Q E w = wp m (\<lambda>x. Q (Inr x)) (\<lambda>e. Q (Inl e)) w"
  by (auto simp: wp_def io_try_def split: prod.split sum.split)

lemma wp_mono:
  assumes "wp m Q E w" "\<And>x w'. Q x w' \<Longrightarrow> Q' x w'" "\<And>e w'. E e w' \<Longrightarrow> E' e w'"
  shows "wp m Q' E' w"
  using assms by (auto simp: wp_def split: prod.splits sum.splits)

lemma wp_run: "wp m Q E w \<Longrightarrow> m w = (r, w') \<Longrightarrow> (case r of Inr x \<Rightarrow> Q x w' | Inl e \<Rightarrow> E e w')"
  by (auto simp: wp_def split: sum.splits)

text \<open>A call keeps the schedule of faults; what it does to the files is decided by the next
  fault.\<close>

lemma wp_syscall [wp_simps]:
  "wp (syscall act torn) Q E w =
     (case wd_faults w (wd_calls w) of
        None \<Rightarrow> (case act (wd_fs w) of
                   (Inr x, fs) \<Rightarrow> Q x (w\<lparr>wd_fs := fs, wd_calls := Suc (wd_calls w)\<rparr>)
                 | (Inl e, fs) \<Rightarrow> E e (w\<lparr>wd_fs := fs, wd_calls := Suc (wd_calls w)\<rparr>))
      | Some (e, k) \<Rightarrow> E e (w\<lparr>wd_fs := torn k (wd_fs w), wd_calls := Suc (wd_calls w)\<rparr>))"
  by (auto simp: wp_def syscall_def split: option.split prod.split sum.split)

section \<open>Runs without faults\<close>

definition quiet :: "'a world_scheme \<Rightarrow> bool" where
  "quiet w \<longleftrightarrow> (\<forall>n. wd_faults w n = None)"

definition ticked :: "fs \<Rightarrow> 'a world_scheme \<Rightarrow> 'a world_scheme" where
  "ticked fs w = w\<lparr>wd_fs := fs, wd_calls := Suc (wd_calls w)\<rparr>"

lemma quiet_update [simp]:
  "quiet (w\<lparr>wd_fs := fs\<rparr>) = quiet w" "quiet (w\<lparr>wd_calls := n\<rparr>) = quiet w"
  "quiet (w\<lparr>wd_clock := t\<rparr>) = quiet w" "quiet (ticked fs w) = quiet w"
  by (simp_all add: quiet_def ticked_def)

lemma ticked_simps [simp]:
  "wd_fs (ticked fs w) = fs" "wd_faults (ticked fs w) = wd_faults w"
  "wd_clock (ticked fs w) = wd_clock w" "wd_tmp_counter (ticked fs w) = wd_tmp_counter w"
  "world.more (ticked fs w) = world.more w"
  by (simp_all add: ticked_def)

lemma wp_sys_exists [wp_simps]:
  "wp (sys_exists p) Q E w =
     Q (wd_faults w (wd_calls w) = None \<and> fs_read (wd_fs w) p \<noteq> None) (ticked (wd_fs w) w)"
  by (auto simp: sys_exists_def sys_len_def sys_pure_def wp_simps ticked_def split: option.split)

lemma wp_sys_write_part [wp_simps]:
  "wp (sys_write_part p d) Q E w =
     (case wd_faults w (wd_calls w) of
        None \<Rightarrow> Q () (ticked (fs_append p d (wd_fs w)) w)
      | Some (e, k) \<Rightarrow> E (e, k) (ticked (fs_append p (take k d) (wd_fs w)) w))"
  by (auto simp: wp_def sys_write_part_def ticked_def split: option.split)

lemma wp_sys_write [wp_simps]:
  "wp (sys_write p d) Q E w =
     (case wd_faults w (wd_calls w) of
        None \<Rightarrow> Q () (ticked (fs_append p d (wd_fs w)) w)
      | Some (e, k) \<Rightarrow> E e (ticked (fs_append p (take k d) (wd_fs w)) w))"
  by (auto simp: sys_write_def wp_simps split: option.split)

end
