(* ===== verification/Cas.thy ===== *)
theory Cas
  imports FileSys
begin

text \<open>
  The content-addressed store (\<open>crates/barista-cache/src/cas.rs\<close>): digests and their
  hexadecimal form, and the writes that go through a temporary file and a rename.

  Paths are relative to the cache root. SHA-256 (the \<open>sha2\<close> crate) is the parameter \<open>sha\<close>.
  The lemmas show that the hexadecimal form is inverted by its parser, and that under every
  schedule of faults an object's file holds data whose digest is its name.
\<close>

section \<open>Digests\<close>

type_synonym content_hash = bytes

datatype cas_error =
    CasIo string io_error
  | NotDirectory string
  | HashFormat string
  | UnsafePath string

definition HEX :: string where
  "HEX = ''0123456789abcdef''"

definition hex_digit :: "nat \<Rightarrow> char" where
  "hex_digit n = HEX ! n"

definition hex_byte :: "byte \<Rightarrow> string" where
  "hex_byte b = [hex_digit (unat (drop_bit 4 b)), hex_digit (unat (take_bit 4 b))]"

definition to_hex :: "content_hash \<Rightarrow> string" where
  "to_hex h = concat (map hex_byte h)"

definition decode_hex_nibble :: "char \<Rightarrow> (byte, cas_error) result" where
  "decode_hex_nibble c =
     (let b = byte_of c in
      if 48 \<le> b \<and> b \<le> 57 then Inr (word_of_nat (b - 48))
      else if 97 \<le> b \<and> b \<le> 102 then Inr (word_of_nat (b - 97 + 10))
      else if 65 \<le> b \<and> b \<le> 70 then Inr (word_of_nat (b - 65 + 10))
      else Inl (HashFormat (''non-hex byte 0x'' @ hex_byte (word_of_nat b))))"

fun decode_hex_pairs :: "string \<Rightarrow> (bytes, cas_error) result" where
  "decode_hex_pairs (a # b # s) =
     rbind (decode_hex_nibble a) (\<lambda>hi. rbind (decode_hex_nibble b) (\<lambda>lo.
       rbind (decode_hex_pairs s) (\<lambda>bs. Inr (or (push_bit 4 hi) lo # bs))))"
| "decode_hex_pairs s = Inr []"

definition from_hex :: "string \<Rightarrow> (content_hash, cas_error) result" where
  "from_hex s =
     (if length s \<noteq> 64 then Inl (HashFormat (''expected 64 hex chars, got '' @ show_nat (length s)))
      else decode_hex_pairs s)"

section \<open>Paths\<close>

definition OBJECTS_DIR :: string where
  "OBJECTS_DIR = ''objects''"

definition TMP_DIR :: string where
  "TMP_DIR = ''tmp''"

definition path_for :: "content_hash \<Rightarrow> string" where
  "path_for h = (let hex = to_hex h in OBJECTS_DIR @ ''/'' @ take 2 hex @ ''/'' @ hex)"

text \<open>\<open>{n:016x}\<close> of a \<open>u64\<close>.\<close>

definition hex16 :: "nat \<Rightarrow> string" where
  "hex16 n = map (\<lambda>i. hex_digit (n div 16 ^ (15 - i) mod 16)) [0..<16]"

definition fresh_tmp_path :: "('a world_scheme, string, 'e) io" where
  "fresh_tmp_path =
     io_bind (io_get (\<lambda>w. (wd_clock w, wd_tmp_counter w, wd_thread w))) (\<lambda>(ms, ctr, tid).
     io_bind (io_modify (\<lambda>w. w\<lparr>wd_tmp_counter := (wd_tmp_counter w + 1) mod 2 ^ 64\<rparr>)) (\<lambda>_.
     io_return (TMP_DIR @ ''/'' @ hex16 (ms * 1000000 mod 2 ^ 64) @ hex16 ctr @ hex16 tid)))"

section \<open>Operations\<close>

definition cas_at :: "string \<Rightarrow> ('s, 'a, io_error) io \<Rightarrow> ('s, 'a, cas_error) io" where
  "cas_at p m = io_map_err (CasIo p) m"

text \<open>The root \<open>''''\<close> is the cache directory itself: a file there is \<open>NotDirectory\<close>.\<close>

definition cas_open :: "('a world_scheme, unit, cas_error) io" where
  "cas_open =
     io_bind (sys_exists '''') (\<lambda>is_plain_file.
     if is_plain_file then io_fail (NotDirectory '''')
     else io_bind (cas_at '''' sys_nop) (\<lambda>_.
          io_bind (cas_at OBJECTS_DIR sys_nop) (\<lambda>_.
          cas_at TMP_DIR sys_nop)))"

definition finalize_tmp ::
  "string \<Rightarrow> content_hash \<Rightarrow> string \<Rightarrow> ('a world_scheme, content_hash \<times> string, cas_error) io" where
  "finalize_tmp tmp h final_path =
     io_bind (cas_at (OBJECTS_DIR @ ''/'' @ take 2 (to_hex h)) sys_nop) (\<lambda>_.
     io_bind (io_try (sys_rename tmp final_path)) (\<lambda>r.
     case r of
       Inl e \<Rightarrow> io_bind (io_try (sys_unlink tmp)) (\<lambda>_. io_fail (CasIo final_path e))
     | Inr _ \<Rightarrow> io_return (h, final_path)))"

definition cas_put ::
  "(bytes \<Rightarrow> content_hash) \<Rightarrow> bytes \<Rightarrow> ('a world_scheme, content_hash \<times> string, cas_error) io" where
  "cas_put sha data =
     (let h = sha data; final_path = path_for h in
      io_bind (sys_exists final_path) (\<lambda>present.
      if present then io_return (h, final_path)
      else io_bind fresh_tmp_path (\<lambda>tmp.
           io_bind (cas_at tmp (sys_open_new tmp)) (\<lambda>_.
           io_bind (cas_at tmp (sys_write tmp data)) (\<lambda>_.
           io_bind (cas_at tmp sys_nop) (\<lambda>_.
           finalize_tmp tmp h final_path))))))"

text \<open>What a \<open>Read\<close> yields: data, an interruption (retried) or an error; the end of the list
  is the end of the stream.\<close>

datatype read_event = Chunk bytes | Interrupted | ReadFailed io_error

fun put_chunks :: "string \<Rightarrow> read_event list \<Rightarrow> bytes \<Rightarrow> ('a world_scheme, bytes, cas_error) io" where
  "put_chunks tmp [] acc = io_return acc"
| "put_chunks tmp (Interrupted # evs) acc = put_chunks tmp evs acc"
| "put_chunks tmp (ReadFailed e # evs) acc =
     io_bind (io_try (sys_unlink tmp)) (\<lambda>_. io_fail (CasIo tmp e))"
| "put_chunks tmp (Chunk d # evs) acc =
     (if d = [] then io_return acc
      else io_bind (io_try (sys_write tmp d)) (\<lambda>r.
        case r of
          Inl e \<Rightarrow> io_bind (io_try (sys_unlink tmp)) (\<lambda>_. io_fail (CasIo tmp e))
        | Inr _ \<Rightarrow> put_chunks tmp evs (acc @ d)))"

text \<open>The end of \<open>put_stream\<close>, once the input is drained.\<close>

definition finish_stream ::
  "(bytes \<Rightarrow> content_hash) \<Rightarrow> string \<Rightarrow> bytes \<Rightarrow>
   ('a world_scheme, content_hash \<times> string \<times> nat, cas_error) io" where
  "finish_stream sha tmp data =
     io_bind (cas_at tmp sys_nop) (\<lambda>_.
     (let h = sha data; final_path = path_for h in
      io_bind (sys_exists final_path) (\<lambda>present.
      if present
      then io_bind (io_try (sys_unlink tmp)) (\<lambda>_. io_return (h, final_path, length data))
      else io_bind (finalize_tmp tmp h final_path) (\<lambda>(h, p). io_return (h, p, length data)))))"

definition cas_put_stream ::
  "(bytes \<Rightarrow> content_hash) \<Rightarrow> read_event list \<Rightarrow>
   ('a world_scheme, content_hash \<times> string \<times> nat, cas_error) io" where
  "cas_put_stream sha evs =
     io_bind fresh_tmp_path (\<lambda>tmp.
     io_bind (cas_at tmp (sys_open_new tmp)) (\<lambda>_.
     io_bind (put_chunks tmp evs []) (finish_stream sha tmp)))"

definition cas_get :: "content_hash \<Rightarrow> ('a world_scheme, bytes, cas_error) io" where
  "cas_get h = cas_at (path_for h) (sys_read_file (path_for h))"

definition cas_contains :: "content_hash \<Rightarrow> ('a world_scheme, bool, 'e) io" where
  "cas_contains h = sys_exists (path_for h)"

text \<open>The walk of \<open>Cas::entries\<close>: a path two levels below \<open>objects/\<close> whose last component is a
  digest. \<open>object_name\<close> splits off the shard and the name.\<close>

definition object_name :: "string \<Rightarrow> (string \<times> string) option" where
  "object_name p =
     (case strip_prefix p (OBJECTS_DIR @ ''/'') of
        None \<Rightarrow> None
      | Some r \<Rightarrow> (case split_once (CHR ''/'') r of
                   None \<Rightarrow> None
                 | Some (shard, name) \<Rightarrow>
                     if shard \<noteq> [] \<and> name \<noteq> [] \<and> CHR ''/'' \<notin> set name then Some (shard, name) else None))"

definition shard_names :: "fs \<Rightarrow> string list" where
  "shard_names fs = remdups (map fst (List.map_filter (\<lambda>(p, _). object_name p) fs))"

definition shard_paths :: "fs \<Rightarrow> string \<Rightarrow> (content_hash \<times> string) list" where
  "shard_paths fs shard =
     List.map_filter (\<lambda>(p, _). case object_name p of
         Some (s, name) \<Rightarrow> if s = shard then (case from_hex name of Inr h \<Rightarrow> Some (h, p) | Inl _ \<Rightarrow> None)
                          else None
       | None \<Rightarrow> None) fs"

text \<open>A directory that cannot be read is an error item of the walk; the root that cannot be read
  is an empty walk.\<close>

fun list_shards ::
  "string list \<Rightarrow> ('a world_scheme, (content_hash \<times> string, cas_error) result list, 'e) io" where
  "list_shards [] = io_return []"
| "list_shards (s # ss) =
     io_bind (io_try (sys_pure (\<lambda>fs. Inr (shard_paths fs s)))) (\<lambda>r.
     io_bind (list_shards ss) (\<lambda>items.
     io_return ((case r of Inl e \<Rightarrow> [Inl (CasIo (OBJECTS_DIR @ ''/'' @ s) e)] | Inr ps \<Rightarrow> map Inr ps) @ items)))"

definition cas_entries ::
  "('a world_scheme, (content_hash \<times> string, cas_error) result list, 'e) io" where
  "cas_entries =
     io_bind (io_try (sys_pure (\<lambda>fs. Inr (shard_names fs)))) (\<lambda>r.
     case r of Inl _ \<Rightarrow> io_return [] | Inr ss \<Rightarrow> list_shards ss)"

section \<open>The hexadecimal form\<close>

lemma nibble_cases:
  assumes "n < 16"
  shows "n \<in> {0, 1, 2, 3, 4, 5, 6, 7, 8, 9, 10, 11, 12, 13, 14, 15 :: nat}"
  using assms by (simp add: numeral_eq_Suc less_Suc_eq)

lemma decode_hex_digit:
  assumes "n < 16"
  shows "decode_hex_nibble (hex_digit n) = Inr (word_of_nat n)"
  using nibble_cases [OF assms]
  by (auto simp: hex_digit_def HEX_def decode_hex_nibble_def byte_of_def)

lemma byte_split: "or (push_bit 4 (drop_bit 4 b)) (take_bit 4 b) = (b :: byte)"
  by (rule bit_word_eqI) (auto simp: bit_simps)

lemma nibble_bounds: "unat (drop_bit 4 (b :: byte)) < 16" "unat (take_bit 4 (b :: byte)) < 16"
proof -
  have "unat b < 256" using unsigned_less [of b] by simp
  then show "unat (drop_bit 4 b) < 16" by (simp add: drop_bit_eq_div unat_div)
  show "unat (take_bit 4 b) < 16" by (simp add: take_bit_eq_mod unat_mod)
qed

lemma decode_hex_pairs_to_hex: "decode_hex_pairs (to_hex h) = Inr h"
proof (induction h)
  case (Cons b h)
  have "to_hex (b # h) = hex_digit (unat (drop_bit 4 b)) # hex_digit (unat (take_bit 4 b)) # to_hex h"
    by (simp add: to_hex_def hex_byte_def)
  then show ?case
    using Cons by (simp add: decode_hex_digit nibble_bounds byte_split)
qed (simp add: to_hex_def)

lemma length_to_hex: "length (to_hex h) = 2 * length h"
  by (induction h) (simp_all add: to_hex_def hex_byte_def)

lemma to_hex_inj: "to_hex a = to_hex b \<longleftrightarrow> a = b"
  using decode_hex_pairs_to_hex by (metis Inr_inject)

lemma from_hex_to_hex: "length h = 32 \<Longrightarrow> from_hex (to_hex h) = Inr h"
  by (simp add: from_hex_def length_to_hex decode_hex_pairs_to_hex)

lemma path_for_inj: "path_for a = path_for b \<longleftrightarrow> a = b"
proof
  assume eq: "path_for a = path_for b"
  then have "length (path_for a) = length (path_for b)" by simp
  then have "length (to_hex a) = length (to_hex b)"
    by (simp add: path_for_def Let_def OBJECTS_DIR_def min_def split: if_splits)
  then show "a = b" using eq by (simp add: path_for_def Let_def to_hex_inj)
qed simp

lemma tmp_not_object [simp]: "TMP_DIR @ s \<noteq> path_for h" "path_for h \<noteq> TMP_DIR @ s"
  by (simp_all add: TMP_DIR_def path_for_def OBJECTS_DIR_def Let_def)

lemma byte_of_hex_digit:
  "n < 10 \<Longrightarrow> byte_of (hex_digit n) = 48 + n"
  "10 \<le> n \<Longrightarrow> n < 16 \<Longrightarrow> byte_of (hex_digit n) = 87 + n"
  using nibble_cases [of n] by (auto simp: hex_digit_def HEX_def byte_of_def)

lemma byte_of_lower:
  "byte_of (ascii_lower c) = (if 65 \<le> byte_of c \<and> byte_of c \<le> 90 then byte_of c + 32 else byte_of c)"
  by (simp add: ascii_lower_def byte_of_def)

lemma hex_digit_lower:
  assumes "decode_hex_nibble c = Inr b"
  shows "hex_digit (unat b) = ascii_lower c \<and> unat b < 16"
proof -
  have u: "unat (word_of_nat n :: byte) = n" if "n < 16" for n
    using that by (simp add: unat_of_nat)
  consider "48 \<le> byte_of c" "byte_of c \<le> 57" "b = word_of_nat (byte_of c - 48)"
    | "97 \<le> byte_of c" "byte_of c \<le> 102" "b = word_of_nat (byte_of c - 97 + 10)"
    | "65 \<le> byte_of c" "byte_of c \<le> 70" "b = word_of_nat (byte_of c - 65 + 10)"
    using assms by (auto simp: decode_hex_nibble_def Let_def split: if_splits)
  then have "byte_of (hex_digit (unat b)) = byte_of (ascii_lower c) \<and> unat b < 16"
  proof cases
    case 1
    then show ?thesis using u [of "byte_of c - 48"] byte_of_hex_digit(1) [of "byte_of c - 48"]
      by (simp add: byte_of_lower)
  next
    case 2
    then show ?thesis using u [of "byte_of c - 97 + 10"] byte_of_hex_digit(2) [of "byte_of c - 97 + 10"]
      by (simp add: byte_of_lower)
  next
    case 3
    then show ?thesis using u [of "byte_of c - 65 + 10"] byte_of_hex_digit(2) [of "byte_of c - 65 + 10"]
      by (simp add: byte_of_lower)
  qed
  then show ?thesis by simp
qed

text \<open>Only the letter case of a digest's text is lost by parsing it.\<close>

lemma nibble_join:
  assumes "unat hi < 16" "unat lo < 16"
  shows "unat (drop_bit 4 (or (push_bit 4 hi) lo)) = unat (hi :: byte)"
    "unat (take_bit 4 (or (push_bit 4 hi) lo)) = unat (lo :: byte)"
proof -
  have small: "\<not> bit b n" if "unat b < 16" "4 \<le> n" for b :: byte and n
  proof -
    have "take_bit 4 b = b"
      using that by (simp add: take_bit_eq_mod word_unat_eq_iff unat_mod)
    then show ?thesis using that(2) by (metis bit_take_bit_iff not_le)
  qed
  have "drop_bit 4 (or (push_bit 4 hi) lo) = hi"
    by (rule bit_word_eqI) (use small [OF assms(1)] small [OF assms(2)] in \<open>auto simp: bit_simps not_less [symmetric]\<close>)
  moreover have "take_bit 4 (or (push_bit 4 hi) lo) = lo"
    by (rule bit_word_eqI) (use small [OF assms(2)] in \<open>auto simp: bit_simps not_less\<close>)
  ultimately show "unat (drop_bit 4 (or (push_bit 4 hi) lo)) = unat hi"
    "unat (take_bit 4 (or (push_bit 4 hi) lo)) = unat lo" by simp_all
qed

lemma to_hex_decode: "decode_hex_pairs s = Inr h \<Longrightarrow> even (length s) \<Longrightarrow> to_hex h = lower s"
proof (induction s arbitrary: h rule: decode_hex_pairs.induct)
  case (1 a b s)
  then obtain hi lo bs where *: "decode_hex_nibble a = Inr hi" "decode_hex_nibble b = Inr lo"
    "decode_hex_pairs s = Inr bs" "h = or (push_bit 4 hi) lo # bs" by auto
  then have "to_hex bs = lower s" using 1 by simp
  then show ?case
    using * hex_digit_lower [OF *(1)] hex_digit_lower [OF *(2)] nibble_join [of hi lo]
    by (simp add: to_hex_def hex_byte_def lower_def)
qed (auto simp: to_hex_def lower_def)

lemma decode_hex_nibble_lower: "decode_hex_nibble (ascii_lower c) = Inr b \<Longrightarrow> decode_hex_nibble c = Inr b"
  by (auto simp: decode_hex_nibble_def Let_def byte_of_lower split: if_splits)

lemma decode_hex_pairs_lower: "decode_hex_pairs (lower s) = Inr h \<Longrightarrow> decode_hex_pairs s = Inr h"
proof (induction s arbitrary: h rule: decode_hex_pairs.induct)
  case (1 a b s)
  have "lower (a # b # s) = ascii_lower a # ascii_lower b # lower s" by (simp add: lower_def)
  with "1.prems" obtain hi lo bs where "decode_hex_nibble (ascii_lower a) = Inr hi"
    "decode_hex_nibble (ascii_lower b) = Inr lo" and bs: "decode_hex_pairs (lower s) = Inr bs"
    and h: "h = or (push_bit 4 hi) lo # bs" by (simp add: rbind_Inr_iff) metis
  then have *: "decode_hex_nibble a = Inr hi" "decode_hex_nibble b = Inr lo"
    by (auto intro: decode_hex_nibble_lower)
  show ?case using * "1.IH" [OF * bs] by (simp add: h)
qed (simp_all add: lower_def)

lemma length_decode_hex_pairs: "decode_hex_pairs s = Inr h \<Longrightarrow> length h = length s div 2"
  by (induction s arbitrary: h rule: decode_hex_pairs.induct) auto

lemma from_hex_Inr_iff: "from_hex s = Inr h \<longleftrightarrow> length h = 32 \<and> to_hex h = lower s"
proof
  assume "from_hex s = Inr h"
  then have d: "decode_hex_pairs s = Inr h" and l: "length s = 64"
    by (auto simp: from_hex_def split: if_splits)
  show "length h = 32 \<and> to_hex h = lower s"
    using to_hex_decode [OF d] length_decode_hex_pairs [OF d] l by simp
next
  assume *: "length h = 32 \<and> to_hex h = lower s"
  then have "length (lower s) = 64" using length_to_hex [of h] by simp
  then have "length s = 64" by (simp add: lower_def)
  moreover have "decode_hex_pairs (lower s) = Inr h"
    using * decode_hex_pairs_to_hex [of h] by metis
  ultimately show "from_hex s = Inr h"
    by (auto simp: from_hex_def intro: decode_hex_pairs_lower)
qed

section \<open>Integrity\<close>

text \<open>Every object's data hashes to its name.\<close>

definition cas_ok :: "(bytes \<Rightarrow> content_hash) \<Rightarrow> fs \<Rightarrow> bool" where
  "cas_ok sha fs \<longleftrightarrow> (\<forall>h d. fs_read fs (path_for h) = Some d \<longrightarrow> sha d = h)"

lemma cas_ok_set [simp]: "cas_ok sha fs \<Longrightarrow> cas_ok sha (fs_set (TMP_DIR @ s) d fs)"
  by (auto simp: cas_ok_def)

lemma cas_ok_remove [simp]: "cas_ok sha fs \<Longrightarrow> cas_ok sha (fs_remove p fs)"
  by (auto simp: cas_ok_def)

lemma cas_ok_append [simp]: "cas_ok sha fs \<Longrightarrow> cas_ok sha (fs_append (TMP_DIR @ s) d fs)"
  by (auto simp: fs_append_def split: option.split)

lemma cas_ok_publish: "cas_ok sha fs \<Longrightarrow> cas_ok sha (im_insert (path_for (sha (f_data f))) f fs)"
  by (auto simp: cas_ok_def path_for_inj)

text \<open>While a write is in flight only files under \<open>tmp/\<close> differ from the initial ones.\<close>

definition in_flight :: "fs \<Rightarrow> fs \<Rightarrow> bool" where
  "in_flight fs0 fs \<longleftrightarrow> (\<forall>q. (\<forall>s. q \<noteq> TMP_DIR @ s) \<longrightarrow> fs_read fs q = fs_read fs0 q)"

lemma in_flight_refl [simp]: "in_flight fs fs"
  by (simp add: in_flight_def)

lemma in_flight_step [simp]:
  "in_flight fs0 fs \<Longrightarrow> in_flight fs0 (fs_set (TMP_DIR @ s) d fs)"
  "in_flight fs0 fs \<Longrightarrow> in_flight fs0 (fs_remove (TMP_DIR @ s) fs)"
  "in_flight fs0 fs \<Longrightarrow> in_flight fs0 (fs_append (TMP_DIR @ s) d fs)"
  by (auto simp: in_flight_def fs_append_def split: option.split)

lemma in_flight_cas_ok: "in_flight fs0 fs \<Longrightarrow> cas_ok sha fs0 \<Longrightarrow> cas_ok sha fs"
  unfolding in_flight_def cas_ok_def by (metis tmp_not_object(2))

text \<open>After a finished or failed write of \<open>data\<close>: at most the object of \<open>data\<close> is new.\<close>

definition published :: "(bytes \<Rightarrow> content_hash) \<Rightarrow> bytes \<Rightarrow> fs \<Rightarrow> fs \<Rightarrow> bool" where
  "published sha data fs0 fs \<longleftrightarrow> cas_ok sha fs \<and>
     (\<forall>q. q \<noteq> path_for (sha data) \<and> (\<forall>s. q \<noteq> TMP_DIR @ s) \<longrightarrow> fs_read fs q = fs_read fs0 q)"

lemma in_flight_published: "in_flight fs0 fs \<Longrightarrow> cas_ok sha fs0 \<Longrightarrow> published sha data fs0 fs"
  using in_flight_cas_ok by (auto simp: published_def in_flight_def)

lemma published_rename:
  assumes "in_flight fs0 fs" "cas_ok sha fs0" "sha (f_data f) = sha data"
  shows "published sha data fs0 (im_insert (path_for (sha data)) f (fs_remove (TMP_DIR @ s) fs))"
  using assms in_flight_cas_ok [OF assms(1,2)] cas_ok_publish [of sha "fs_remove (TMP_DIR @ s) fs" f]
  by (auto simp: published_def in_flight_def)

definition stored :: "(bytes \<Rightarrow> content_hash) \<Rightarrow> bytes \<Rightarrow> fs \<Rightarrow> content_hash \<times> string \<Rightarrow> bool" where
  "stored sha data fs hp \<longleftrightarrow>
     (case hp of (h, p) \<Rightarrow> h = sha data \<and> p = path_for h \<and> (\<exists>d. fs_read fs p = Some d \<and> sha d = h))"

lemma finalize_tmp_wp:
  assumes "in_flight fs0 (wd_fs w)" "cas_ok sha fs0" "fs_read (wd_fs w) (TMP_DIR @ s) = Some data"
  shows "wp (finalize_tmp (TMP_DIR @ s) (sha data) (path_for (sha data)))
     (\<lambda>hp w'. published sha data fs0 (wd_fs w') \<and> stored sha data (wd_fs w') hp)
     (\<lambda>_ w'. published sha data fs0 (wd_fs w')) w"
proof -
  note pub = in_flight_published [OF _ assms(2)]
  show ?thesis
    using assms published_rename [OF assms(1,2), of _ data s]
    unfolding finalize_tmp_def cas_at_def sys_nop_def sys_pure_def sys_rename_def sys_unlink_def
    by (auto simp: wp_simps pub stored_def fs_read_def im.get_put split: option.split)
qed

definition tmp_name :: "'a world_scheme \<Rightarrow> string" where
  "tmp_name w = ''/'' @ hex16 (wd_clock w * 1000000 mod 2 ^ 64) @ hex16 (wd_tmp_counter w) @ hex16 (wd_thread w)"

lemma wp_fresh_tmp_path [wp_simps]:
  "wp fresh_tmp_path Q E w =
     Q (TMP_DIR @ tmp_name w) (w\<lparr>wd_tmp_counter := (wd_tmp_counter w + 1) mod 2 ^ 64\<rparr>)"
  by (simp add: fresh_tmp_path_def wp_simps tmp_name_def)

lemma cas_put_wp:
  assumes "cas_ok sha (wd_fs w)"
  shows "wp (cas_put sha data)
     (\<lambda>hp w'. published sha data (wd_fs w) (wd_fs w') \<and> stored sha data (wd_fs w') hp)
     (\<lambda>_ w'. published sha data (wd_fs w) (wd_fs w')) w"
proof -
  note pub = in_flight_published [OF _ assms]
  have "stored sha data (wd_fs w) (sha data, path_for (sha data))"
    if "fs_read (wd_fs w) (path_for (sha data)) \<noteq> None"
    using that assms by (auto simp: stored_def cas_ok_def)
  then show ?thesis
    unfolding cas_put_def cas_at_def sys_nop_def sys_pure_def sys_open_new_def Let_def
    by (auto simp: wp_simps pub fs_append_def intro!: finalize_tmp_wp [OF _ assms] split: option.split)
qed

text \<open>The data of a stream: what is read up to its end.\<close>

fun stream_data :: "read_event list \<Rightarrow> bytes" where
  "stream_data (Chunk d # evs) = (if d = [] then [] else d @ stream_data evs)"
| "stream_data (Interrupted # evs) = stream_data evs"
| "stream_data _ = []"

lemma put_chunks_wp:
  assumes "in_flight fs0 (wd_fs w)" "fs_read (wd_fs w) (TMP_DIR @ s) = Some acc"
  shows "wp (put_chunks (TMP_DIR @ s) evs acc)
     (\<lambda>data w'. data = acc @ stream_data evs \<and> in_flight fs0 (wd_fs w') \<and>
        fs_read (wd_fs w') (TMP_DIR @ s) = Some data)
     (\<lambda>_ w'. in_flight fs0 (wd_fs w')) w"
  using assms
proof (induction "TMP_DIR @ s" evs acc arbitrary: w rule: put_chunks.induct)
  case (4 d evs acc)
  show ?case
  proof (cases "d = []")
    case False
    have "wp (put_chunks (TMP_DIR @ s) evs (acc @ d))
      (\<lambda>data w'. data = (acc @ d) @ stream_data evs \<and> in_flight fs0 (wd_fs w') \<and>
         fs_read (wd_fs w') (TMP_DIR @ s) = Some data)
      (\<lambda>_ w'. in_flight fs0 (wd_fs w')) (ticked (fs_append (TMP_DIR @ s) d (wd_fs w)) w)"
      by (rule 4(1) [OF False]) (use 4 in \<open>auto simp: fs_append_def\<close>)
    then show ?thesis
      using False 4 by (auto simp: wp_simps sys_unlink_def split: option.split)
  qed (use 4 in \<open>simp add: wp_simps\<close>)
qed (auto simp: wp_simps sys_unlink_def split: option.split)

lemma finish_stream_wp:
  assumes "in_flight fs0 (wd_fs w)" "cas_ok sha fs0" "fs_read (wd_fs w) (TMP_DIR @ s) = Some data"
  shows "wp (finish_stream sha (TMP_DIR @ s) data)
     (\<lambda>(h, p, n) w'. published sha data fs0 (wd_fs w') \<and> stored sha data (wd_fs w') (h, p) \<and> n = length data)
     (\<lambda>_ w'. published sha data fs0 (wd_fs w')) w"
proof -
  note pub = in_flight_published [OF _ assms(2)]
  have st: "stored sha data fs (sha data, path_for (sha data))"
    if "fs_read fs (path_for (sha data)) \<noteq> None" "in_flight fs0 fs" for fs
    using that in_flight_cas_ok [OF that(2) assms(2)] by (auto simp: stored_def cas_ok_def)
  have fin: "wp (finalize_tmp (TMP_DIR @ s) (sha data) (path_for (sha data)))
     (\<lambda>hp. wp (case hp of (h, p) \<Rightarrow> io_return (h, p, length data))
       (\<lambda>(h, p, n) w'. published sha data fs0 (wd_fs w') \<and> stored sha data (wd_fs w') (h, p) \<and> n = length data)
       (\<lambda>_ w'. published sha data fs0 (wd_fs w')))
     (\<lambda>_ w'. published sha data fs0 (wd_fs w')) w'" if "wd_fs w' = wd_fs w" for w' :: "'a world_scheme"
    by (rule wp_mono, rule finalize_tmp_wp [where s = s and w = w'])
      (use assms that in \<open>auto simp: wp_simps\<close>)
  show ?thesis
    using assms(1)
    unfolding finish_stream_def cas_at_def sys_nop_def sys_pure_def sys_unlink_def Let_def
    by (auto simp: wp_simps pub intro!: fin st split: option.split)
qed

lemma cas_put_stream_wp:
  assumes "cas_ok sha (wd_fs w)"
  shows "wp (cas_put_stream sha evs)
     (\<lambda>(h, p, n) w'. published sha (stream_data evs) (wd_fs w) (wd_fs w') \<and>
        stored sha (stream_data evs) (wd_fs w') (h, p) \<and> n = length (stream_data evs))
     (\<lambda>_ w'. published sha (stream_data evs) (wd_fs w) (wd_fs w')) w"
proof -
  note pub = in_flight_published [OF _ assms]
  have "wp (put_chunks (TMP_DIR @ tmp_name w) evs [])
     (\<lambda>data. wp (finish_stream sha (TMP_DIR @ tmp_name w) data)
       (\<lambda>(h, p, n) w'. published sha (stream_data evs) (wd_fs w) (wd_fs w') \<and>
          stored sha (stream_data evs) (wd_fs w') (h, p) \<and> n = length (stream_data evs))
       (\<lambda>_ w'. published sha (stream_data evs) (wd_fs w) (wd_fs w')))
     (\<lambda>_ w'. published sha (stream_data evs) (wd_fs w) (wd_fs w')) w'"
    if "in_flight (wd_fs w) (wd_fs w')" "fs_read (wd_fs w') (TMP_DIR @ tmp_name w) = Some []"
    for w' :: "'a world_scheme"
    by (rule wp_mono [OF put_chunks_wp [OF that]]) (auto intro: pub finish_stream_wp [OF _ assms])
  then show ?thesis
    unfolding cas_put_stream_def cas_at_def sys_open_new_def
    by (auto simp: wp_simps pub split: option.split)
qed

end
