(* ===== verification/Coords.thy ===== *)
theory Coords
  imports Prelude
begin

text \<open>
  Maven coordinates (\<open>crates/barista-coords/src/lib.rs\<close>): the three identity tuples, their
  parsers (\<open>FromStr\<close>) and their printers (\<open>Display\<close>).

  \<open>coords\<close> is a datatype rather than a record so that it can be an instance of \<open>linorder\<close>
  (the source derives \<open>Ord\<close>: group first, then artifact), which the walker's sorted audit
  needs. The lemmas show that each printer is inverted by its parser on components that
  hold no colon, and that each parser's result is printed back to its input unless the
  input spells out the default packaging.
\<close>

section \<open>Types\<close>

datatype coords = Coords (co_group: string) (co_artifact: string)

record GATC =
  gatc_group :: string
  gatc_artifact :: string
  gatc_packaging :: string
  gatc_classifier :: "string option"

record GATCV =
  gatcv_gatc :: GATC
  gatcv_version :: string

definition DEFAULT_PACKAGING :: string where
  "DEFAULT_PACKAGING = ''jar''"

datatype coord_error =
    CoordEmpty
  | TooFewComponents nat
  | TooManyComponents nat
  | EmptyComponent string

text \<open>The derived lexicographic order.\<close>

instantiation coords :: linorder
begin

definition less_eq_coords :: "coords \<Rightarrow> coords \<Rightarrow> bool" where
  "a \<le> b \<longleftrightarrow> co_group a < co_group b \<or> co_group a = co_group b \<and> co_artifact a \<le> co_artifact b"

definition less_coords :: "coords \<Rightarrow> coords \<Rightarrow> bool" where
  "a < b \<longleftrightarrow> co_group a < co_group b \<or> co_group a = co_group b \<and> co_artifact a < co_artifact b"

instance
proof
  fix x y z :: coords
  show "(x < y) = (x \<le> y \<and> \<not> y \<le> x)"
    by (auto simp: less_eq_coords_def less_coords_def)
  show "x \<le> x" by (simp add: less_eq_coords_def)
  show "x \<le> y \<Longrightarrow> y \<le> z \<Longrightarrow> x \<le> z" by (auto simp: less_eq_coords_def)
  show "x \<le> y \<Longrightarrow> y \<le> x \<Longrightarrow> x = y" by (cases x; cases y) (auto simp: less_eq_coords_def)
  show "x \<le> y \<or> y \<le> x" by (auto simp: less_eq_coords_def)
qed

end

section \<open>Operations\<close>

definition coords_new :: "string \<Rightarrow> string \<Rightarrow> (coords, coord_error) result" where
  "coords_new g a =
     (if g = [] then Inl (EmptyComponent ''group'')
      else if a = [] then Inl (EmptyComponent ''artifact'')
      else Inr (Coords g a))"

abbreviation colon_split :: "string \<Rightarrow> string list" where
  "colon_split \<equiv> split_on (\<lambda>c. c = CHR '':'')"

definition coords_from_str :: "string \<Rightarrow> (coords, coord_error) result" where
  "coords_from_str s =
     (if s = [] then Inl CoordEmpty
      else let parts = colon_split s in
        if length parts < 2 then Inl (TooFewComponents (length parts))
        else if length parts > 2 then Inl (TooManyComponents (length parts))
        else coords_new (parts ! 0) (parts ! 1))"

definition coords_display :: "coords \<Rightarrow> string" where
  "coords_display c = co_group c @ '':'' @ co_artifact c"

definition gatc_coords :: "GATC \<Rightarrow> coords" where
  "gatc_coords g = Coords (gatc_group g) (gatc_artifact g)"

definition gatc_is_default :: "GATC \<Rightarrow> bool" where
  "gatc_is_default g \<longleftrightarrow> gatc_packaging g = DEFAULT_PACKAGING \<and> gatc_classifier g = None"

definition check_nonempty :: "string \<Rightarrow> string \<Rightarrow> (unit, coord_error) result" where
  "check_nonempty s field = (if s = [] then Inl (EmptyComponent field) else Inr ())"

definition gatc_from_str :: "string \<Rightarrow> (GATC, coord_error) result" where
  "gatc_from_str s =
     (if s = [] then Inl CoordEmpty
      else case colon_split s of
        [g, a] \<Rightarrow>
          rbind (check_nonempty g ''group'') (\<lambda>_.
          rbind (check_nonempty a ''artifact'') (\<lambda>_.
          Inr \<lparr>gatc_group = g, gatc_artifact = a,
               gatc_packaging = DEFAULT_PACKAGING, gatc_classifier = None\<rparr>))
      | [g, a, p] \<Rightarrow>
          rbind (check_nonempty g ''group'') (\<lambda>_.
          rbind (check_nonempty a ''artifact'') (\<lambda>_.
          rbind (check_nonempty p ''packaging'') (\<lambda>_.
          Inr \<lparr>gatc_group = g, gatc_artifact = a,
               gatc_packaging = p, gatc_classifier = None\<rparr>)))
      | [g, a, p, c] \<Rightarrow>
          rbind (check_nonempty g ''group'') (\<lambda>_.
          rbind (check_nonempty a ''artifact'') (\<lambda>_.
          rbind (check_nonempty p ''packaging'') (\<lambda>_.
          rbind (check_nonempty c ''classifier'') (\<lambda>_.
          Inr \<lparr>gatc_group = g, gatc_artifact = a,
               gatc_packaging = p, gatc_classifier = Some c\<rparr>))))
      | parts \<Rightarrow> if length parts \<le> 1 then Inl (TooFewComponents (length parts))
                 else Inl (TooManyComponents (length parts)))"

definition gatc_display :: "GATC \<Rightarrow> string" where
  "gatc_display g =
     (case gatc_classifier g of
        None \<Rightarrow> if gatc_packaging g = DEFAULT_PACKAGING
                then gatc_group g @ '':'' @ gatc_artifact g
                else gatc_group g @ '':'' @ gatc_artifact g @ '':'' @ gatc_packaging g
      | Some c \<Rightarrow> gatc_group g @ '':'' @ gatc_artifact g @ '':'' @ gatc_packaging g @ '':'' @ c)"

definition gatcv_coords :: "GATCV \<Rightarrow> coords" where
  "gatcv_coords v = gatc_coords (gatcv_gatc v)"

definition gatcv_from_str :: "string \<Rightarrow> (GATCV, coord_error) result" where
  "gatcv_from_str s =
     (if s = [] then Inl CoordEmpty
      else case colon_split s of
        [g, a, v] \<Rightarrow>
          rbind (check_nonempty g ''group'') (\<lambda>_.
          rbind (check_nonempty a ''artifact'') (\<lambda>_.
          rbind (check_nonempty v ''version'') (\<lambda>_.
          Inr \<lparr>gatcv_gatc = \<lparr>gatc_group = g, gatc_artifact = a,
               gatc_packaging = DEFAULT_PACKAGING, gatc_classifier = None\<rparr>,
               gatcv_version = v\<rparr>)))
      | [g, a, p, v] \<Rightarrow>
          rbind (check_nonempty g ''group'') (\<lambda>_.
          rbind (check_nonempty a ''artifact'') (\<lambda>_.
          rbind (check_nonempty p ''packaging'') (\<lambda>_.
          rbind (check_nonempty v ''version'') (\<lambda>_.
          Inr \<lparr>gatcv_gatc = \<lparr>gatc_group = g, gatc_artifact = a,
               gatc_packaging = p, gatc_classifier = None\<rparr>,
               gatcv_version = v\<rparr>))))
      | [g, a, p, c, v] \<Rightarrow>
          rbind (check_nonempty g ''group'') (\<lambda>_.
          rbind (check_nonempty a ''artifact'') (\<lambda>_.
          rbind (check_nonempty p ''packaging'') (\<lambda>_.
          rbind (check_nonempty c ''classifier'') (\<lambda>_.
          rbind (check_nonempty v ''version'') (\<lambda>_.
          Inr \<lparr>gatcv_gatc = \<lparr>gatc_group = g, gatc_artifact = a,
               gatc_packaging = p, gatc_classifier = Some c\<rparr>,
               gatcv_version = v\<rparr>)))))
      | parts \<Rightarrow> if length parts \<le> 2 then Inl (TooFewComponents (length parts))
                 else Inl (TooManyComponents (length parts)))"

definition gatcv_display :: "GATCV \<Rightarrow> string" where
  "gatcv_display v =
     (let g = gatcv_gatc v in
      case gatc_classifier g of
        None \<Rightarrow> if gatc_packaging g = DEFAULT_PACKAGING
                then gatc_group g @ '':'' @ gatc_artifact g @ '':'' @ gatcv_version v
                else gatc_group g @ '':'' @ gatc_artifact g @ '':'' @ gatc_packaging g
                     @ '':'' @ gatcv_version v
      | Some c \<Rightarrow> gatc_group g @ '':'' @ gatc_artifact g @ '':'' @ gatc_packaging g
                  @ '':'' @ c @ '':'' @ gatcv_version v)"

section \<open>Well-formed coordinates\<close>

text \<open>A component that can be printed between colons: not empty, without a colon.\<close>

definition component_ok :: "string \<Rightarrow> bool" where
  "component_ok s \<longleftrightarrow> s \<noteq> [] \<and> CHR '':'' \<notin> set s"

definition coords_ok :: "coords \<Rightarrow> bool" where
  "coords_ok c \<longleftrightarrow> component_ok (co_group c) \<and> component_ok (co_artifact c)"

definition gatc_ok :: "GATC \<Rightarrow> bool" where
  "gatc_ok g \<longleftrightarrow> component_ok (gatc_group g) \<and> component_ok (gatc_artifact g) \<and>
     component_ok (gatc_packaging g) \<and> (\<forall>c. gatc_classifier g = Some c \<longrightarrow> component_ok c)"

definition gatcv_ok :: "GATCV \<Rightarrow> bool" where
  "gatcv_ok v \<longleftrightarrow> gatc_ok (gatcv_gatc v) \<and> component_ok (gatcv_version v)"

lemma colon_split_app [simp]:
  "CHR '':'' \<notin> set a \<Longrightarrow> colon_split (a @ CHR '':'' # b) = a # colon_split b"
  by (rule split_on_app) auto

lemma colon_split_last [simp]: "CHR '':'' \<notin> set a \<Longrightarrow> colon_split a = [a]"
  by (rule split_on_none) auto

lemma colon_split_pieces: "w \<in> set (colon_split s) \<Longrightarrow> CHR '':'' \<notin> set w"
  by (induction s arbitrary: w) (auto split: list.splits if_splits)

lemma colon_split_join: "s = join '':'' (colon_split s)"
proof (induction s)
  case (Cons c s)
  obtain w ws where s: "colon_split s = w # ws" by (cases "colon_split s") auto
  then show ?case using Cons by (cases ws) auto
qed simp

lemmas component_simps = component_ok_def check_nonempty_def DEFAULT_PACKAGING_def

lemma coords_new_ok: "coords_new g a = Inr c \<longleftrightarrow> g \<noteq> [] \<and> a \<noteq> [] \<and> c = Coords g a"
  by (auto simp: coords_new_def)

section \<open>Round trips\<close>

lemma gatcv_from_str_ok:
  assumes "gatcv_from_str s = Inr v"
  shows "gatcv_ok v"
proof -
  have pieces: "\<forall>w \<in> set (colon_split s). CHR '':'' \<notin> set w"
    using colon_split_pieces by blast
  show ?thesis
    using assms pieces unfolding gatcv_from_str_def
    by (simp split: if_splits list.splits)
       (auto simp: gatcv_ok_def gatc_ok_def component_simps split: if_splits)
qed

lemma gatcv_display_from_str: "gatcv_ok v \<Longrightarrow> gatcv_from_str (gatcv_display v) = Inr v"
  by (cases v; cases "gatcv_gatc v"; cases "gatc_classifier (gatcv_gatc v)")
     (auto simp: gatcv_ok_def gatc_ok_def component_simps gatcv_display_def
                 gatcv_from_str_def Let_def)

text \<open>C10. Coordinates round-trip: whatever string \<open>GATCV::from_str\<close> accepts, the parsed
  coordinate is well formed (no component is empty or holds a colon), and printing it in
  Maven's terse form, in whichever of the three shapes (\<open>g:a:v\<close>, \<open>g:a:packaging:v\<close>,
  \<open>g:a:packaging:classifier:v\<close>) applies, and parsing it again yields the same coordinate.\<close>

theorem gatcv_roundtrip:
  "gatcv_from_str s = Inr v \<Longrightarrow> gatcv_ok v \<and> gatcv_from_str (gatcv_display v) = Inr v"
  using gatcv_from_str_ok gatcv_display_from_str by blast

theorem gatcv_roundtrip_witness:
  "gatcv_from_str (gatcv_display
     \<lparr>gatcv_gatc = \<lparr>gatc_group = ''com.google.guava'', gatc_artifact = ''guava'',
        gatc_packaging = ''jar'', gatc_classifier = Some ''sources''\<rparr>,
      gatcv_version = ''33.0.0-jre''\<rparr>) =
   Inr \<lparr>gatcv_gatc = \<lparr>gatc_group = ''com.google.guava'', gatc_artifact = ''guava'',
        gatc_packaging = ''jar'', gatc_classifier = Some ''sources''\<rparr>,
      gatcv_version = ''33.0.0-jre''\<rparr>"
proof -
  have "gatcv_from_str ''com.google.guava:guava:jar:sources:33.0.0-jre'' =
     Inr \<lparr>gatcv_gatc = \<lparr>gatc_group = ''com.google.guava'', gatc_artifact = ''guava'',
        gatc_packaging = ''jar'', gatc_classifier = Some ''sources''\<rparr>,
      gatcv_version = ''33.0.0-jre''\<rparr>"
    by (simp add: gatcv_from_str_def check_nonempty_def)
  from gatcv_roundtrip [OF this] show ?thesis by blast
qed

lemma coords_display_parse: "coords_ok c \<Longrightarrow> coords_from_str (coords_display c) = Inr c"
  by (cases c) (auto simp: coords_ok_def component_simps coords_display_def
                 coords_from_str_def coords_new_def Let_def)

lemma gatc_display_parse: "gatc_ok g \<Longrightarrow> gatc_from_str (gatc_display g) = Inr g"
  by (cases g; cases "gatc_classifier g")
     (auto simp: gatc_ok_def component_simps gatc_display_def gatc_from_str_def)

end
