(* ===== verification/Journal.thy ===== *)
theory Journal
  imports Cas Coords "HOL-Library.Option_ord" "HOL-Library.Product_Lexorder"
begin

text \<open>
  The append-only journal of the cache index (\<open>crates/barista-cache/src/journal.rs\<close>) and the
  keys and entries it records (\<open>index.rs\<close>).

  The buffers of \<open>BufWriter\<close> and \<open>BufReader\<close> are part of the model: a failed flush keeps the
  unwritten bytes for the next one, and a read delivers at most what the buffer holds. The
  bincode encoding and CRC-32 (crates \<open>bincode\<close> and \<open>crc32fast\<close>) are the fields of \<open>codec\<close>.
\<close>

section \<open>Keys and entries\<close>

datatype index_key = IndexKey
  (ik_coords: coords) (ik_version: string) (ik_type: string) (ik_classifier: "string option")

text \<open>The derived lexicographic order of the fields.\<close>

instantiation index_key :: linorder
begin

definition key_fields :: "index_key \<Rightarrow> coords \<times> string \<times> string \<times> string option" where
  "key_fields k = (ik_coords k, ik_version k, ik_type k, ik_classifier k)"

definition less_eq_index_key :: "index_key \<Rightarrow> index_key \<Rightarrow> bool" where
  "a \<le> b \<longleftrightarrow> key_fields a \<le> key_fields b"

definition less_index_key :: "index_key \<Rightarrow> index_key \<Rightarrow> bool" where
  "a < b \<longleftrightarrow> key_fields a < key_fields b"

instance
proof
  fix x y z :: index_key
  show "(x < y) = (x \<le> y \<and> \<not> y \<le> x)"
    by (auto simp: less_eq_index_key_def less_index_key_def)
  show "x \<le> x" by (simp add: less_eq_index_key_def)
  show "x \<le> y \<Longrightarrow> y \<le> z \<Longrightarrow> x \<le> z" by (simp add: less_eq_index_key_def)
  show "x \<le> y \<Longrightarrow> y \<le> x \<Longrightarrow> x = y"
    by (cases x; cases y) (auto simp: less_eq_index_key_def key_fields_def dest: antisym)
  show "x \<le> y \<or> y \<le> x" by (auto simp: less_eq_index_key_def)
qed

end

datatype origin_tier = Upstream | Roastery

record origin =
  or_repository_url :: string
  or_etag :: "string option"
  or_last_modified :: "string option"
  or_upstream_last_updated :: "string option"
  or_tier :: origin_tier

record index_entry =
  ie_hash :: content_hash
  ie_size_bytes :: nat
  ie_sha1_hex :: "string option"
  ie_origin :: origin
  ie_atime_unix :: nat
  ie_created_unix :: nat

datatype journal_entry =
    JPut index_key index_entry
  | JRemove index_key
  | JTouch index_key nat

datatype journal_error =
    JIo string io_error
  | BadMagic string bytes bytes
  | UnsupportedVersion string "32 word" "32 word"
  | Truncated string
  | BadChecksum nat
  | Bincode nat string
  | LockTimeout string nat

record codec =
  cd_encode :: "journal_entry \<Rightarrow> (bytes, string) result"
  cd_decode :: "bytes \<Rightarrow> (journal_entry, string) result"
  cd_encode_snapshot :: "(index_key \<times> index_entry) list \<Rightarrow> (bytes, string) result"
  cd_decode_snapshot :: "bytes \<Rightarrow> ((index_key \<times> index_entry) list, string) result"
  cd_crc32 :: "bytes \<Rightarrow> 32 word"

section \<open>Little-endian words\<close>

definition to_le_bytes :: "32 word \<Rightarrow> bytes" where
  "to_le_bytes x = map (\<lambda>i. ucast (drop_bit (8 * i) x)) [0..<4]"

fun from_le_bytes :: "bytes \<Rightarrow> 32 word" where
  "from_le_bytes [] = 0"
| "from_le_bytes (b # bs) = or (ucast b) (push_bit 8 (from_le_bytes bs))"

lemma to_le_bytes_eq:
  "to_le_bytes x = [ucast x, ucast (drop_bit 8 x), ucast (drop_bit 16 x), ucast (drop_bit 24 x)]"
  by (simp add: to_le_bytes_def upt_rec)

lemma length_to_le_bytes [simp]: "length (to_le_bytes x) = 4"
  by (simp add: to_le_bytes_def)

lemma from_to_le_bytes [simp]: "from_le_bytes (to_le_bytes x) = x"
proof (rule bit_word_eqI)
  fix n
  assume "n < LENGTH(32)"
  then show "bit (from_le_bytes (to_le_bytes x)) n = bit x n"
    unfolding to_le_bytes_eq
    by (cases "24 \<le> n"; cases "16 \<le> n") (auto simp: bit_simps less_diff_conv2 not_less)
qed

section \<open>The cross-process lock\<close>

definition LOCK_ACQUIRE_TIMEOUT :: nat where
  "LOCK_ACQUIRE_TIMEOUT = 30000"

text \<open>The waiting time after the \<open>i\<close>-th failed attempt, in milliseconds.\<close>

fun backoff :: "nat \<Rightarrow> nat" where
  "backoff 0 = 5"
| "backoff (Suc i) = min (backoff i * 2) 100"

lemma backoff_pos: "0 < backoff i"
  by (induction i) auto

definition try_acquire_once :: "string \<Rightarrow> ('a world_scheme, bool, journal_error) io" where
  "try_acquire_once lock_path =
     io_bind (io_map_err (JIo lock_path) (sys_open_create lock_path)) (\<lambda>_.
     io_bind (io_try sys_nop) (\<lambda>r.
     case r of
       Inr _ \<Rightarrow> io_return True
     | Inl WouldBlock \<Rightarrow> io_return False
     | Inl e \<Rightarrow> io_fail (JIo lock_path e)))"

lemma try_acquire_once_clock: "wd_clock (snd (try_acquire_once p w)) = wd_clock w"
proof -
  have "wp (try_acquire_once p) (\<lambda>_ w'. wd_clock w' = wd_clock w) (\<lambda>_ w'. wd_clock w' = wd_clock w) w"
    by (auto simp: try_acquire_once_def sys_open_create_def sys_nop_def sys_pure_def wp_simps
             split: option.split io_error.split)
  then show ?thesis by (auto simp: wp_def split: prod.splits sum.splits)
qed

function acquire_loop ::
  "string \<Rightarrow> nat \<Rightarrow> nat \<Rightarrow> nat \<Rightarrow> 'a world_scheme \<Rightarrow> (unit, journal_error) result \<times> 'a world_scheme" where
  "acquire_loop lock_path timeout deadline i w =
     (case try_acquire_once lock_path w of
        (Inl e, w') \<Rightarrow> (Inl e, w')
      | (Inr got, w') \<Rightarrow>
          if got then (Inr (), w')
          else if deadline \<le> wd_clock w' then (Inl (LockTimeout lock_path (timeout div 1000)), w')
          else acquire_loop lock_path timeout deadline (Suc i)
                 (w'\<lparr>wd_clock := wd_clock w' + backoff i + wd_lag w' (wd_calls w')\<rparr>))"
  by pat_completeness auto

termination
proof (relation "measure (\<lambda>(_, _, deadline, _, w). deadline - wd_clock w)", goal_cases)
  case (2 p t deadline i w r w')
  then have "wd_clock w' = wd_clock w" using try_acquire_once_clock [of p w] by (metis snd_conv)
  then show ?case using 2 backoff_pos [of i] by auto
qed simp

declare acquire_loop.simps [simp del]

definition journal_lock :: "string \<Rightarrow> ('a world_scheme, unit, journal_error) io" where
  "journal_lock lock_path w =
     acquire_loop lock_path LOCK_ACQUIRE_TIMEOUT (wd_clock w + LOCK_ACQUIRE_TIMEOUT) 0 w"

section \<open>Buffered writing\<close>

record journal_world = world +
  jw_buf :: bytes

definition BUF_SIZE :: nat where
  "BUF_SIZE = 8192"

text \<open>\<open>BufWriter::flush\<close>: on a failed write the bytes that went out leave the buffer.\<close>

definition bw_flush :: "string \<Rightarrow> ('a journal_world_scheme, unit, io_error) io" where
  "bw_flush p =
     io_bind (io_get jw_buf) (\<lambda>buf.
     if buf = [] then io_return ()
     else io_bind (io_try (sys_write_part p buf)) (\<lambda>r.
       case r of
         Inr _ \<Rightarrow> io_modify (\<lambda>w. w\<lparr>jw_buf := []\<rparr>)
       | Inl (e, k) \<Rightarrow> io_bind (io_modify (\<lambda>w. w\<lparr>jw_buf := drop k buf\<rparr>)) (\<lambda>_. io_fail e)))"

text \<open>\<open>BufWriter::write_all\<close>: data that fits stays in memory, data as large as the buffer goes
  straight to the file.\<close>

definition bw_write_all :: "string \<Rightarrow> bytes \<Rightarrow> ('a journal_world_scheme, unit, io_error) io" where
  "bw_write_all p d =
     io_bind (io_get (\<lambda>w. BUF_SIZE - length (jw_buf w))) (\<lambda>spare.
     if length d < spare then io_modify (\<lambda>w. w\<lparr>jw_buf := jw_buf w @ d\<rparr>)
     else io_bind (if spare < length d then bw_flush p else io_return ()) (\<lambda>_.
          if BUF_SIZE \<le> length d then sys_write p d
          else io_modify (\<lambda>w. w\<lparr>jw_buf := jw_buf w @ d\<rparr>)))"

section \<open>The file header\<close>

definition FILE_MAGIC :: bytes where
  "FILE_MAGIC = [0x42, 0x43, 0x41, 0x53]"

definition JOURNAL_VERSION :: "32 word" where
  "JOURNAL_VERSION = 1"

definition SNAPSHOT_VERSION :: "32 word" where
  "SNAPSHOT_VERSION = 1"

definition HEADER_LEN :: nat where
  "HEADER_LEN = 10"

definition write_header :: "string \<Rightarrow> 32 word \<Rightarrow> ('a world_scheme, unit, io_error) io" where
  "write_header p version =
     io_bind (sys_write p FILE_MAGIC) (\<lambda>_.
     io_bind (sys_write p (to_le_bytes version)) (\<lambda>_.
     sys_write p [0, 0]))"

definition validate_header ::
  "string \<Rightarrow> 32 word \<Rightarrow> ('a world_scheme, unit, journal_error) io" where
  "validate_header p expected_version =
     io_bind (io_map_err (JIo p) sys_nop) (\<lambda>_.
     io_bind (io_map_err (JIo p) (sys_read_file p)) (\<lambda>d.
     if length d < HEADER_LEN then io_fail (JIo p UnexpectedEof)
     else let magic = take 4 d; version = from_le_bytes (take 4 (drop 4 d)) in
       if magic \<noteq> FILE_MAGIC then io_fail (BadMagic p FILE_MAGIC magic)
       else if version \<noteq> expected_version then io_fail (UnsupportedVersion p version expected_version)
       else io_return ()))"

section \<open>Writing\<close>

definition path_parent :: "string \<Rightarrow> string" where
  "path_parent p = rev (drop 1 (dropWhile (\<lambda>c. c \<noteq> CHR ''/'') (rev p)))"

definition lock_path_for :: "string \<Rightarrow> string" where
  "lock_path_for p = (let dir = path_parent p in if dir = [] then ''.lock'' else dir @ ''/.lock'')"

definition journal_open :: "string \<Rightarrow> ('a journal_world_scheme, unit, journal_error) io" where
  "journal_open p =
     io_bind (io_map_err (JIo p) (sys_open_create p)) (\<lambda>_.
     io_bind (journal_lock (lock_path_for p)) (\<lambda>_.
     io_bind (io_map_err (JIo p) (sys_len p)) (\<lambda>len.
     io_bind (if len = 0
              then io_bind (io_map_err (JIo p) (write_header p JOURNAL_VERSION)) (\<lambda>_.
                   io_map_err (JIo p) sys_nop)
              else validate_header p JOURNAL_VERSION) (\<lambda>_.
     io_bind (io_map_err (JIo p) sys_nop) (\<lambda>_.
     io_modify (\<lambda>w. w\<lparr>jw_buf := []\<rparr>))))))"

definition encode_payload :: "codec \<Rightarrow> journal_entry \<Rightarrow> nat \<Rightarrow> (bytes, journal_error) result" where
  "encode_payload c e offset = map_err (Bincode offset) (cd_encode c e)"

definition decode_payload :: "codec \<Rightarrow> bytes \<Rightarrow> nat \<Rightarrow> (journal_entry, journal_error) result" where
  "decode_payload c d offset = map_err (Bincode offset) (cd_decode c d)"

definition frame :: "codec \<Rightarrow> bytes \<Rightarrow> bytes" where
  "frame c payload =
     to_le_bytes (word_of_nat (length payload)) @ payload @ to_le_bytes (cd_crc32 c payload)"

definition journal_append ::
  "codec \<Rightarrow> string \<Rightarrow> journal_entry \<Rightarrow> ('a journal_world_scheme, nat, journal_error) io" where
  "journal_append c p e =
     io_bind (io_lift (encode_payload c e 0)) (\<lambda>payload.
     if 2 ^ 32 \<le> length payload then io_fail (Bincode 0 ''payload exceeds u32::MAX bytes'')
     else io_bind (journal_lock (lock_path_for p)) (\<lambda>_.
          io_bind (io_map_err (JIo p) (bw_flush p)) (\<lambda>_.
          io_bind (io_map_err (JIo p) (sys_len p)) (\<lambda>offset.
          io_bind (io_map_err (JIo p) (bw_write_all p (frame c payload))) (\<lambda>_.
          io_bind (io_map_err (JIo p) (bw_flush p)) (\<lambda>_.
          io_bind (io_map_err (JIo p) sys_nop) (\<lambda>_.
          io_return offset)))))))"

definition journal_truncate_to :: "string \<Rightarrow> nat \<Rightarrow> ('a journal_world_scheme, unit, journal_error) io" where
  "journal_truncate_to p offset =
     (let target = max offset HEADER_LEN in
      io_bind (journal_lock (lock_path_for p)) (\<lambda>_.
      io_bind (io_map_err (JIo p) (bw_flush p)) (\<lambda>_.
      io_bind (io_map_err (JIo p) (sys_set_len p target)) (\<lambda>_.
      io_bind (io_map_err (JIo p) sys_nop) (\<lambda>_.
      io_map_err (JIo p) sys_nop)))))"

definition journal_truncate :: "string \<Rightarrow> ('a journal_world_scheme, unit, journal_error) io" where
  "journal_truncate p =
     io_bind (journal_lock (lock_path_for p)) (\<lambda>_.
     io_bind (io_map_err (JIo p) (bw_flush p)) (\<lambda>_.
     io_bind (io_map_err (JIo p) (sys_set_len p 0)) (\<lambda>_.
     io_bind (io_map_err (JIo p) sys_nop) (\<lambda>_.
     io_bind (io_map_err (JIo p) (write_header p JOURNAL_VERSION)) (\<lambda>_.
     io_map_err (JIo p) sys_nop)))))"

section \<open>Buffered reading\<close>

text \<open>A reader holds the buffered bytes and the rest of the file. A read of a regular file
  returns as many of the requested bytes as the file still has.\<close>

record reader =
  rd_buf :: bytes
  rd_rest :: bytes

definition br_read :: "nat \<Rightarrow> reader \<Rightarrow> ('a world_scheme, bytes \<times> reader, io_error) io" where
  "br_read n rd =
     (if rd_buf rd = [] \<and> BUF_SIZE \<le> n
      then io_bind sys_nop (\<lambda>_. io_return (take n (rd_rest rd), rd\<lparr>rd_rest := drop n (rd_rest rd)\<rparr>))
      else io_bind
        (if rd_buf rd = []
         then io_bind sys_nop (\<lambda>_. io_return
                \<lparr>rd_buf = take BUF_SIZE (rd_rest rd), rd_rest = drop BUF_SIZE (rd_rest rd)\<rparr>)
         else io_return rd)
        (\<lambda>rd. io_return (take n (rd_buf rd), rd\<lparr>rd_buf := drop n (rd_buf rd)\<rparr>)))"

function read_exact ::
  "nat \<Rightarrow> reader \<Rightarrow> 'a world_scheme \<Rightarrow> (bytes \<times> reader, io_error) result \<times> 'a world_scheme" where
  "read_exact n rd w =
     (if n = 0 then (Inr ([], rd), w)
      else case br_read n rd w of
        (Inl e, w1) \<Rightarrow> (Inl e, w1)
      | (Inr (bs, rd1), w1) \<Rightarrow>
          if bs = [] then (Inl UnexpectedEof, w1)
          else (case read_exact (n - length bs) rd1 w1 of
                  (Inl e, w2) \<Rightarrow> (Inl e, w2)
                | (Inr (cs, rd2), w2) \<Rightarrow> (Inr (bs @ cs, rd2), w2)))"
  by pat_completeness auto

termination
  by (relation "measure (\<lambda>(n, _, _). n)") auto

declare read_exact.simps [simp del]

record journal_iter =
  ji_reader :: reader
  ji_position :: nat
  ji_done :: bool

definition eof_error :: "string \<Rightarrow> io_error \<Rightarrow> journal_error" where
  "eof_error p e = (if e = UnexpectedEof then Truncated p else JIo p e)"

text \<open>The payload and the checksum of a record whose length field said \<open>n\<close>.\<close>

definition read_body ::
  "codec \<Rightarrow> string \<Rightarrow> journal_iter \<Rightarrow> nat \<Rightarrow> reader \<Rightarrow> 'a world_scheme \<Rightarrow>
   ((journal_entry, journal_error) result option \<times> journal_iter) \<times> 'a world_scheme" where
  "read_body c p it n rd1 w1 =
     (let start = ji_position it in
      case read_exact n rd1 w1 of
        (Inl e, w2) \<Rightarrow> ((Some (Inl (eof_error p e)), it\<lparr>ji_done := True\<rparr>), w2)
      | (Inr (payload, rd2), w2) \<Rightarrow>
          (case read_exact 4 rd2 w2 of
             (Inl e, w3) \<Rightarrow> ((Some (Inl (eof_error p e)), it\<lparr>ji_done := True\<rparr>), w3)
           | (Inr (crcb, rd3), w3) \<Rightarrow>
               if from_le_bytes crcb \<noteq> cd_crc32 c payload
               then ((Some (Inl (BadChecksum start)), it\<lparr>ji_done := True\<rparr>), w3)
               else ((Some (decode_payload c payload (start + 4)),
                      it\<lparr>ji_reader := rd3, ji_position := start + 4 + n + 4\<rparr>), w3)))"

definition journal_next ::
  "codec \<Rightarrow> string \<Rightarrow> journal_iter \<Rightarrow> 'a world_scheme \<Rightarrow>
   ((journal_entry, journal_error) result option \<times> journal_iter) \<times> 'a world_scheme" where
  "journal_next c p it w =
     (if ji_done it then ((None, it), w)
      else case br_read 4 (ji_reader it) w of
        (Inl e, w1) \<Rightarrow> ((Some (Inl (JIo p e)), it\<lparr>ji_done := True\<rparr>), w1)
      | (Inr (lenb, rd1), w1) \<Rightarrow>
          if lenb = [] then ((None, it\<lparr>ji_done := True\<rparr>), w1)
          else if length lenb < 4 then ((Some (Inl (Truncated p)), it\<lparr>ji_done := True\<rparr>), w1)
          else read_body c p it (unat (from_le_bytes lenb)) rd1 w1)"

definition iter_entries_with_positions ::
  "string \<Rightarrow> ('a world_scheme, journal_iter, journal_error) io" where
  "iter_entries_with_positions p =
     io_bind (io_map_err (JIo p) (sys_read_file p)) (\<lambda>d.
     io_bind (validate_header p JOURNAL_VERSION) (\<lambda>_.
     io_return \<lparr>ji_reader = \<lparr>rd_buf = [], rd_rest = drop HEADER_LEN d\<rparr>,
                ji_position = HEADER_LEN, ji_done = False\<rparr>))"

definition last_good_offset :: "journal_iter \<Rightarrow> nat" where
  "last_good_offset it = ji_position it"

section \<open>Readers conserve the file\<close>

definition rd_stream :: "reader \<Rightarrow> bytes" where
  "rd_stream rd = rd_buf rd @ rd_rest rd"

lemma take_drop_take:
  assumes "n \<le> m"
  shows "take n xs @ drop n (take m xs) @ drop m xs = xs"
proof -
  have "take n xs @ drop n (take m xs) = take m xs"
    using append_take_drop_id [of n "take m xs"] assms by (simp add: min_absorb1)
  then show ?thesis by (metis append_assoc append_take_drop_id)
qed

lemma br_read_stream:
  assumes "br_read n rd w = (Inr (bs, rd'), w')"
  shows "bs @ rd_stream rd' = rd_stream rd \<and> length bs \<le> n"
proof -
  have "wp (br_read n rd) (\<lambda>(bs, rd') _. bs @ rd_stream rd' = rd_stream rd \<and> length bs \<le> n) (\<lambda>_ _. True) w"
    by (auto simp: br_read_def sys_nop_def sys_pure_def wp_simps rd_stream_def take_drop_take
             split: option.split)
  then show ?thesis using assms by (auto simp: wp_def)
qed

lemma read_exact_stream:
  "read_exact n rd w = (Inr (bs, rd'), w') \<Longrightarrow> bs @ rd_stream rd' = rd_stream rd \<and> length bs = n"
proof (induction n rd w arbitrary: bs rd' w' rule: read_exact.induct)
  case (1 n rd w)
  show ?case
  proof (cases "n = 0")
    case False
    with "1.prems" obtain b1 rd1 w1 b2 where r:
      "br_read n rd w = (Inr (b1, rd1), w1)" "b1 \<noteq> []"
      "read_exact (n - length b1) rd1 w1 = (Inr (b2, rd'), w')" "bs = b1 @ b2"
      by (auto simp: read_exact.simps [of n] split: prod.splits sum.splits if_splits)
    have "b2 @ rd_stream rd' = rd_stream rd1 \<and> length b2 = n - length b1"
      using "1.IH" [OF False r(1) [symmetric] refl refl r(2) r(3)] .
    then show ?thesis using br_read_stream [OF r(1)] r(4) by auto
  qed (use 1 in \<open>simp add: read_exact.simps\<close>)
qed

lemma journal_next_decreases:
  assumes "journal_next c p it w = ((Some (Inr e), it'), w')"
  shows "length (rd_stream (ji_reader it')) < length (rd_stream (ji_reader it))"
proof -
  from assms obtain b rd1 w1 n b2 rd2 w2 b3 rd3 where r:
    "br_read 4 (ji_reader it) w = (Inr (b, rd1), w1)" "b \<noteq> []"
    "read_exact n rd1 w1 = (Inr (b2, rd2), w2)" "read_exact 4 rd2 w2 = (Inr (b3, rd3), w')"
    "ji_reader it' = rd3"
    by (auto simp: journal_next_def read_body_def Let_def split: prod.splits sum.splits if_splits)
  show ?thesis
    using br_read_stream [OF r(1)] read_exact_stream [OF r(3)] read_exact_stream [OF r(4)] r(2,5)
    by (auto dest!: arg_cong [of "_ @ _" _ length])
qed

section \<open>Reading without faults\<close>

definition br_take :: "nat \<Rightarrow> reader \<Rightarrow> bytes \<times> reader" where
  "br_take n rd =
     (if rd_buf rd = [] \<and> BUF_SIZE \<le> n
      then (take n (rd_rest rd), rd\<lparr>rd_rest := drop n (rd_rest rd)\<rparr>)
      else let rd = (if rd_buf rd = []
                     then \<lparr>rd_buf = take BUF_SIZE (rd_rest rd), rd_rest = drop BUF_SIZE (rd_rest rd)\<rparr>
                     else rd)
           in (take n (rd_buf rd), rd\<lparr>rd_buf := drop n (rd_buf rd)\<rparr>))"

lemma sys_nop_quiet: "quiet w \<Longrightarrow> sys_nop w = (Inr (), w\<lparr>wd_calls := Suc (wd_calls w)\<rparr>)"
  by (simp add: sys_nop_def sys_pure_def syscall_def quiet_def)

lemma br_read_quiet: "quiet w \<Longrightarrow> \<exists>m. br_read n rd w = (Inr (br_take n rd), w\<lparr>wd_calls := m\<rparr>)"
proof (cases "rd_buf rd = []")
  case True
  assume "quiet w"
  then show ?thesis using True
    by (auto simp: br_read_def br_take_def io_bind_def io_return_def sys_nop_quiet Let_def)
next
  case False
  then have "br_read n rd w = (Inr (br_take n rd), w\<lparr>wd_calls := wd_calls w\<rparr>)"
    by (simp add: br_read_def br_take_def io_bind_def io_return_def)
  then show ?thesis by blast
qed

lemma br_take_stream:
  "fst (br_take n rd) @ rd_stream (snd (br_take n rd)) = rd_stream rd"
  "length (fst (br_take n rd)) \<le> n"
  by (auto simp: br_take_def rd_stream_def Let_def take_drop_take)

lemma br_take_progress: "0 < n \<Longrightarrow> rd_stream rd \<noteq> [] \<Longrightarrow> fst (br_take n rd) \<noteq> []"
  by (auto simp: br_take_def rd_stream_def Let_def BUF_SIZE_def)

text \<open>All that is left of the file is, or will be at the next read, in the buffer.\<close>

definition buffered :: "reader \<Rightarrow> bool" where
  "buffered rd \<longleftrightarrow> rd_rest rd = [] \<or> rd_buf rd = [] \<and> length (rd_rest rd) \<le> BUF_SIZE"

lemma br_take_buffered:
  assumes "buffered rd"
  shows "fst (br_take n rd) = take n (rd_stream rd) \<and> rd_rest (snd (br_take n rd)) = []"
  using assms by (auto simp: br_take_def buffered_def rd_stream_def Let_def)

lemma read_exact_quiet:
  assumes "quiet w"
  shows "if n \<le> length (rd_stream rd)
     then \<exists>rd' m. read_exact n rd w = (Inr (take n (rd_stream rd), rd'), w\<lparr>wd_calls := m\<rparr>) \<and>
            rd_stream rd' = drop n (rd_stream rd) \<and> (rd_rest rd = [] \<longrightarrow> rd_rest rd' = [])
     else \<exists>m. read_exact n rd w = (Inl UnexpectedEof, w\<lparr>wd_calls := m\<rparr>)"
  using assms
proof (induction n arbitrary: rd w rule: less_induct)
  case (less n)
  show ?case
  proof (cases "n = 0")
    case False
    obtain m where m: "br_read n rd w = (Inr (br_take n rd), w\<lparr>wd_calls := m\<rparr>)"
      using br_read_quiet [OF less.prems] by blast
    obtain bs rd1 where b: "br_take n rd = (bs, rd1)" by fastforce
    have st: "bs @ rd_stream rd1 = rd_stream rd" "length bs \<le> n"
      using br_take_stream [of n rd] b by simp_all
    have rest: "rd_rest rd = [] \<longrightarrow> rd_rest rd1 = []"
      using br_take_buffered [of rd n] b by (auto simp: buffered_def)
    show ?thesis
    proof (cases "bs = []")
      case True
      then have "rd_stream rd = []" using br_take_progress [of n rd] b False by fastforce
      then show ?thesis using False m b True by (auto simp: read_exact.simps [of n])
    next
      case bs: False
      have "n - length bs < n" using bs False by (cases bs) auto
      note ih = less.IH [OF this, of "w\<lparr>wd_calls := m\<rparr>" rd1]
      have s: "rd_stream rd = bs @ rd_stream rd1" using st by simp
      show ?thesis
      proof (cases "n \<le> length (rd_stream rd)")
        case True
        then have "n - length bs \<le> length (rd_stream rd1)" using s by simp
        then obtain rd' m' where
          "read_exact (n - length bs) rd1 (w\<lparr>wd_calls := m\<rparr>) =
             (Inr (take (n - length bs) (rd_stream rd1), rd'), w\<lparr>wd_calls := m'\<rparr>)"
          "rd_stream rd' = drop (n - length bs) (rd_stream rd1)"
          "rd_rest rd1 = [] \<longrightarrow> rd_rest rd' = []"
          using ih less.prems by auto
        then show ?thesis
          using False m b bs True s st(2) rest by (auto simp: read_exact.simps [of n])
      next
        case short: False
        then have "\<not> n - length bs \<le> length (rd_stream rd1)" using s st(2) by simp
        then obtain m' where
          "read_exact (n - length bs) rd1 (w\<lparr>wd_calls := m\<rparr>) = (Inl UnexpectedEof, w\<lparr>wd_calls := m'\<rparr>)"
          using ih less.prems by auto
        then show ?thesis using False m b bs short by (auto simp: read_exact.simps [of n])
      qed
    qed
  qed (auto simp: read_exact.simps intro!: exI [of _ "wd_calls w"])
qed

section \<open>Reading records\<close>

lemma length_frame [simp]: "length (frame c d) = length d + 8"
  by (simp add: frame_def)

lemma frame_length_word: "length d < 2 ^ 32 \<Longrightarrow> unat (word_of_nat (length d) :: 32 word) = length d"
  by (simp add: unat_of_nat)

lemma journal_next_start:
  assumes "quiet w" "\<not> ji_done it" "br_take 4 (ji_reader it) = (bs, rd1)" "length bs = 4"
  obtains m where "journal_next c p it w =
    read_body c p it (unat (from_le_bytes bs)) rd1 (w\<lparr>wd_calls := m\<rparr>)"
proof -
  obtain m where m: "br_read 4 (ji_reader it) w = (Inr (bs, rd1), w\<lparr>wd_calls := m\<rparr>)"
    using br_read_quiet [OF assms(1), of 4 "ji_reader it"] assms(3) by auto
  have "bs \<noteq> []" using assms(4) by auto
  then show ?thesis using that [of m] m assms by (simp add: journal_next_def)
qed

lemma journal_next_short:
  assumes "quiet w" "\<not> ji_done it" "length (fst (br_take 4 (ji_reader it))) < 4"
  shows "\<exists>m. journal_next c p it w =
    ((if fst (br_take 4 (ji_reader it)) = [] then None else Some (Inl (Truncated p)),
      it\<lparr>ji_done := True\<rparr>), w\<lparr>wd_calls := m\<rparr>)"
proof -
  obtain m where m: "br_read 4 (ji_reader it) w = (Inr (br_take 4 (ji_reader it)), w\<lparr>wd_calls := m\<rparr>)"
    using br_read_quiet [OF assms(1)] by blast
  show ?thesis
    using m assms by (cases "br_take 4 (ji_reader it)") (auto simp: journal_next_def)
qed

lemma read_body_frame:
  assumes q: "quiet w" and s: "rd_stream rd1 = pl @ to_le_bytes (cd_crc32 c pl) @ rs"
  shows "\<exists>rd' m. read_body c p it (length pl) rd1 w =
      ((Some (decode_payload c pl (ji_position it + 4)),
        it\<lparr>ji_reader := rd', ji_position := ji_position it + length (frame c pl)\<rparr>), w\<lparr>wd_calls := m\<rparr>) \<and>
    rd_stream rd' = rs \<and> (rd_rest rd1 = [] \<longrightarrow> rd_rest rd' = [])"
proof -
  obtain rd2 m2 where r2: "read_exact (length pl) rd1 w = (Inr (pl, rd2), w\<lparr>wd_calls := m2\<rparr>)"
    "rd_stream rd2 = to_le_bytes (cd_crc32 c pl) @ rs" "rd_rest rd1 = [] \<longrightarrow> rd_rest rd2 = []"
    using read_exact_quiet [OF q, of "length pl" rd1] s by auto
  obtain rd3 m3 where r3: "read_exact 4 rd2 (w\<lparr>wd_calls := m2\<rparr>) =
      (Inr (to_le_bytes (cd_crc32 c pl), rd3), w\<lparr>wd_calls := m3\<rparr>)"
    "rd_stream rd3 = rs" "rd_rest rd2 = [] \<longrightarrow> rd_rest rd3 = []"
    using read_exact_quiet [of "w\<lparr>wd_calls := m2\<rparr>" 4 rd2] q r2(2) by auto
  show ?thesis
    using r2 r3 by (auto simp: read_body_def Let_def add.commute add.left_commute)
qed

lemma read_body_torn:
  assumes q: "quiet w" and s: "length (rd_stream rd1) < n + 4"
  shows "\<exists>m. read_body c p it n rd1 w =
      ((Some (Inl (Truncated p)), it\<lparr>ji_done := True\<rparr>), w\<lparr>wd_calls := m\<rparr>)"
proof (cases "n \<le> length (rd_stream rd1)")
  case True
  then obtain rd2 m2 where r2: "read_exact n rd1 w = (Inr (take n (rd_stream rd1), rd2), w\<lparr>wd_calls := m2\<rparr>)"
    "rd_stream rd2 = drop n (rd_stream rd1)"
    using read_exact_quiet [OF q, of n rd1] by auto
  then obtain m3 where "read_exact 4 rd2 (w\<lparr>wd_calls := m2\<rparr>) = (Inl UnexpectedEof, w\<lparr>wd_calls := m3\<rparr>)"
    using read_exact_quiet [of "w\<lparr>wd_calls := m2\<rparr>" 4 rd2] q s by (auto split: if_splits)
  then show ?thesis using r2 by (auto simp: read_body_def Let_def eof_error_def)
next
  case False
  then obtain m where "read_exact n rd1 w = (Inl UnexpectedEof, w\<lparr>wd_calls := m\<rparr>)"
    using read_exact_quiet [OF q, of n rd1] by auto
  then show ?thesis by (auto simp: read_body_def Let_def eof_error_def)
qed

text \<open>A complete record is delivered, unless the buffer ends within its length field.\<close>

lemma journal_next_frame:
  assumes q: "quiet w" and d: "\<not> ji_done it" and s: "rd_stream (ji_reader it) = frame c pl @ rs"
    and l: "length pl < 2 ^ 32"
  shows "(\<exists>rd' m. journal_next c p it w =
            ((Some (decode_payload c pl (ji_position it + 4)),
              it\<lparr>ji_reader := rd', ji_position := ji_position it + length (frame c pl)\<rparr>),
             w\<lparr>wd_calls := m\<rparr>) \<and>
           rd_stream rd' = rs \<and> (buffered (ji_reader it) \<longrightarrow> rd_rest rd' = []))
       \<or> (\<not> buffered (ji_reader it) \<and>
           (\<exists>m. journal_next c p it w =
              ((Some (Inl (Truncated p)), it\<lparr>ji_done := True\<rparr>), w\<lparr>wd_calls := m\<rparr>)))"
proof -
  obtain bs rd1 where b: "br_take 4 (ji_reader it) = (bs, rd1)" by fastforce
  have st: "bs @ rd_stream rd1 = frame c pl @ rs" "length bs \<le> 4"
    using br_take_stream [of 4 "ji_reader it"] b s by simp_all
  have ne: "bs \<noteq> []" using br_take_progress [of 4 "ji_reader it"] b s by (simp add: frame_def to_le_bytes_eq)
  show ?thesis
  proof (cases "length bs = 4")
    case False
    then have short: "length (fst (br_take 4 (ji_reader it))) < 4" using st(2) b by simp
    have "\<not> buffered (ji_reader it)"
      using br_take_buffered [of "ji_reader it" 4] b False s by auto
    then show ?thesis using journal_next_short [OF q d short, of c p] ne b by auto
  next
    case True
    have bs: "bs = to_le_bytes (word_of_nat (length pl))"
      and rd1: "rd_stream rd1 = pl @ to_le_bytes (cd_crc32 c pl) @ rs"
      using st(1) True by (simp_all add: frame_def append_eq_append_conv)
    have n: "unat (from_le_bytes bs) = length pl" using l by (simp add: bs frame_length_word)
    obtain m where "journal_next c p it w = read_body c p it (length pl) rd1 (w\<lparr>wd_calls := m\<rparr>)"
      using journal_next_start [OF q d b True, of c p] n by metis
    moreover have "buffered (ji_reader it) \<longrightarrow> rd_rest rd1 = []"
      using br_take_buffered [of "ji_reader it" 4] b by auto
    ultimately show ?thesis
      using read_body_frame [of "w\<lparr>wd_calls := m\<rparr>" rd1 pl c rs p it] q rd1 by auto
  qed
qed

text \<open>A record that lacks its last bytes ends the walk, and is never delivered.\<close>

lemma journal_next_torn:
  assumes q: "quiet w" and d: "\<not> ji_done it" and s: "rd_stream (ji_reader it) = take k (frame c pl)"
    and k: "k < length (frame c pl)" and l: "length pl < 2 ^ 32"
  shows "\<exists>m. journal_next c p it w =
    ((if k = 0 then None else Some (Inl (Truncated p)), it\<lparr>ji_done := True\<rparr>), w\<lparr>wd_calls := m\<rparr>)"
proof -
  obtain bs rd1 where b: "br_take 4 (ji_reader it) = (bs, rd1)" by fastforce
  have st: "bs @ rd_stream rd1 = take k (frame c pl)" "length bs \<le> 4"
    using br_take_stream [of 4 "ji_reader it"] b s by simp_all
  have ne: "bs = [] \<longleftrightarrow> k = 0"
    using br_take_progress [of 4 "ji_reader it"] b s st(1) by (auto simp: frame_def to_le_bytes_eq)
  show ?thesis
  proof (cases "length bs = 4")
    case False
    then have short: "length (fst (br_take 4 (ji_reader it))) < 4" using st(2) b by simp
    show ?thesis using journal_next_short [OF q d short, of c p] ne b by auto
  next
    case True
    have "take 4 (take k (frame c pl)) = bs" using True by (simp flip: st(1))
    moreover have "4 \<le> k" using True arg_cong [OF st(1), of length] by simp
    ultimately have "bs = to_le_bytes (word_of_nat (length pl))"
      by (simp add: frame_def min_def)
    then have n: "unat (from_le_bytes bs) = length pl" using l by (simp add: frame_length_word)
    have len: "length (rd_stream rd1) < length pl + 4"
      using arg_cong [OF st(1), of length] True k by simp
    obtain m where "journal_next c p it w = read_body c p it (length pl) rd1 (w\<lparr>wd_calls := m\<rparr>)"
      using journal_next_start [OF q d b True, of c p] n by metis
    then show ?thesis
      using read_body_torn [of "w\<lparr>wd_calls := m\<rparr>" rd1 "length pl" c p it] q len \<open>4 \<le> k\<close> by auto
  qed
qed

end
