(* ===== verification/CacheIndex.thy ===== *)
theory CacheIndex
  imports Journal
begin

text \<open>
  The cache index (\<open>crates/barista-cache/src/index.rs\<close>): a sorted map kept in memory, backed by
  a snapshot file and the journal.

  The state of an open handle extends the operating system's: the journal's write buffer, the
  map, the number of journal records since the last compaction and the threshold. \<open>open_inner\<close>
  sets these fields from the files whatever they were before, so it also models a restart.
\<close>

section \<open>Sorted maps\<close>

text \<open>A \<open>BTreeMap\<close> is the list of its pairs in key order.\<close>

type_synonym ('k, 'v) btree = "('k \<times> 'v) list"

fun bt_insert :: "'k::linorder \<Rightarrow> 'v \<Rightarrow> ('k, 'v) btree \<Rightarrow> ('k, 'v) btree" where
  "bt_insert k v [] = [(k, v)]"
| "bt_insert k v ((a, b) # m) =
     (if k < a then (k, v) # (a, b) # m
      else if k = a then (k, v) # m
      else (a, b) # bt_insert k v m)"

definition bt_remove :: "'k \<Rightarrow> ('k, 'v) btree \<Rightarrow> ('k, 'v) btree" where
  "bt_remove k m = filter (\<lambda>(a, _). a \<noteq> k) m"

definition bt_update :: "'k \<Rightarrow> ('v \<Rightarrow> 'v) \<Rightarrow> ('k, 'v) btree \<Rightarrow> ('k, 'v) btree" where
  "bt_update k f m = map (\<lambda>(a, b). (a, if a = k then f b else b)) m"

definition bt_wf :: "('k::linorder, 'v) btree \<Rightarrow> bool" where
  "bt_wf m \<longleftrightarrow> sorted_wrt (<) (map fst m)"

section \<open>State\<close>

type_synonym entry_map = "(index_key, index_entry) btree"

record index_world = journal_world +
  ix_entries :: entry_map
  ix_since_compact :: nat
  ix_threshold :: nat

datatype index_error =
    IxJournal journal_error
  | IxIo string io_error
  | SnapshotMalformed string string

record open_report =
  op_journal_truncated :: bool
  op_journal_truncated_at :: "nat option"

definition DEFAULT_COMPACT_THRESHOLD :: nat where
  "DEFAULT_COMPACT_THRESHOLD = 10000"

definition INDEX_DIR :: string where
  "INDEX_DIR = ''index''"

definition snapshot_path :: string where
  "snapshot_path = INDEX_DIR @ ''/snapshot.bin''"

definition snapshot_tmp :: string where
  "snapshot_tmp = INDEX_DIR @ ''/snapshot.bin.tmp''"

definition journal_path :: string where
  "journal_path = INDEX_DIR @ ''/journal.log''"

text \<open>The effect of one mutation on the map, in memory and when it is replayed.\<close>

fun apply_entry :: "journal_entry \<Rightarrow> entry_map \<Rightarrow> entry_map" where
  "apply_entry (JPut k e) m = bt_insert k e m"
| "apply_entry (JRemove k) m = bt_remove k m"
| "apply_entry (JTouch k t) m = bt_update k (\<lambda>e. e\<lparr>ie_atime_unix := t\<rparr>) m"

section \<open>Snapshots\<close>

definition header_bytes :: "32 word \<Rightarrow> bytes" where
  "header_bytes version = FILE_MAGIC @ to_le_bytes version @ [0, 0]"

definition load_snapshot :: "codec \<Rightarrow> string \<Rightarrow> ('a world_scheme, entry_map, index_error) io" where
  "load_snapshot c p =
     io_bind (io_map_err (IxIo p) (sys_len p)) (\<lambda>_.
     io_bind (io_map_err IxJournal (validate_header p SNAPSHOT_VERSION)) (\<lambda>_.
     io_bind (io_map_err (IxIo p) sys_nop) (\<lambda>_.
     io_bind (io_map_err (IxIo p) (sys_read_file p)) (\<lambda>d.
     io_bind (io_lift (map_err (SnapshotMalformed p) (cd_decode_snapshot c (drop HEADER_LEN d)))) (\<lambda>entries.
     io_return (fold (\<lambda>(k, v). bt_insert k v) entries []))))))"

text \<open>The \<open>BufWriter\<close> of the source sends the header and a small body in one write, and a body
  that does not fit beside the header in a second one.\<close>

definition write_snapshot :: "codec \<Rightarrow> entry_map \<Rightarrow> string \<Rightarrow> string \<Rightarrow> ('a world_scheme, unit, index_error) io" where
  "write_snapshot c m p tmp =
     io_bind (io_map_err (IxIo INDEX_DIR) sys_nop) (\<lambda>_.
     io_bind (io_lift (map_err (SnapshotMalformed p) (cd_encode_snapshot c m))) (\<lambda>body.
     io_bind (io_map_err (IxIo tmp) (sys_open_truncate tmp)) (\<lambda>_.
     io_bind (io_map_err (IxIo tmp)
       (if length body \<le> BUF_SIZE - HEADER_LEN
        then sys_write tmp (header_bytes SNAPSHOT_VERSION @ body)
        else io_bind (sys_write tmp (header_bytes SNAPSHOT_VERSION)) (\<lambda>_. sys_write tmp body))) (\<lambda>_.
     io_bind (io_map_err (IxIo tmp) sys_nop) (\<lambda>_.
     io_map_err (IxIo p) (sys_rename tmp p))))))"

section \<open>Opening\<close>

function replay_loop ::
  "codec \<Rightarrow> string \<Rightarrow> journal_iter \<Rightarrow> entry_map \<Rightarrow> nat \<Rightarrow> 'a world_scheme \<Rightarrow>
   (journal_error option \<times> journal_iter \<times> entry_map \<times> nat, index_error) result \<times> 'a world_scheme" where
  "replay_loop c p it m n w =
     (case journal_next c p it w of
        ((None, it'), w') \<Rightarrow> (Inr (None, it', m, n), w')
      | ((Some (Inl e), it'), w') \<Rightarrow> (Inr (Some e, it', m, n), w')
      | ((Some (Inr e), it'), w') \<Rightarrow> replay_loop c p it' (apply_entry e m) (Suc n) w')"
  by pat_completeness auto

termination
  by (relation "measure (\<lambda>(_, _, it, _, _, _). length (rd_stream (ji_reader it)))")
    (auto dest!: sym [of "((Some (Inr _), _), _)"] intro: journal_next_decreases)

declare replay_loop.simps [simp del]

definition is_recoverable :: "journal_error \<Rightarrow> bool" where
  "is_recoverable e = (case e of Truncated _ \<Rightarrow> True | BadChecksum _ \<Rightarrow> True | _ \<Rightarrow> False)"

definition repair_tail ::
  "bool \<Rightarrow> journal_error option \<Rightarrow> journal_iter \<Rightarrow> ('a journal_world_scheme, open_report, index_error) io" where
  "repair_tail recover bad_tail it =
     (case bad_tail of
        None \<Rightarrow> io_return \<lparr>op_journal_truncated = False, op_journal_truncated_at = None\<rparr>
      | Some e \<Rightarrow>
          if recover \<and> is_recoverable e
          then let cut_at = last_good_offset it in
            io_bind (io_map_err IxJournal (journal_truncate_to journal_path cut_at)) (\<lambda>_.
            io_return \<lparr>op_journal_truncated = True, op_journal_truncated_at = Some cut_at\<rparr>)
          else io_fail (IxJournal e))"

definition replay_journal ::
  "codec \<Rightarrow> bool \<Rightarrow> entry_map \<Rightarrow> ('a index_world_scheme, open_report, index_error) io" where
  "replay_journal c recover base =
     io_bind (io_map_err IxJournal (iter_entries_with_positions journal_path)) (\<lambda>it.
     io_bind (replay_loop c journal_path it base 0) (\<lambda>(bad_tail, it, m, n).
     io_bind (repair_tail recover bad_tail it) (\<lambda>report.
     io_bind (io_modify (\<lambda>w. w\<lparr>ix_entries := m, ix_since_compact := n,
                              ix_threshold := DEFAULT_COMPACT_THRESHOLD\<rparr>)) (\<lambda>_.
     io_return report))))"

definition open_inner :: "codec \<Rightarrow> bool \<Rightarrow> ('a index_world_scheme, open_report, index_error) io" where
  "open_inner c recover =
     io_bind (io_map_err (IxIo INDEX_DIR) sys_nop) (\<lambda>_.
     io_bind (sys_exists snapshot_path) (\<lambda>present.
     io_bind (if present then load_snapshot c snapshot_path else io_return []) (\<lambda>base.
     io_bind (io_map_err IxJournal (journal_open journal_path)) (\<lambda>_.
     replay_journal c recover base))))"

definition index_open :: "codec \<Rightarrow> ('a index_world_scheme, unit, index_error) io" where
  "index_open c = io_bind (open_inner c False) (\<lambda>_. io_return ())"

definition open_with_recovery :: "codec \<Rightarrow> ('a index_world_scheme, open_report, index_error) io" where
  "open_with_recovery c = open_inner c True"

section \<open>Mutations\<close>

definition index_compact :: "codec \<Rightarrow> ('a index_world_scheme, unit, index_error) io" where
  "index_compact c =
     io_bind (io_get ix_entries) (\<lambda>m.
     io_bind (write_snapshot c m snapshot_path snapshot_tmp) (\<lambda>_.
     io_bind (io_map_err IxJournal (journal_truncate journal_path)) (\<lambda>_.
     io_modify (\<lambda>w. w\<lparr>ix_since_compact := 0\<rparr>))))"

definition maybe_compact :: "codec \<Rightarrow> ('a index_world_scheme, unit, index_error) io" where
  "maybe_compact c =
     io_bind (io_get (\<lambda>w. ix_threshold w \<le> ix_since_compact w)) (\<lambda>should.
     if should then index_compact c else io_return ())"

text \<open>The critical section under the write lock that follows the journal record.\<close>

definition commit :: "journal_entry \<Rightarrow> ('a index_world_scheme, unit, 'e) io" where
  "commit e = io_modify (\<lambda>w. w\<lparr>ix_entries := apply_entry e (ix_entries w),
                              ix_since_compact := Suc (ix_since_compact w)\<rparr>)"

definition index_put :: "codec \<Rightarrow> index_key \<Rightarrow> index_entry \<Rightarrow> ('a index_world_scheme, unit, index_error) io" where
  "index_put c k e =
     io_bind (io_map_err IxJournal (journal_append c journal_path (JPut k e))) (\<lambda>_.
     io_bind (commit (JPut k e)) (\<lambda>_.
     maybe_compact c))"

definition index_remove :: "codec \<Rightarrow> index_key \<Rightarrow> ('a index_world_scheme, bool, index_error) io" where
  "index_remove c k =
     io_bind (io_map_err IxJournal (journal_append c journal_path (JRemove k))) (\<lambda>_.
     io_bind (io_get (\<lambda>w. map_of (ix_entries w) k \<noteq> None)) (\<lambda>removed.
     io_bind (commit (JRemove k)) (\<lambda>_.
     io_bind (maybe_compact c) (\<lambda>_.
     io_return removed))))"

definition index_touch :: "codec \<Rightarrow> index_key \<Rightarrow> nat \<Rightarrow> ('a index_world_scheme, bool, index_error) io" where
  "index_touch c k atime =
     io_bind (io_map_err IxJournal (journal_append c journal_path (JTouch k atime))) (\<lambda>_.
     io_bind (io_get (\<lambda>w. map_of (ix_entries w) k \<noteq> None)) (\<lambda>touched.
     io_bind (commit (JTouch k atime)) (\<lambda>_.
     io_bind (maybe_compact c) (\<lambda>_.
     io_return touched))))"

definition index_get :: "'a index_world_scheme \<Rightarrow> index_key \<Rightarrow> index_entry option" where
  "index_get w k = map_of (ix_entries w) k"

definition index_len :: "'a index_world_scheme \<Rightarrow> nat" where
  "index_len w = length (ix_entries w)"

definition index_entries :: "'a index_world_scheme \<Rightarrow> (index_key \<times> index_entry) list" where
  "index_entries w = ix_entries w"

definition set_compact_threshold :: "nat \<Rightarrow> 'a index_world_scheme \<Rightarrow> 'a index_world_scheme" where
  "set_compact_threshold n w = w\<lparr>ix_threshold := n\<rparr>"

section \<open>The map\<close>

named_theorems bt_simps "lookups in the sorted map"

lemma map_of_bt_insert [bt_simps]: "map_of (bt_insert k v m) k' = (if k' = k then Some v else map_of m k')"
  by (induction k v m rule: bt_insert.induct) auto

lemma map_of_bt_remove [bt_simps]: "map_of (bt_remove k m) k' = (if k' = k then None else map_of m k')"
  by (induction m) (auto simp: bt_remove_def)

lemma map_of_bt_update [bt_simps]:
  "map_of (bt_update k f m) k' = (if k' = k then map_option f (map_of m k') else map_of m k')"
  by (induction m) (auto simp: bt_update_def)

lemma keys_bt_insert: "fst ` set (bt_insert k v m) = insert k (fst ` set m)"
  by (induction k v m rule: bt_insert.induct) auto

lemma bt_wf_Nil [simp]: "bt_wf []"
  by (simp add: bt_wf_def)

lemma bt_wf_Cons: "bt_wf ((a, b) # m) \<longleftrightarrow> (\<forall>x \<in> fst ` set m. a < x) \<and> bt_wf m"
  by (simp add: bt_wf_def)

lemma bt_wf_insert: "bt_wf m \<Longrightarrow> bt_wf (bt_insert k v m)"
proof (induction k v m rule: bt_insert.induct)
  case (2 k v a b m)
  have wf: "\<forall>x \<in> fst ` set m. a < x" "bt_wf m" using 2(2) unfolding bt_wf_Cons by blast+
  consider "k < a" | "k = a" | "a < k" by (rule linorder_cases)
  then show ?case
  proof cases
    case 1
    then have "\<forall>x \<in> fst ` set ((a, b) # m). k < x" using wf(1) by auto
    moreover have "bt_insert k v ((a, b) # m) = (k, v) # (a, b) # m" using 1 by simp
    ultimately show ?thesis using bt_wf_Cons [of k v "(a, b) # m"] 2(2) by metis
  next
    case 2
    with wf show ?thesis by (simp add: bt_wf_Cons)
  next
    case 3
    then have "bt_wf (bt_insert k v m)" using 2(1) wf(2) by simp
    moreover have "\<forall>x \<in> fst ` set (bt_insert k v m). a < x"
      unfolding keys_bt_insert using 3 wf(1) by blast
    moreover have "bt_insert k v ((a, b) # m) = (a, b) # bt_insert k v m" using 3 by auto
    ultimately show ?thesis using bt_wf_Cons [of a b "bt_insert k v m"] by simp
  qed
qed (simp add: bt_wf_def)

lemma bt_wf_remove: "bt_wf m \<Longrightarrow> bt_wf (bt_remove k m)"
  by (induction m) (auto simp: bt_wf_def bt_remove_def)

lemma map_fst_bt_update [simp]: "map fst (bt_update k f m) = map fst m"
  by (induction m) (auto simp: bt_update_def)

lemma bt_wf_update: "bt_wf m \<Longrightarrow> bt_wf (bt_update k f m)"
  by (simp add: bt_wf_def)

lemma bt_wf_apply: "bt_wf m \<Longrightarrow> bt_wf (apply_entry e m)"
  by (cases e) (simp_all add: bt_wf_insert bt_wf_remove bt_wf_update)

lemma bt_wf_fold_apply: "bt_wf m \<Longrightarrow> bt_wf (fold apply_entry es m)"
  by (induction es arbitrary: m) (simp_all add: bt_wf_apply)

lemma bt_wf_fold_insert: "bt_wf m \<Longrightarrow> bt_wf (fold (\<lambda>(k, v). bt_insert k v) kvs m)"
  by (induction kvs arbitrary: m) (auto simp: bt_wf_insert)

text \<open>A sorted map is determined by its lookups, and reinserting its pairs rebuilds it.\<close>

lemma bt_wf_distinct: "bt_wf m \<Longrightarrow> distinct (map fst m)"
  by (simp add: bt_wf_def strict_sorted_iff)

lemma assoc_rebuild:
  assumes "distinct (map fst m)"
  shows "m = map (\<lambda>k. (k, the (map_of m k))) (map fst m)"
proof -
  have "map (\<lambda>k. (k, the (map_of m k))) (map fst m) = map (\<lambda>x. x) m"
    unfolding map_map by (rule map_cong) (use assms in \<open>auto simp: map_of_eq_Some_iff\<close>)
  then show ?thesis by simp
qed

lemma bt_ext:
  assumes "bt_wf m" "bt_wf m'" "map_of m = map_of m'"
  shows "m = m'"
proof -
  have "set (map fst m) = set (map fst m')"
    using arg_cong [OF assms(3), of dom] by (simp add: dom_map_of_conv_image_fst)
  then have "map fst m = map fst m'"
    using strict_sorted_equal assms(1,2) unfolding bt_wf_def by metis
  then show ?thesis
    using assoc_rebuild [OF bt_wf_distinct [OF assms(1)]] assoc_rebuild [OF bt_wf_distinct [OF assms(2)]] assms(3)
    by metis
qed

lemma map_of_fold_insert:
  "map_of (fold (\<lambda>(k, v). bt_insert k v) kvs m) k =
     (case map_of (rev kvs) k of None \<Rightarrow> map_of m k | Some v \<Rightarrow> Some v)"
  by (induction kvs arbitrary: m) (auto simp: bt_simps map_add_def split: option.splits)

lemma bt_reinsert:
  assumes "bt_wf m"
  shows "fold (\<lambda>(k, v). bt_insert k v) m [] = m"
proof (rule bt_ext [OF bt_wf_fold_insert [OF bt_wf_Nil] assms])
  have "map_of (rev m) = map_of m"
    using bt_wf_distinct [OF assms] by (subst map_of_inject_set) (simp_all add: rev_map [symmetric])
  then show "map_of (fold (\<lambda>(k, v). bt_insert k v) m []) = map_of m"
    by (simp add: fun_eq_iff map_of_fold_insert split: option.split)
qed

section \<open>Replay\<close>

text \<open>What a mutation does to the entry of one key.\<close>

fun key_effect :: "index_key \<Rightarrow> journal_entry \<Rightarrow> index_entry option \<Rightarrow> index_entry option" where
  "key_effect k (JPut a e) x = (if a = k then Some e else x)"
| "key_effect k (JRemove a) x = (if a = k then None else x)"
| "key_effect k (JTouch a t) x = (if a = k then map_option (\<lambda>e. e\<lparr>ie_atime_unix := t\<rparr>) x else x)"

lemma map_of_apply: "map_of (apply_entry e m) k = key_effect k e (map_of m k)"
  by (cases e) (auto simp: bt_simps)

lemma map_of_fold_apply: "map_of (fold apply_entry es m) k = fold (key_effect k) es (map_of m k)"
  by (induction es arbitrary: m) (simp_all add: map_of_apply)

text \<open>Over a whole run a key's entry is set, or only touched, or left alone.\<close>

lemma key_effect_shape:
  "(\<exists>y. \<forall>x. fold (key_effect k) es x = y) \<or>
   (\<exists>t. \<forall>x. fold (key_effect k) es x = map_option (\<lambda>e. e\<lparr>ie_atime_unix := t\<rparr>) x) \<or>
   (\<forall>x. fold (key_effect k) es x = x)"
proof (induction es rule: rev_induct)
  case (snoc e es)
  then show ?case
    by (cases e) (auto simp: option.map_comp comp_def)
qed simp

lemma replay_idem: "fold (key_effect k) es (fold (key_effect k) es x) = fold (key_effect k) es x"
  using key_effect_shape [of k es] by (auto simp: option.map_comp comp_def)

lemma replay_twice:
  assumes "bt_wf m"
  shows "fold apply_entry es (fold apply_entry es m) = fold apply_entry es m"
  by (rule bt_ext) (auto simp: bt_wf_fold_apply assms map_of_fold_apply replay_idem)

section \<open>Files\<close>

definition record_bytes :: "codec \<Rightarrow> journal_entry \<Rightarrow> bytes" where
  "record_bytes c e = (case cd_encode c e of Inr d \<Rightarrow> frame c d | Inl _ \<Rightarrow> [])"

definition records :: "codec \<Rightarrow> journal_entry list \<Rightarrow> bytes" where
  "records c es = concat (map (record_bytes c) es)"

text \<open>The codec's contract on an entry: it encodes to fewer than \<open>2\<^sup>32\<close> bytes and decodes to itself.\<close>

definition codec_ok :: "codec \<Rightarrow> journal_entry \<Rightarrow> bool" where
  "codec_ok c e \<longleftrightarrow>
     (case cd_encode c e of Inr d \<Rightarrow> length d < 2 ^ 32 \<and> cd_decode c d = Inr e | Inl _ \<Rightarrow> False)"

text \<open>What a killed append leaves behind: a proper prefix of a record.\<close>

definition torn :: "codec \<Rightarrow> bytes \<Rightarrow> bool" where
  "torn c d \<longleftrightarrow> d = [] \<or> (\<exists>e k. codec_ok c e \<and> k < length (record_bytes c e) \<and> d = take k (record_bytes c e))"

lemma codec_okE:
  assumes "codec_ok c e"
  obtains d where "cd_encode c e = Inr d" "length d < 2 ^ 32" "cd_decode c d = Inr e"
    "record_bytes c e = frame c d"
  using assms by (auto simp: codec_ok_def record_bytes_def split: sum.splits)

lemma records_simps [simp]:
  "records c [] = []" "records c (e # es) = record_bytes c e @ records c es"
  "records c (es @ es') = records c es @ records c es'"
  by (simp_all add: records_def)

lemma replay_loop_torn:
  assumes "quiet w" "\<not> ji_done it" "rd_stream (ji_reader it) = d" "torn c d"
  shows "\<exists>k. replay_loop c p it m n w =
    (Inr (if d = [] then None else Some (Truncated p), it\<lparr>ji_done := True\<rparr>, m, n), w\<lparr>wd_calls := k\<rparr>)"
proof -
  have "\<exists>k. journal_next c p it w =
    ((if d = [] then None else Some (Inl (Truncated p)), it\<lparr>ji_done := True\<rparr>), w\<lparr>wd_calls := k\<rparr>)"
  proof (cases "d = []")
    case True
    then show ?thesis
      using journal_next_torn [OF assms(1,2), of 0 c "[]" p] assms(3) by auto
  next
    case False
    then obtain e k where e: "codec_ok c e" "k < length (record_bytes c e)" "d = take k (record_bytes c e)"
      using assms(4) by (auto simp: torn_def)
    from e(1) obtain pl where pl: "length pl < 2 ^ 32" "record_bytes c e = frame c pl" by (rule codec_okE)
    show ?thesis
      using journal_next_torn [OF assms(1,2), of k c pl p] e pl assms(3) False by auto
  qed
  then show ?thesis by (auto simp: replay_loop.simps [of c p it])
qed

definition tail_error :: "string \<Rightarrow> journal_entry list \<Rightarrow> bytes \<Rightarrow> nat \<Rightarrow> journal_error option" where
  "tail_error p es d r = (if r = length es \<and> d = [] then None else Some (Truncated p))"

text \<open>Replay of a journal of complete records \<open>es\<close> and torn bytes \<open>d\<close> that applies the first \<open>r\<close>
  records.\<close>

definition replays ::
  "codec \<Rightarrow> string \<Rightarrow> journal_iter \<Rightarrow> journal_entry list \<Rightarrow> bytes \<Rightarrow> entry_map \<Rightarrow> nat \<Rightarrow>
   'a world_scheme \<Rightarrow> nat \<Rightarrow> bool" where
  "replays c p it es d m n w r \<longleftrightarrow> (\<exists>it' k.
     replay_loop c p it m n w =
       (Inr (tail_error p es d r, it',
             fold apply_entry (take r es) m, n + r), w\<lparr>wd_calls := k\<rparr>) \<and>
     ji_position it' = ji_position it + length (records c (take r es)))"

lemma replay_loop_records:
  assumes "quiet w" "\<not> ji_done it" "rd_stream (ji_reader it) = records c es @ d"
    "\<forall>e \<in> set es. codec_ok c e" "torn c d"
  shows "\<exists>r \<le> length es. replays c p it es d m n w r \<and> (buffered (ji_reader it) \<longrightarrow> r = length es)"
  using assms
proof (induction es arbitrary: it m n w)
  case Nil
  then obtain k where "replay_loop c p it m n w =
      (Inr (if d = [] then None else Some (Truncated p), it\<lparr>ji_done := True\<rparr>, m, n), w\<lparr>wd_calls := k\<rparr>)"
    using replay_loop_torn [of w it d c p m n] by auto
  then have "replays c p it [] d m n w 0"
    unfolding replays_def by (intro exI [where x = "it\<lparr>ji_done := True\<rparr>"] exI [where x = k]) (simp add: tail_error_def)
  then show ?case by auto
next
  case (Cons e es)
  obtain pl where pl: "length pl < 2 ^ 32" "cd_decode c pl = Inr e" "record_bytes c e = frame c pl"
    using Cons.prems(4) codec_okE [of c e] by auto
  have s: "rd_stream (ji_reader it) = frame c pl @ records c es @ d"
    using Cons.prems(3) pl(3) by simp
  have dec: "decode_payload c pl off = Inr e" for off by (simp add: decode_payload_def pl(2))
  from journal_next_frame [OF Cons.prems(1,2) s pl(1), of p]
  show ?case
  proof (elim disjE exE conjE)
    fix k
    assume nb: "\<not> buffered (ji_reader it)" and
      "journal_next c p it w = ((Some (Inl (Truncated p)), it\<lparr>ji_done := True\<rparr>), w\<lparr>wd_calls := k\<rparr>)"
    then have "replays c p it (e # es) d m n w 0"
      unfolding replays_def
      by (intro exI [where x = "it\<lparr>ji_done := True\<rparr>"] exI [where x = k])
        (simp add: replay_loop.simps [of c p it] tail_error_def)
    then show ?thesis using nb by blast
  next
    fix rd' k
    let ?it = "it\<lparr>ji_reader := rd', ji_position := ji_position it + length (frame c pl)\<rparr>"
    assume nx: "journal_next c p it w =
        ((Some (decode_payload c pl (ji_position it + 4)), ?it), w\<lparr>wd_calls := k\<rparr>)"
      and rd: "rd_stream rd' = records c es @ d" and buf: "buffered (ji_reader it) \<longrightarrow> rd_rest rd' = []"
    obtain r where r: "r \<le> length es" "replays c p ?it es d (apply_entry e m) (Suc n) (w\<lparr>wd_calls := k\<rparr>) r"
      "buffered rd' \<longrightarrow> r = length es"
      using Cons.IH [of "w\<lparr>wd_calls := k\<rparr>" ?it "apply_entry e m" "Suc n"] Cons.prems rd by auto
    have "replays c p it (e # es) d m n w (Suc r)"
      using r(2) nx pl(3) unfolding replays_def by (auto simp: replay_loop.simps [of c p it] dec tail_error_def)
    moreover have "buffered (ji_reader it) \<longrightarrow> Suc r = length (e # es)"
      using r(3) buf by (auto simp: buffered_def)
    ultimately show ?thesis using r(1) by (intro exI [of _ "Suc r"]) simp
  qed
qed

end
