(* ===== verification/RoasteryClient.thy ===== *)
theory RoasteryClient
  imports CacheIndex
begin

text \<open>
  The client of the shared cache server (\<open>crates/barista-roastery-client\<close>: \<open>client.rs\<close>,
  \<open>digest.rs\<close>, \<open>error.rs\<close>, \<open>config.rs\<close>, \<open>types.rs\<close>), and the HTTP requests it and the
  fetcher send.

  The network is the parameter \<open>hl_send\<close>: the answer to the \<open>n\<close>-th request of the process, an
  arbitrary function. The rest of the record \<open>http_lib\<close> stands for the crates \<open>http\<close>, \<open>url\<close>
  and \<open>serde_json\<close>. The reasons of configuration and protocol errors are constructors instead
  of texts.
\<close>

section \<open>Requests\<close>

datatype http_method = GET | HEAD | PUT | POST

record http_request =
  rq_method :: http_method
  rq_url :: string
  rq_headers :: "(string \<times> string) list"
  rq_body :: "bytes option"

text \<open>The text is the one the error displays.\<close>

datatype http_error = HttpTimeout string | HttpConnect string | HttpOther string

text \<open>A header whose value is not visible ASCII has no text form. The body may fail while it is
  read.\<close>

record http_response =
  rp_status :: nat
  rp_headers :: "(string \<times> string option) list"
  rp_body :: "(bytes, http_error) result"

record error_body =
  eb_code :: string
  eb_message :: string
  eb_expected :: "string option"
  eb_actual :: "string option"

record health_response =
  hr_status :: string
  hr_protocol :: string
  hr_version :: string

record capabilities_response =
  cr_protocol :: string
  cr_version :: string
  cr_hashes :: "string list"
  cr_max_batch_missing :: nat
  cr_backend :: string

record http_lib =
  hl_send :: "nat \<Rightarrow> http_request \<Rightarrow> (http_response, http_error) result"
  hl_header_ok :: "string \<Rightarrow> bool"
  hl_url_scheme :: "string \<Rightarrow> string"
  hl_url_path :: "string \<Rightarrow> string"
  hl_url_set_path :: "string \<Rightarrow> string \<Rightarrow> string"
  hl_url_join :: "string \<Rightarrow> string \<Rightarrow> (string, string) result"
  hl_error_body :: "bytes \<Rightarrow> error_body option"
  hl_digests_json :: "string list \<Rightarrow> bytes"
  hl_missing_json :: "bytes \<Rightarrow> (string list, string) result"
  hl_health_json :: "bytes \<Rightarrow> (health_response, string) result"
  hl_capabilities_json :: "bytes \<Rightarrow> (capabilities_response, string) result"

record net_world = index_world +
  nw_sent :: "http_request list"

definition http_send :: "'l http_lib_scheme \<Rightarrow> http_request \<Rightarrow> ('a net_world_scheme, http_response, http_error) io" where
  "http_send lib rq w = (hl_send lib (length (nw_sent w)) rq, w\<lparr>nw_sent := nw_sent w @ [rq]\<rparr>)"

definition is_success :: "nat \<Rightarrow> bool" where
  "is_success status \<longleftrightarrow> 200 \<le> status \<and> status < 300"

section \<open>Text from bytes\<close>

text \<open>One step of \<open>String::from_utf8_lossy\<close>: whether the bytes start with a character, and how
  many of them it or the broken sequence takes.\<close>

definition utf8_step :: "nat list \<Rightarrow> bool \<times> nat" where
  "utf8_step bs =
     (let b = hd bs; r = tl bs; at = (\<lambda>i. if i < length r then r ! i else 0);
          cont = (\<lambda>x. 128 \<le> x \<and> x \<le> (191 :: nat)) in
      if b < 128 then (True, 1)
      else if 194 \<le> b \<and> b \<le> 223 then (if cont (at 0) then (True, 2) else (False, 1))
      else if 224 \<le> b \<and> b \<le> 239 then
        (if \<not> (if b = 224 then 160 \<le> at 0 \<and> at 0 \<le> 191 else if b = 237 then 128 \<le> at 0 \<and> at 0 \<le> 159 else cont (at 0))
         then (False, 1) else if \<not> cont (at 1) then (False, 2) else (True, 3))
      else if 240 \<le> b \<and> b \<le> 244 then
        (if \<not> (if b = 240 then 144 \<le> at 0 \<and> at 0 \<le> 191 else if b = 244 then 128 \<le> at 0 \<and> at 0 \<le> 143 else cont (at 0))
         then (False, 1) else if \<not> cont (at 1) then (False, 2) else if \<not> cont (at 2) then (False, 3) else (True, 4))
      else (False, 1))"

lemma utf8_step_progress: "0 < snd (utf8_step bs)"
  by (simp add: utf8_step_def Let_def)

function utf8_chunks :: "nat list \<Rightarrow> nat list" where
  "utf8_chunks bs =
     (if bs = [] then []
      else (case utf8_step bs of (ok, n) \<Rightarrow> (if ok then take n bs else [239, 191, 189]) @ utf8_chunks (drop n bs)))"
  by pat_completeness auto

termination
proof (relation "measure length", goal_cases)
  case (2 bs)
  then show ?case using utf8_step_progress [of bs] by (cases bs) (auto dest: arg_cong [of _ _ snd])
qed simp

declare utf8_chunks.simps [simp del]

definition utf8_lossy :: "bytes \<Rightarrow> string" where
  "utf8_lossy bs = map char_of (utf8_chunks (map unat bs))"

definition str_bytes :: "string \<Rightarrow> bytes" where
  "str_bytes s = map (\<lambda>c. word_of_nat (byte_of c)) s"

section \<open>Configuration and errors\<close>

datatype auth_config = Anonymous | Bearer string | Mtls bytes bytes

datatype tls_config = SystemRoots | CustomCa bytes | PlainHttp

record client_config =
  cc_base_url :: string
  cc_auth :: auth_config
  cc_tls :: tls_config
  cc_timeout :: nat
  cc_user_agent :: string
  cc_max_batch_missing :: nat

datatype config_reason =
    CoordsHeader string
  | BearerHeader
  | UrlJoin string string
  | PlainHttpOverHttps
  | UnsupportedScheme string

datatype response_reason =
    NoContentLength
  | ContentLengthNotAscii
  | ContentLengthNotU64
  | NoDigestHeader
  | DigestNotAscii
  | DigestHeaderInvalid
  | DigestEchoMismatch content_hash content_hash
  | NotCreated nat
  | MissingJson string
  | MissingEntryInvalid string
  | HealthJson string
  | CapabilitiesJson string

datatype client_error =
    CeConfig config_reason
  | CeNetwork http_error
  | CeTimeout
  | CeTls string
  | CeAuth string string
  | ServerRejected nat string string "content_hash option" "content_hash option"
  | CeNotFound
  | BadResponse response_reason
  | InvalidDigest string

definition contains :: "string \<Rightarrow> string \<Rightarrow> bool" where
  "contains needle s \<longleftrightarrow> (\<exists>i \<in> set [0..<Suc (length s)]. take (length needle) (drop i s) = needle)"

definition from_reqwest :: "http_error \<Rightarrow> client_error" where
  "from_reqwest e =
     (case e of
        HttpTimeout _ \<Rightarrow> CeTimeout
      | HttpConnect t \<Rightarrow>
          (let s = lower t in
           if contains ''certificate'' s \<or> contains ''tls'' s \<or> contains ''handshake'' s \<or>
              contains ''invalidcertificate'' s \<or> contains ''invalid certificate'' s
           then CeTls t else CeNetwork e)
      | HttpOther _ \<Rightarrow> CeNetwork e)"

section \<open>Digests\<close>

definition HEX_LEN :: nat where
  "HEX_LEN = 64"

definition is_lower_hex :: "char \<Rightarrow> bool" where
  "is_lower_hex c \<longleftrightarrow> (let b = byte_of c in 48 \<le> b \<and> b \<le> 57 \<or> 97 \<le> b \<and> b \<le> 102)"

definition digest_from_hex :: "string \<Rightarrow> (content_hash, client_error) result" where
  "digest_from_hex s =
     (if length s \<noteq> HEX_LEN
      then Inl (InvalidDigest (''expected '' @ show_nat HEX_LEN @ '' hex chars, got '' @ show_nat (length s)))
      else if \<not> list_all is_lower_hex s then Inl (InvalidDigest ''digest must be lowercase hex [0-9a-f]'')
      else map_err (\<lambda>_. InvalidDigest ''hex decode failed'') (decode_hex_pairs s))"

definition strip_sha256 :: "string \<Rightarrow> string" where
  "strip_sha256 s = (case strip_prefix s ''sha256:'' of Some r \<Rightarrow> r | None \<Rightarrow> s)"

section \<open>The client\<close>

record roastery_client =
  rc_base_url :: string
  rc_auth :: auth_config
  rc_max_batch_missing :: nat

definition validate_config :: "'l http_lib_scheme \<Rightarrow> client_config \<Rightarrow> (unit, client_error) result" where
  "validate_config lib cfg =
     (let scheme = hl_url_scheme lib (cc_base_url cfg) in
      if scheme = ''https'' \<and> cc_tls cfg = PlainHttp then Inl (CeConfig PlainHttpOverHttps)
      else if scheme = ''http'' \<or> scheme = ''https'' then Inr ()
      else Inl (CeConfig (UnsupportedScheme scheme)))"

text \<open>\<open>build\<close> is the construction of the TLS configuration and of the HTTP client.\<close>

definition client_new ::
  "'l http_lib_scheme \<Rightarrow> (client_config \<Rightarrow> (unit, client_error) result) \<Rightarrow> client_config \<Rightarrow> (roastery_client, client_error) result" where
  "client_new lib build cfg =
     rbind (validate_config lib cfg) (\<lambda>_. rbind (build cfg) (\<lambda>_.
       Inr \<lparr>rc_base_url = cc_base_url cfg, rc_auth = cc_auth cfg, rc_max_batch_missing = cc_max_batch_missing cfg\<rparr>))"

definition endpoint :: "'l http_lib_scheme \<Rightarrow> roastery_client \<Rightarrow> string \<Rightarrow> (string, client_error) result" where
  "endpoint lib rc path =
     (let p = hl_url_path lib (rc_base_url rc);
          base = (if p \<noteq> [] \<and> last p = CHR ''/'' then rc_base_url rc
                  else hl_url_set_path lib (rc_base_url rc) (p @ ''/'')) in
      map_err (\<lambda>e. CeConfig (UrlJoin path e)) (hl_url_join lib base path))"

definition cas_url :: "'l http_lib_scheme \<Rightarrow> roastery_client \<Rightarrow> content_hash \<Rightarrow> (string, client_error) result" where
  "cas_url lib rc digest = endpoint lib rc (''v1/cas/sha256/'' @ to_hex digest)"

definition request ::
  "'l http_lib_scheme \<Rightarrow> roastery_client \<Rightarrow> http_method \<Rightarrow> string \<Rightarrow> bool \<Rightarrow> (http_request, client_error) result" where
  "request lib rc m url with_auth =
     (let bare = \<lparr>rq_method = m, rq_url = url, rq_headers = [], rq_body = None\<rparr> in
      case rc_auth rc of
        Bearer token \<Rightarrow>
          if with_auth
          then (let value = ''Bearer '' @ token in
                if hl_header_ok lib value then Inr (bare\<lparr>rq_headers := [(''authorization'', value)]\<rparr>)
                else Inl (CeConfig BearerHeader))
          else Inr bare
      | _ \<Rightarrow> Inr bare)"

definition send :: "'l http_lib_scheme \<Rightarrow> http_request \<Rightarrow> ('a net_world_scheme, http_response, client_error) io" where
  "send lib rq = io_map_err from_reqwest (http_send lib rq)"

definition check_status :: "'l http_lib_scheme \<Rightarrow> http_response \<Rightarrow> (http_response, client_error) result" where
  "check_status lib resp =
     (let status = rp_status resp in
      if is_success status then Inr resp
      else rbind (map_err from_reqwest (rp_body resp)) (\<lambda>body.
        let parsed = hl_error_body lib body in
        if status = 401
        then (case parsed of
                Some b \<Rightarrow> Inl (CeAuth (eb_code b) (eb_message b))
              | None \<Rightarrow> Inl (CeAuth ''BAR-AUTH-001'' ''unauthorized''))
        else (case parsed of
                Some b \<Rightarrow>
                  (let digest = (\<lambda>d. case d of None \<Rightarrow> None
                         | Some s \<Rightarrow> (case digest_from_hex (strip_sha256 s) of Inr h \<Rightarrow> Some h | Inl _ \<Rightarrow> None)) in
                   Inl (ServerRejected status (eb_code b) (eb_message b) (digest (eb_expected b)) (digest (eb_actual b))))
              | None \<Rightarrow>
                  (let t = utf8_lossy body in
                   Inl (ServerRejected status ''BAR-UNKNOWN''
                     (if t = [] then ''server returned HTTP '' @ show_nat status @ '' with empty body'' else t)
                     None None)))))"

record blob_stat =
  bs_size :: nat
  bs_digest :: content_hash

definition parse_blob_stat :: "(string \<times> string option) list \<Rightarrow> content_hash \<Rightarrow> (blob_stat, client_error) result" where
  "parse_blob_stat headers expected =
     (case map_of headers ''content-length'' of
        None \<Rightarrow> Inl (BadResponse NoContentLength)
      | Some None \<Rightarrow> Inl (BadResponse ContentLengthNotAscii)
      | Some (Some t) \<Rightarrow>
         (case parse_uint 64 t of
            None \<Rightarrow> Inl (BadResponse ContentLengthNotU64)
          | Some sz \<Rightarrow>
             (case map_of headers ''x-barista-digest'' of
                None \<Rightarrow> Inl (BadResponse NoDigestHeader)
              | Some None \<Rightarrow> Inl (BadResponse DigestNotAscii)
              | Some (Some raw) \<Rightarrow>
                 rbind (map_err (\<lambda>_. BadResponse DigestHeaderInvalid) (digest_from_hex (strip_sha256 (trim raw)))) (\<lambda>server_digest.
                 if server_digest \<noteq> expected then Inl (BadResponse (DigestEchoMismatch expected server_digest))
                 else Inr \<lparr>bs_size = sz, bs_digest = expected\<rparr>))))"

record blob_stream =
  bl_stat :: blob_stat
  bl_body :: "(bytes, http_error) result"

definition get_blob_inner ::
  "'l http_lib_scheme \<Rightarrow> roastery_client \<Rightarrow> content_hash \<Rightarrow> string option \<Rightarrow> ('a net_world_scheme, blob_stream, client_error) io" where
  "get_blob_inner lib rc digest coords =
     io_bind (io_lift (cas_url lib rc digest)) (\<lambda>url.
     io_bind (io_lift (request lib rc GET url True)) (\<lambda>bare.
     io_bind (io_lift (case coords of
         None \<Rightarrow> Inr bare
       | Some c \<Rightarrow> if hl_header_ok lib c then Inr (bare\<lparr>rq_headers := rq_headers bare @ [(''x-barista-coords'', c)]\<rparr>)
                   else Inl (CeConfig (CoordsHeader c)))) (\<lambda>rq.
     io_bind (send lib rq) (\<lambda>resp.
     if rp_status resp = 404 then io_fail CeNotFound
     else io_lift (rbind (check_status lib resp) (\<lambda>resp.
          rbind (parse_blob_stat (rp_headers resp) digest) (\<lambda>stat.
          Inr \<lparr>bl_stat = stat, bl_body = rp_body resp\<rparr>)))))))"

definition get_blob where
  "get_blob lib rc digest = get_blob_inner lib rc digest None"

definition get_blob_with_coords where
  "get_blob_with_coords lib rc digest coords = get_blob_inner lib rc digest (Some coords)"

definition stat_blob ::
  "'l http_lib_scheme \<Rightarrow> roastery_client \<Rightarrow> content_hash \<Rightarrow> ('a net_world_scheme, blob_stat option, client_error) io" where
  "stat_blob lib rc digest =
     io_bind (io_lift (cas_url lib rc digest)) (\<lambda>url.
     io_bind (io_lift (request lib rc HEAD url True)) (\<lambda>rq.
     io_bind (send lib rq) (\<lambda>resp.
     if rp_status resp = 404 then io_return None
     else io_lift (rbind (check_status lib resp) (\<lambda>resp.
          rbind (parse_blob_stat (rp_headers resp) digest) (\<lambda>stat. Inr (Some stat)))))))"

definition put_blob ::
  "'l http_lib_scheme \<Rightarrow> roastery_client \<Rightarrow> content_hash \<Rightarrow> bytes \<Rightarrow> nat \<Rightarrow> ('a net_world_scheme, unit, client_error) io" where
  "put_blob lib rc digest body len =
     io_bind (io_lift (cas_url lib rc digest)) (\<lambda>url.
     io_bind (io_lift (request lib rc PUT url True)) (\<lambda>rq.
     io_bind (send lib (rq\<lparr>rq_headers := rq_headers rq @ [(''content-length'', show_nat len),
         (''content-type'', ''application/octet-stream'')], rq_body := Some body\<rparr>)) (\<lambda>resp.
     io_lift (rbind (check_status lib resp) (\<lambda>resp.
       if rp_status resp \<noteq> 201 \<and> \<not> is_success (rp_status resp)
       then Inl (BadResponse (NotCreated (rp_status resp))) else Inr ())))))"

fun missing_entries :: "string list \<Rightarrow> (content_hash list, client_error) result" where
  "missing_entries [] = Inr []"
| "missing_entries (entry # rest) =
     rbind (map_err (\<lambda>_. BadResponse (MissingEntryInvalid entry)) (digest_from_hex (strip_sha256 (trim entry)))) (\<lambda>d.
     rbind (missing_entries rest) (\<lambda>ds. Inr (d # ds)))"

definition missing_batch ::
  "'l http_lib_scheme \<Rightarrow> roastery_client \<Rightarrow> content_hash list \<Rightarrow> ('a net_world_scheme, content_hash list, client_error) io" where
  "missing_batch lib rc chunk =
     io_bind (io_lift (endpoint lib rc ''v1/cas/missing'')) (\<lambda>url.
     io_bind (io_lift (request lib rc POST url True)) (\<lambda>rq.
     io_bind (send lib (rq\<lparr>rq_body := Some (hl_digests_json lib (map (\<lambda>d. ''sha256:'' @ to_hex d) chunk))\<rparr>)) (\<lambda>resp.
     io_lift (rbind (check_status lib resp) (\<lambda>resp.
       case rp_body resp of
         Inl e \<Rightarrow> Inl (BadResponse (MissingJson (case e of HttpTimeout t \<Rightarrow> t | HttpConnect t \<Rightarrow> t | HttpOther t \<Rightarrow> t)))
       | Inr body \<Rightarrow> rbind (map_err (\<lambda>e. BadResponse (MissingJson e)) (hl_missing_json lib body)) missing_entries)))))"

function missing_loop ::
  "'l http_lib_scheme \<Rightarrow> roastery_client \<Rightarrow> nat \<Rightarrow> content_hash list \<Rightarrow> ('a net_world_scheme, content_hash list, client_error) io" where
  "missing_loop lib rc cap digests w =
     (if digests = [] then io_return [] w
      else io_bind (missing_batch lib rc (take (max cap 1) digests)) (\<lambda>out.
           io_bind (missing_loop lib rc cap (drop (max cap 1) digests)) (\<lambda>outs. io_return (out @ outs))) w)"
  by pat_completeness auto

termination by (relation "measure (\<lambda>(_, _, _, ds, _). length ds)") auto

declare missing_loop.simps [simp del]

definition missing ::
  "'l http_lib_scheme \<Rightarrow> roastery_client \<Rightarrow> content_hash list \<Rightarrow> ('a net_world_scheme, content_hash list, client_error) io" where
  "missing lib rc digests = missing_loop lib rc (rc_max_batch_missing rc) digests"

definition public_get ::
  "'l http_lib_scheme \<Rightarrow> roastery_client \<Rightarrow> string \<Rightarrow> (bytes \<Rightarrow> ('b, string) result) \<Rightarrow> (string \<Rightarrow> response_reason) \<Rightarrow>
   ('a net_world_scheme, 'b, client_error) io" where
  "public_get lib rc path parse bad =
     io_bind (io_lift (endpoint lib rc path)) (\<lambda>url.
     io_bind (io_lift (request lib rc GET url False)) (\<lambda>rq.
     io_bind (send lib rq) (\<lambda>resp.
     io_lift (rbind (check_status lib resp) (\<lambda>resp.
       case rp_body resp of
         Inl e \<Rightarrow> Inl (BadResponse (bad (case e of HttpTimeout t \<Rightarrow> t | HttpConnect t \<Rightarrow> t | HttpOther t \<Rightarrow> t)))
       | Inr body \<Rightarrow> map_err (\<lambda>e. BadResponse (bad e)) (parse body))))))"

definition health where
  "health lib rc = public_get lib rc ''v1/health'' (hl_health_json lib) HealthJson"

definition capabilities where
  "capabilities lib rc = public_get lib rc ''v1/capabilities'' (hl_capabilities_json lib) CapabilitiesJson"

end
