(* ===== verification/PomRaw.thy ===== *)
theory PomRaw
  imports Prelude
begin

text \<open>
  The raw POM model (\<open>crates/barista-pom/src/raw.rs\<close>): one record per struct of the data
  model, one field per field. The reader that fills it is in \<open>PomParse\<close>. \<open>IndexMap\<close>
  fields are insertion-ordered association lists.
\<close>

datatype xml_value =
  XmlValue (xv_attributes: "(string \<times> string) list") (xv_text: "string option")
    (xv_children: "(string \<times> xml_value list) list")

record raw_parent =
  par_group_id :: string
  par_artifact_id :: string
  par_version :: string
  par_relative_path :: "string option"

record raw_exclusion =
  exc_group_id :: string
  exc_artifact_id :: string

record raw_dependency =
  dep_group_id :: string
  dep_artifact_id :: string
  dep_version :: "string option"
  dep_scope :: "string option"
  dep_classifier :: "string option"
  dep_type :: "string option"
  dep_system_path :: "string option"
  dep_optional :: "string option"
  dep_exclusions :: "raw_exclusion list"

record raw_resource =
  rsc_directory :: "string option"
  rsc_target_path :: "string option"
  rsc_filtering :: "string option"
  rsc_includes :: "string list"
  rsc_excludes :: "string list"

record raw_plugin_execution =
  exe_id :: "string option"
  exe_phase :: "string option"
  exe_inherited :: "string option"
  exe_goals :: "string list"
  exe_configuration :: "xml_value option"

record raw_plugin =
  plg_group_id :: string
  plg_artifact_id :: string
  plg_version :: "string option"
  plg_inherited :: "string option"
  plg_extensions :: "string option"
  plg_configuration :: "xml_value option"
  plg_dependencies :: "raw_dependency list"
  plg_executions :: "raw_plugin_execution list"

record raw_build =
  bld_source_directory :: "string option"
  bld_script_source_directory :: "string option"
  bld_test_source_directory :: "string option"
  bld_output_directory :: "string option"
  bld_test_output_directory :: "string option"
  bld_final_name :: "string option"
  bld_default_goal :: "string option"
  bld_directory :: "string option"
  bld_filters :: "string list"
  bld_resources :: "raw_resource list"
  bld_test_resources :: "raw_resource list"
  bld_plugins :: "raw_plugin list"
  bld_plugin_management :: "raw_plugin list option"

record raw_activation_property =
  ap_name :: "string option"
  ap_value :: "string option"

record raw_activation_file =
  af_exists :: "string option"
  af_missing :: "string option"

record raw_activation =
  act_active_by_default :: "string option"
  act_jdk :: "string option"
  act_os :: "xml_value option"
  act_property :: "raw_activation_property option"
  act_file :: "raw_activation_file option"

record raw_repository_policy =
  pol_enabled :: "string option"
  pol_update_policy :: "string option"
  pol_checksum_policy :: "string option"

record raw_repository =
  repo_id :: "string option"
  repo_name :: "string option"
  repo_url :: "string option"
  repo_layout :: "string option"
  repo_releases :: "raw_repository_policy option"
  repo_snapshots :: "raw_repository_policy option"

type_synonym properties = "(string, string) index_map"

text \<open>\<open>DependencyManagement\<close> and \<open>RawPluginManagement\<close> are structs with a single vector field;
  they are represented by that vector.\<close>

record raw_profile =
  prf_id :: "string option"
  prf_activation :: "raw_activation option"
  prf_properties :: properties
  prf_dependencies :: "raw_dependency list"
  prf_dependency_management :: "raw_dependency list option"
  prf_modules :: "string list"
  prf_build :: "raw_build option"
  prf_repositories :: "raw_repository list"
  prf_plugin_repositories :: "raw_repository list"

record raw_pom =
  pom_model_version :: string
  pom_parent :: "raw_parent option"
  pom_group_id :: "string option"
  pom_artifact_id :: string
  pom_version :: "string option"
  pom_packaging :: string
  pom_name :: "string option"
  pom_description :: "string option"
  pom_url :: "string option"
  pom_inception_year :: "string option"
  pom_properties :: properties
  pom_dependency_management :: "raw_dependency list option"
  pom_dependencies :: "raw_dependency list"
  pom_modules :: "string list"
  pom_build :: "raw_build option"
  pom_profiles :: "raw_profile list"
  pom_repositories :: "raw_repository list"
  pom_plugin_repositories :: "raw_repository list"

text \<open>The derived \<open>Default\<close> instances.\<close>

definition default_pom :: raw_pom where
  "default_pom = \<lparr>pom_model_version = [], pom_parent = None, pom_group_id = None,
     pom_artifact_id = [], pom_version = None, pom_packaging = [], pom_name = None,
     pom_description = None, pom_url = None, pom_inception_year = None, pom_properties = [],
     pom_dependency_management = None, pom_dependencies = [], pom_modules = [], pom_build = None,
     pom_profiles = [], pom_repositories = [], pom_plugin_repositories = []\<rparr>"

definition default_build :: raw_build where
  "default_build = \<lparr>bld_source_directory = None, bld_script_source_directory = None,
     bld_test_source_directory = None, bld_output_directory = None,
     bld_test_output_directory = None, bld_final_name = None, bld_default_goal = None,
     bld_directory = None, bld_filters = [], bld_resources = [], bld_test_resources = [],
     bld_plugins = [], bld_plugin_management = None\<rparr>"

definition default_dependency :: raw_dependency where
  "default_dependency = \<lparr>dep_group_id = [], dep_artifact_id = [], dep_version = None,
     dep_scope = None, dep_classifier = None, dep_type = None, dep_system_path = None,
     dep_optional = None, dep_exclusions = []\<rparr>"

end
