(* ===== verification/LockFile.thy ===== *)
theory LockFile
  imports LockTime RoasteryClient PomRaw "HOL-Library.Multiset"
begin

text \<open>
  The lockfile (\<open>crates/barista-lockfile/src\<close>): its schema, reading and writing (\<open>schema.rs\<close>),
  the project signature (\<open>signature.rs\<close>) and the validation modes (\<open>mode.rs\<close>).

  The TOML form of a lockfile (\<open>toml\<close> with the derived serde instances) and the bincode form
  of a POM are parameters; so is SHA-256. Writing goes through the faulty file system of
  \<open>FileSys\<close>. A path is a string without a trailing slash.
\<close>

section \<open>Schema\<close>

definition LOCKFILE_SCHEMA_VERSION :: nat where
  "LOCKFILE_SCHEMA_VERSION = 1"

record lock_meta =
  mt_schema_version :: nat
  mt_generated_by :: string
  mt_generated_at :: string
  mt_project_signature :: string
  mt_settings_fingerprint :: string

record reactor_entry =
  re_coords :: string
  re_version :: string
  re_relative_path :: string

record lock_exclusion =
  lx_group :: string
  lx_artifact :: string

record lockfile_entry =
  lfe_coords :: string
  lfe_version :: string
  lfe_scope :: string
  lfe_optional :: bool
  lfe_sha256 :: string
  lfe_sha1 :: "string option"
  lfe_size_bytes :: nat
  lfe_source_url :: string
  lfe_etag :: "string option"
  lfe_last_modified :: "string option"
  lfe_classifier :: "string option"
  lfe_type :: string
  lfe_from_path :: "string list"
  lfe_depth :: nat
  lfe_snapshot_resolution :: "string option"
  lfe_exclusions :: "lock_exclusion list"

record mirror_ref =
  mr_id :: string
  mr_url :: string
  mr_mirror_of :: string

record repository_ref =
  rr_id :: string
  rr_url :: string

record settings_snapshot =
  ss_mirrors :: "mirror_ref list"
  ss_repositories :: "repository_ref list"

record lockfile =
  lf_meta :: lock_meta
  lf_reactor :: "reactor_entry list"
  lf_entries :: "lockfile_entry list"
  lf_settings_snapshot :: "settings_snapshot option"

datatype lockfile_error =
    TomlParse string
  | TomlSerialize string
  | LfIo string io_error
  | UnsupportedVersion nat nat

record toml_lib =
  tl_from_str :: "string \<Rightarrow> (lockfile, string) result"
  tl_to_string_pretty :: "lockfile \<Rightarrow> (string, string) result"

section \<open>Reading and writing\<close>

text \<open>\<open>pkg_version\<close> is the version of the build, \<open>secs\<close> the wall clock.\<close>

definition lockfile_new :: "string \<Rightarrow> nat \<Rightarrow> string \<Rightarrow> string \<Rightarrow> lockfile" where
  "lockfile_new pkg_version secs project_signature settings_fingerprint =
     \<lparr>lf_meta = \<lparr>mt_schema_version = LOCKFILE_SCHEMA_VERSION, mt_generated_by = ''barista '' @ pkg_version,
        mt_generated_at = epoch_to_rfc3339 secs, mt_project_signature = project_signature,
        mt_settings_fingerprint = settings_fingerprint\<rparr>,
      lf_reactor = [], lf_entries = [], lf_settings_snapshot = None\<rparr>"

definition from_toml :: "toml_lib \<Rightarrow> string \<Rightarrow> (lockfile, lockfile_error) result" where
  "from_toml tom s =
     rbind (map_err TomlParse (tl_from_str tom s)) (\<lambda>lf.
     if mt_schema_version (lf_meta lf) \<noteq> LOCKFILE_SCHEMA_VERSION
     then Inl (UnsupportedVersion (mt_schema_version (lf_meta lf)) LOCKFILE_SCHEMA_VERSION)
     else Inr lf)"

definition to_toml :: "toml_lib \<Rightarrow> lockfile \<Rightarrow> (string, lockfile_error) result" where
  "to_toml tom lf = map_err TomlSerialize (tl_to_string_pretty tom lf)"

text \<open>\<open>std::fs::read_to_string\<close>: the bytes must be UTF-8.\<close>

definition valid_utf8 :: "string \<Rightarrow> bool" where
  "valid_utf8 s \<longleftrightarrow> utf8_lossy (str_bytes s) = s"

definition read_to_string :: "string \<Rightarrow> ('a world_scheme, string, io_error) io" where
  "read_to_string p =
     io_bind (sys_read_file p) (\<lambda>bs.
     let s = map (\<lambda>b. char_of (unat b)) bs in
     if valid_utf8 s then io_return s else io_fail (OtherIo ''stream did not contain valid UTF-8''))"

definition lockfile_read :: "toml_lib \<Rightarrow> string \<Rightarrow> ('a world_scheme, lockfile, lockfile_error) io" where
  "lockfile_read tom p =
     io_bind (io_map_err (LfIo p) (read_to_string p)) (\<lambda>s. io_lift (from_toml tom s))"

definition path_dir :: "string \<Rightarrow> string" where
  "path_dir p = rev (dropWhile (\<lambda>c. c \<noteq> CHR ''/'') (rev p))"

definition path_file_name :: "string \<Rightarrow> string" where
  "path_file_name p = rev (takeWhile (\<lambda>c. c \<noteq> CHR ''/'') (rev p))"

text \<open>The temporary file beside the lockfile; \<open>pid\<close> and \<open>nanos\<close> are the process id and the
  clock in nanoseconds.\<close>

definition lock_tmp :: "nat \<Rightarrow> nat \<Rightarrow> string \<Rightarrow> string" where
  "lock_tmp pid nanos p =
     (let name = (if path_file_name p \<in> {[], ''..''} then ''barista.lock'' else path_file_name p) in
      path_dir p @ ''.'' @ name @ ''.tmp-'' @ show_nat pid @ ''-'' @ show_nat nanos)"

definition lockfile_write :: "toml_lib \<Rightarrow> nat \<Rightarrow> nat \<Rightarrow> lockfile \<Rightarrow> string \<Rightarrow> ('a world_scheme, unit, lockfile_error) io" where
  "lockfile_write tom pid nanos lf p =
     (let tmp = lock_tmp pid nanos p in
      io_bind (io_lift (to_toml tom lf)) (\<lambda>toml_str.
      io_bind (io_map_err (LfIo tmp) (sys_open_truncate tmp)) (\<lambda>_.
      io_bind (io_map_err (LfIo tmp) (sys_write tmp (str_bytes toml_str))) (\<lambda>_.
      io_bind (io_map_err (LfIo tmp) sys_nop) (\<lambda>_.
      io_map_err (LfIo p) (sys_rename tmp p))))))"

section \<open>Signature\<close>

record reactor_module =
  rm_group_id :: string
  rm_artifact_id :: string
  rm_pom :: raw_pom

definition module_sort_key :: "reactor_module \<Rightarrow> string" where
  "module_sort_key m = rm_group_id m @ '':'' @ rm_artifact_id m"

text \<open>Each encoded POM is prefixed with its length as a \<open>u32\<close>.\<close>

fun hashed_stream :: "(raw_pom \<Rightarrow> (bytes, string) result) \<Rightarrow> reactor_module list \<Rightarrow> (bytes, string) result" where
  "hashed_stream enc [] = Inr []"
| "hashed_stream enc (m # ms) =
     rbind (enc (rm_pom m)) (\<lambda>bs. rbind (hashed_stream enc ms) (\<lambda>rest. Inr (to_le_bytes (word_of_nat (length bs)) @ bs @ rest)))"

definition compute_signature ::
  "(bytes \<Rightarrow> bytes) \<Rightarrow> (raw_pom \<Rightarrow> (bytes, string) result) \<Rightarrow> reactor_module list \<Rightarrow> (string, string) result" where
  "compute_signature sha enc modules =
     rbind (hashed_stream enc (sort_key module_sort_key modules)) (\<lambda>bs. Inr (to_hex (sha bs)))"

section \<open>Validation modes\<close>

datatype validation_mode = DefaultMode | Frozen | Update

datatype validation_outcome = Authoritative | Stale string string | Missing

datatype validation_error = StaleError string string

definition validate :: "validation_mode \<Rightarrow> lockfile option \<Rightarrow> string \<Rightarrow> validation_outcome" where
  "validate mode on_disk computed_signature =
     (case (mode, on_disk) of
        (Update, _) \<Rightarrow> Missing
      | (_, None) \<Rightarrow> Missing
      | (_, Some lf) \<Rightarrow>
          if mt_project_signature (lf_meta lf) = computed_signature then Authoritative
          else Stale (mt_project_signature (lf_meta lf)) computed_signature)"

definition validate_strict ::
  "validation_mode \<Rightarrow> lockfile option \<Rightarrow> string \<Rightarrow> (validation_outcome, validation_error) result" where
  "validate_strict mode on_disk computed_signature =
     (case (mode, validate mode on_disk computed_signature) of
        (Frozen, Stale a b) \<Rightarrow> Inl (StaleError a b)
      | (_, outcome) \<Rightarrow> Inr outcome)"

section \<open>Writing is atomic\<close>

lemma path_split: "path_dir p @ path_file_name p = p"
  unfolding path_dir_def path_file_name_def by (metis rev_append rev_rev_ident takeWhile_dropWhile_id)

lemma lock_tmp_neq [simp]: "lock_tmp pid nanos p \<noteq> p" "p \<noteq> lock_tmp pid nanos p"
proof -
  have "length p < length (lock_tmp pid nanos p)"
    unfolding lock_tmp_def Let_def by (subst path_split [symmetric]) auto
  then show "lock_tmp pid nanos p \<noteq> p" "p \<noteq> lock_tmp pid nanos p" by auto
qed

text \<open>What a lockfile needs to be read back: the law of the TOML form, and the schema version of
  this build.\<close>

definition toml_faithful :: "toml_lib \<Rightarrow> lockfile \<Rightarrow> string \<Rightarrow> bool" where
  "toml_faithful tom lf s \<longleftrightarrow> tl_to_string_pretty tom lf = Inr s \<and> tl_from_str tom s = Inr lf \<and> valid_utf8 s \<and>
     mt_schema_version (lf_meta lf) = LOCKFILE_SCHEMA_VERSION"

lemma lockfile_write_wp:
  assumes "tl_to_string_pretty tom lf = Inr s"
  shows "wp (lockfile_write tom pid nanos lf p)
    (\<lambda>_ w'. fs_read (wd_fs w') = (fs_read (wd_fs w))(p \<mapsto> str_bytes s, lock_tmp pid nanos p := None))
    (\<lambda>_ w'. \<forall>q. q \<noteq> lock_tmp pid nanos p \<longrightarrow> fs_read (wd_fs w') q = fs_read (wd_fs w) q) w"
  using assms
  by (auto simp: lockfile_write_def to_toml_def map_err_def Let_def sys_open_truncate_def sys_nop_def sys_pure_def sys_rename_def
      wp_simps ticked_def fs_append_def fs_read_def im.get_put fs_set_def fun_eq_iff split: option.split)

lemma map_char_of_str_bytes [simp]: "map (\<lambda>b. char_of (unat b)) (str_bytes s) = s"
proof -
  have "char_of (unat (word_of_nat (byte_of c) :: byte)) = c" for c
    by (simp add: byte_of_def unat_of_nat take_bit_nat_eq_self)
  then show ?thesis by (simp add: str_bytes_def map_idI)
qed

lemma lockfile_read_back:
  assumes "toml_faithful tom lf s" "fs_read (wd_fs w) p = Some (str_bytes s)" "quiet w"
  shows "fst (lockfile_read tom p w) = Inr lf"
proof -
  have "wp (lockfile_read tom p) (\<lambda>r _. r = lf) (\<lambda>_ _. False) w"
    using assms by (simp add: toml_faithful_def lockfile_read_def read_to_string_def sys_read_file_def sys_pure_def wp_simps
        quiet_def from_toml_def Let_def)
  then show ?thesis by (auto simp: wp_def split: prod.splits sum.splits)
qed

text \<open>C36. Writing a lockfile is atomic under every schedule of I/O errors and kills: an error leaves
  the old contents at the path, success leaves a file from which a later start reads exactly the
  lockfile written, and no file but the temporary one beside it is touched.\<close>

theorem lockfile_write_atomic:
  assumes "toml_faithful tom lf s" "lockfile_write tom pid nanos lf p w = (res, w')"
  shows "(case res of Inl _ \<Rightarrow> fs_read (wd_fs w') p = fs_read (wd_fs w) p
      | Inr _ \<Rightarrow> fst (lockfile_read tom p (w'\<lparr>wd_faults := \<lambda>_. None\<rparr>)) = Inr lf) \<and>
    (\<forall>q. q \<notin> {p, lock_tmp pid nanos p} \<longrightarrow> fs_read (wd_fs w') q = fs_read (wd_fs w) q)"
proof -
  have s: "tl_to_string_pretty tom lf = Inr s" using assms(1) by (simp add: toml_faithful_def)
  from wp_run [OF lockfile_write_wp [OF s] assms(2)] show ?thesis
    using lockfile_read_back [OF assms(1), where p = p and w = "w'\<lparr>wd_faults := \<lambda>_. None\<rparr>"]
    by (auto simp: quiet_def split: sum.splits)
qed

section \<open>The signature\<close>

text \<open>The signature does not depend on the order in which the modules of a reactor are listed,
  when their coordinates are distinct.\<close>

lemma signature_order:
  assumes "mset ms = mset ms'" "distinct (map module_sort_key ms)"
  shows "compute_signature sha enc ms = compute_signature sha enc ms'"
proof -
  have "inj_on module_sort_key (set ms)" using assms(2) by (simp add: distinct_map)
  then have "sort_key module_sort_key ms = sort_key module_sort_key ms'"
    using assms(1) by (intro sort_key_inj_key_eq) (auto simp: assms(1))
  then show ?thesis by (simp add: compute_signature_def)
qed

text \<open>The length prefixes make the hashed bytes determine the encodings.\<close>

lemma hashed_stream_inj:
  assumes "hashed_stream enc ms = Inr b" "hashed_stream enc ms' = Inr b"
    "\<And>m bs. m \<in> set (ms @ ms') \<Longrightarrow> enc (rm_pom m) = Inr bs \<Longrightarrow> length bs < 2 ^ 32"
  shows "map (\<lambda>m. enc (rm_pom m)) ms = map (\<lambda>m. enc (rm_pom m)) ms'"
  using assms
proof (induction ms arbitrary: ms' b)
  case Nil
  then show ?case by (cases ms') (auto simp: rbind_def to_le_bytes_eq split: sum.splits)
next
  case (Cons m ms)
  obtain bs rest where m: "enc (rm_pom m) = Inr bs" "hashed_stream enc ms = Inr rest"
    "b = to_le_bytes (word_of_nat (length bs)) @ bs @ rest"
    using Cons.prems(1) by (auto simp: rbind_def split: sum.splits)
  obtain m' ms'' where ms': "ms' = m' # ms''"
    using Cons.prems(2) m(3) by (cases ms') (auto simp: to_le_bytes_eq)
  obtain bs' rest' where m': "enc (rm_pom m') = Inr bs'" "hashed_stream enc ms'' = Inr rest'"
    "b = to_le_bytes (word_of_nat (length bs')) @ bs' @ rest'"
    using Cons.prems(2) ms' by (auto simp: rbind_def split: sum.splits)
  have "length bs < 2 ^ 32" "length bs' < 2 ^ 32" using Cons.prems(3) m(1) m'(1) ms' by auto
  moreover have "to_le_bytes (word_of_nat (length bs)) = to_le_bytes (word_of_nat (length bs'))" "bs @ rest = bs' @ rest'"
    using m(3) m'(3) by simp_all
  then have "(word_of_nat (length bs) :: 32 word) = word_of_nat (length bs')" by (metis from_to_le_bytes)
  moreover have "unat (word_of_nat n :: 32 word) = n" if "n < 2 ^ 32" for n
    using that by (simp add: unat_of_nat take_bit_nat_eq_self)
  ultimately have "length bs = length bs'" by metis
  with \<open>bs @ rest = bs' @ rest'\<close> have "bs = bs'" "rest = rest'" by auto
  moreover have "map (\<lambda>m. enc (rm_pom m)) ms = map (\<lambda>m. enc (rm_pom m)) ms''"
  proof (rule Cons.IH [OF m(2)])
    show "hashed_stream enc ms'' = Inr rest" using m'(2) \<open>rest = rest'\<close> by simp
    show "length x < 2 ^ 32" if "k \<in> set (ms @ ms'')" "enc (rm_pom k) = Inr x" for k x
      by (rule Cons.prems(3) [OF _ that(2)]) (use that(1) ms' in auto)
  qed
  ultimately show ?case using m(1) m'(1) ms' by simp
qed

text \<open>What the signature relies on: the POM encodings are below 4 GiB, so that their 32-bit length
  prefixes do not wrap, and SHA-256 does not collide on the two byte streams. The encodings need
  not be injective, and the bincode encoding of a POM is not.\<close>

definition signature_sound ::
  "(bytes \<Rightarrow> bytes) \<Rightarrow> (raw_pom \<Rightarrow> (bytes, string) result) \<Rightarrow> reactor_module list \<Rightarrow> reactor_module list \<Rightarrow> bool" where
  "signature_sound sha enc ms ms' \<longleftrightarrow>
     (\<forall>m \<in> set (ms @ ms'). \<forall>bs. enc (rm_pom m) = Inr bs \<longrightarrow> length bs < 2 ^ 32) \<and>
     (\<forall>a b. hashed_stream enc (sort_key module_sort_key ms) = Inr a \<longrightarrow>
            hashed_stream enc (sort_key module_sort_key ms') = Inr b \<longrightarrow> sha a = sha b \<longrightarrow> a = b)"

text \<open>The encoded POMs in the canonical order of the modules' coordinates.\<close>

definition encoded_poms :: "(raw_pom \<Rightarrow> (bytes, string) result) \<Rightarrow> reactor_module list \<Rightarrow> (bytes, string) result list" where
  "encoded_poms enc ms = map (\<lambda>m. enc (rm_pom m)) (sort_key module_sort_key ms)"

lemma hashed_stream_cong:
  "map (\<lambda>m. enc (rm_pom m)) ms = map (\<lambda>m. enc (rm_pom m)) ms' \<Longrightarrow> hashed_stream enc ms = hashed_stream enc ms'"
proof (induction ms arbitrary: ms')
  case (Cons m ms)
  then obtain m' ms'' where "ms' = m' # ms''" by (cases ms') auto
  with Cons show ?case by fastforce
qed simp

lemma signature_iff:
  assumes "signature_sound sha enc ms ms'" "compute_signature sha enc ms = Inr x" "compute_signature sha enc ms' = Inr x'"
  shows "x = x' \<longleftrightarrow> encoded_poms enc ms = encoded_poms enc ms'"
proof -
  let ?k = "sort_key module_sort_key"
  obtain a b where ab: "hashed_stream enc (?k ms) = Inr a" "hashed_stream enc (?k ms') = Inr b" "x = to_hex (sha a)" "x' = to_hex (sha b)"
    using assms(2,3) by (auto simp: compute_signature_def rbind_def split: sum.splits)
  show ?thesis
  proof
    assume "x = x'"
    then have "sha a = sha b" using ab by (simp add: to_hex_inj)
    then have "a = b" using ab(1,2) assms(1) unfolding signature_sound_def by blast
    then show "encoded_poms enc ms = encoded_poms enc ms'"
      unfolding encoded_poms_def
      using ab(1,2) by (rule_tac hashed_stream_inj [of enc _ a]) (use assms(1) in \<open>simp_all add: signature_sound_def\<close>)
  next
    assume "encoded_poms enc ms = encoded_poms enc ms'"
    from hashed_stream_cong [OF this [unfolded encoded_poms_def]] show "x = x'" using ab by simp
  qed
qed

text \<open>C37. For POM encodings below 4 GiB and a SHA-256 that does not collide on the two byte streams,
  the frozen mode accepts a lockfile exactly when the encoded POMs of the reactor, in the canonical
  order of the modules' coordinates, are those the lockfile was made from, and reports it as stale
  otherwise; unchanged POMs are therefore always accepted, and POMs that differ are told apart as
  far as their encodings differ. Listing the modules in another order changes nothing.\<close>

theorem frozen_gate:
  assumes "signature_sound sha enc ms ms'" "compute_signature sha enc ms = Inr x" "compute_signature sha enc ms' = Inr x'"
    "mt_project_signature (lf_meta lf) = x"
  shows "validate_strict Frozen (Some lf) x' =
      (if encoded_poms enc ms = encoded_poms enc ms' then Inr Authoritative else Inl (StaleError x x')) \<and>
    (\<forall>ms''. mset ms'' = mset ms' \<and> distinct (map module_sort_key ms') \<longrightarrow> compute_signature sha enc ms'' = Inr x')"
proof
  show "validate_strict Frozen (Some lf) x' =
      (if encoded_poms enc ms = encoded_poms enc ms' then Inr Authoritative else Inl (StaleError x x'))"
    using signature_iff [OF assms(1-3)] assms(4) by (simp add: validate_strict_def validate_def)
  show "\<forall>ms''. mset ms'' = mset ms' \<and> distinct (map module_sort_key ms') \<longrightarrow> compute_signature sha enc ms'' = Inr x'"
    using signature_order [of ms' _ sha enc] assms(3) by metis
qed

section \<open>An example\<close>

definition demo_module :: "string \<Rightarrow> reactor_module" where
  "demo_module a = \<lparr>rm_group_id = ''g'', rm_artifact_id = a, rm_pom = default_pom\<lparr>pom_artifact_id := a\<rparr>\<rparr>"

definition demo_encode :: "raw_pom \<Rightarrow> (bytes, string) result" where
  "demo_encode p = Inr (str_bytes (pom_artifact_id p))"

lemma demo_sound: "signature_sound id demo_encode [demo_module ''a''] [demo_module ''b'', demo_module ''a'']"
  by (simp add: signature_sound_def demo_module_def demo_encode_def str_bytes_def byte_of_def)

theorem frozen_gate_witness:
  "\<exists>x x'. compute_signature id demo_encode [demo_module ''a''] = Inr x \<and>
     compute_signature id demo_encode [demo_module ''b'', demo_module ''a''] = Inr x' \<and>
     validate_strict Frozen (Some (lockfile_new ''0.1.0'' 0 x [])) x' = Inl (StaleError x x')"
proof -
  obtain x x' where s: "compute_signature id demo_encode [demo_module ''a''] = Inr x"
    "compute_signature id demo_encode [demo_module ''b'', demo_module ''a''] = Inr x'"
    by (simp add: compute_signature_def demo_encode_def demo_module_def module_sort_key_def)
  have l: "mt_project_signature (lf_meta (lockfile_new ''0.1.0'' 0 x [])) = x" by (simp add: lockfile_new_def)
  from frozen_gate [OF demo_sound s l] s show ?thesis by (auto simp: encoded_poms_def dest: map_eq_imp_length_eq)
qed

definition demo_lock :: lockfile where
  "demo_lock = lockfile_new ''0.1.0'' 0 ''s'' []"

definition demo_toml :: toml_lib where
  "demo_toml = \<lparr>tl_from_str = (\<lambda>_. Inr demo_lock), tl_to_string_pretty = (\<lambda>_. Inr ''toml'')\<rparr>"

definition demo_disk :: world where
  "demo_disk = \<lparr>wd_fs = [(''p/barista.lock'', File 1 [7])], wd_calls = 0, wd_clock = 0,
     wd_faults = (\<lambda>n. if n = 1 then Some (OtherIo ''disk full'', 2) else None), wd_lag = (\<lambda>_. 0), wd_tmp_counter = 0, wd_thread = 0\<rparr>"

lemma demo_toml_faithful: "toml_faithful demo_toml demo_lock ''toml''"
proof -
  have "valid_utf8 ''toml''"
    by (simp add: valid_utf8_def utf8_lossy_def str_bytes_def byte_of_def utf8_chunks.simps utf8_step_def char_of_def bit_0)
  then show ?thesis by (simp add: toml_faithful_def demo_toml_def demo_lock_def lockfile_new_def)
qed

theorem lockfile_write_atomic_witness:
  "\<exists>e w'. lockfile_write demo_toml 1 2 demo_lock ''p/barista.lock'' demo_disk = (Inl e, w') \<and>
     fs_read (wd_fs w') ''p/barista.lock'' = Some [7]"
proof -
  obtain e w' where r: "lockfile_write demo_toml 1 2 demo_lock ''p/barista.lock'' demo_disk = (Inl e, w')"
    by (simp add: lockfile_write_def Let_def to_toml_def demo_toml_def io_bind_def io_lift_def io_map_err_def sys_open_truncate_def
        syscall_def sys_write_def sys_write_part_def demo_disk_def map_err_def)
  from lockfile_write_atomic [OF demo_toml_faithful r] have "fs_read (wd_fs w') ''p/barista.lock'' = Some [7]"
    by (simp add: demo_disk_def fs_read_def im_get_def)
  with r show ?thesis by blast
qed

end
