(* ===== verification/LockDiff.thy ===== *)
theory LockDiff
  imports LockFile
begin

text \<open>
  The semantic lockfile diff (\<open>crates/barista-lockfile/src/diff.rs\<close>).

  The three index loops over the left entries visit them in order and remove matched ones; each
  is the recursion \<open>pair_off\<close> over the entries not yet visited. A \<open>BTreeMap\<close> of groups is an
  index map read at the sorted keys. The theorems show that the diff accounts for every entry
  of both sides.
\<close>

section \<open>Entries\<close>

record lock_entry =
  le_group_id :: string
  le_artifact_id :: string
  le_version :: string
  le_scope :: string
  le_classifier :: "string option"
  le_type :: string

definition coords_key :: "lock_entry \<Rightarrow> string" where
  "coords_key e = le_group_id e @ '':'' @ le_artifact_id e @ '':'' @ le_type e @
     (case le_classifier e of None \<Rightarrow> [] | Some c \<Rightarrow> '':'' @ c)"

definition entry_ga :: "lock_entry \<Rightarrow> string" where
  "entry_ga e = le_group_id e @ '':'' @ le_artifact_id e"

text \<open>A coordinate without a colon is an artifact with an empty group.\<close>

definition parse_coords :: "string \<Rightarrow> string \<times> string" where
  "parse_coords s = (case split_once (CHR '':'') s of Some ga \<Rightarrow> ga | None \<Rightarrow> ([], s))"

definition from_lockfile_entry :: "lockfile_entry \<Rightarrow> lock_entry" where
  "from_lockfile_entry e =
     (case parse_coords (lfe_coords e) of (g, a) \<Rightarrow>
        \<lparr>le_group_id = g, le_artifact_id = a, le_version = lfe_version e, le_scope = lfe_scope e,
         le_classifier = lfe_classifier e, le_type = lfe_type e\<rparr>)"

definition display_coords :: "lock_entry \<Rightarrow> string" where
  "display_coords e = le_group_id e @ '':'' @ le_artifact_id e @
     (if le_type e \<noteq> ''jar'' then '':'' @ le_type e else []) @
     (case le_classifier e of
        None \<Rightarrow> []
      | Some cls \<Rightarrow> (if le_type e = ''jar'' then '':jar'' else []) @ '':'' @ cls)"

record value_change =
  vc_coords :: string
  vc_from :: string
  vc_to :: string

record lock_diff =
  ld_added :: "lock_entry list"
  ld_removed :: "lock_entry list"
  ld_upgraded :: "value_change list"
  ld_downgraded :: "value_change list"
  ld_rescoped :: "value_change list"
  ld_reclassified :: "value_change list"

definition empty_diff :: lock_diff where
  "empty_diff = \<lparr>ld_added = [], ld_removed = [], ld_upgraded = [], ld_downgraded = [], ld_rescoped = [], ld_reclassified = []\<rparr>"

definition change_count :: "lock_diff \<Rightarrow> nat" where
  "change_count d = length (ld_added d) + length (ld_removed d) + length (ld_upgraded d) +
     length (ld_downgraded d) + length (ld_rescoped d) + length (ld_reclassified d)"

definition diff_is_empty :: "lock_diff \<Rightarrow> bool" where
  "diff_is_empty d \<longleftrightarrow> change_count d = 0"

section \<open>The diff\<close>

fun compare_parts :: "string list \<Rightarrow> string list \<Rightarrow> ordering" where
  "compare_parts [] [] = Equal"
| "compare_parts as bs =
     (let pa = (case as of [] \<Rightarrow> ''0'' | a # _ \<Rightarrow> a);
          pb = (case bs of [] \<Rightarrow> ''0'' | b # _ \<Rightarrow> b);
          o1 = (case (parse_uint 64 pa, parse_uint 64 pb) of
                  (Some na, Some nb) \<Rightarrow> cmp_of na nb
                | _ \<Rightarrow> cmp_of pa pb)
      in if o1 \<noteq> Equal then o1 else compare_parts (tl as) (tl bs))"

definition is_version_sep :: "char \<Rightarrow> bool" where
  "is_version_sep c \<longleftrightarrow> c = CHR ''.'' \<or> c = CHR ''-''"

definition lock_compare_versions :: "string \<Rightarrow> string \<Rightarrow> ordering" where
  "lock_compare_versions a b = compare_parts (split_on is_version_sep a) (split_on is_version_sep b)"

definition short_type :: "string \<Rightarrow> string option \<Rightarrow> string" where
  "short_type ty classifier = (case classifier of Some c \<Rightarrow> ty @ '':'' @ c | None \<Rightarrow> ty)"

text \<open>The pairs found, the left entries without a partner and the right entries left over.\<close>

fun pair_off :: "('a \<Rightarrow> 'a \<Rightarrow> bool) \<Rightarrow> 'a list \<Rightarrow> 'a list \<Rightarrow> ('a \<times> 'a) list \<times> 'a list \<times> 'a list" where
  "pair_off P [] rs = ([], [], rs)"
| "pair_off P (x # xs) rs =
     (case List.extract (P x) rs of
        Some (us, y, vs) \<Rightarrow> (case pair_off P xs (us @ vs) of (ps, ls, rs') \<Rightarrow> ((x, y) # ps, ls, rs'))
      | None \<Rightarrow> (case pair_off P xs rs of (ps, ls, rs') \<Rightarrow> (ps, x # ls, rs')))"

definition same_kind :: "lock_entry \<Rightarrow> lock_entry \<Rightarrow> bool" where
  "same_kind a b \<longleftrightarrow> le_type b = le_type a \<and> le_classifier b = le_classifier a"

definition same_version :: "lock_entry \<Rightarrow> lock_entry \<Rightarrow> bool" where
  "same_version a b \<longleftrightarrow> le_version b = le_version a"

definition record_version_pair :: "lock_entry \<times> lock_entry \<Rightarrow> lock_diff \<Rightarrow> lock_diff" where
  "record_version_pair p out =
     (let le = fst p; re = snd p in
      if le_version le \<noteq> le_version re then
        (let vc = \<lparr>vc_coords = display_coords le, vc_from = le_version le, vc_to = le_version re\<rparr> in
         if lock_compare_versions (le_version le) (le_version re) = Less
         then out\<lparr>ld_upgraded := ld_upgraded out @ [vc]\<rparr>
         else out\<lparr>ld_downgraded := ld_downgraded out @ [vc]\<rparr>)
      else if le_scope le \<noteq> le_scope re then
        out\<lparr>ld_rescoped := ld_rescoped out @ [\<lparr>vc_coords = display_coords le, vc_from = le_scope le, vc_to = le_scope re\<rparr>]\<rparr>
      else out)"

definition record_type_pair :: "lock_entry \<times> lock_entry \<Rightarrow> lock_diff \<Rightarrow> lock_diff" where
  "record_type_pair p out =
     (let le = fst p; re = snd p in
      out\<lparr>ld_reclassified := ld_reclassified out @
        [\<lparr>vc_coords = le_group_id le @ '':'' @ le_artifact_id le @ '':'' @ le_version le,
          vc_from = short_type (le_type le) (le_classifier le),
          vc_to = short_type (le_type re) (le_classifier re)\<rparr>]\<rparr>)"

definition diff_group :: "lock_entry list \<Rightarrow> lock_entry list \<Rightarrow> lock_diff \<Rightarrow> lock_diff" where
  "diff_group l r out =
     (case pair_off (=) l r of (_, l1, r1) \<Rightarrow>
      case pair_off same_kind l1 r1 of (ps2, l2, r2) \<Rightarrow>
      case pair_off same_version l2 r2 of (ps3, l3, r3) \<Rightarrow>
      let out1 = fold record_version_pair ps2 out;
          out2 = fold record_type_pair ps3 out1 in
      out2\<lparr>ld_removed := ld_removed out2 @ l3, ld_added := ld_added out2 @ r3\<rparr>)"

type_synonym ga_groups = "(string, lock_entry list) index_map"

definition group_by_ga :: "lock_entry list \<Rightarrow> ga_groups" where
  "group_by_ga es = fold (\<lambda>e m. im_insert (entry_ga e)
     ((case im_get m (entry_ga e) of None \<Rightarrow> [] | Some xs \<Rightarrow> xs) @ [e]) m) es []"

definition group_at :: "ga_groups \<Rightarrow> string \<Rightarrow> lock_entry list" where
  "group_at m k = (case im_get m k of None \<Rightarrow> [] | Some xs \<Rightarrow> xs)"

definition group_by_prefix :: "value_change list \<Rightarrow> value_change list" where
  "group_by_prefix items = items"

definition sort_diff :: "lock_diff \<Rightarrow> lock_diff" where
  "sort_diff d =
     \<lparr>ld_added = sort_key coords_key (ld_added d), ld_removed = sort_key coords_key (ld_removed d),
      ld_upgraded = group_by_prefix (sort_key vc_coords (ld_upgraded d)),
      ld_downgraded = group_by_prefix (sort_key vc_coords (ld_downgraded d)),
      ld_rescoped = sort_key vc_coords (ld_rescoped d),
      ld_reclassified = sort_key vc_coords (ld_reclassified d)\<rparr>"

definition lock_diff_of :: "lock_entry list \<Rightarrow> lock_entry list \<Rightarrow> lock_diff" where
  "lock_diff_of left right =
     (let left_by_ga = group_by_ga left; right_by_ga = group_by_ga right;
          all_gas = remdups_adj (sort (im_keys left_by_ga @ im_keys right_by_ga)) in
      sort_diff (fold (\<lambda>ga. diff_group (group_at left_by_ga ga) (group_at right_by_ga ga)) all_gas empty_diff))"

definition diff_lockfiles :: "lockfile \<Rightarrow> lockfile \<Rightarrow> lock_diff" where
  "diff_lockfiles left right =
     lock_diff_of (map from_lockfile_entry (lf_entries left)) (map from_lockfile_entry (lf_entries right))"

section \<open>Rendering\<close>

definition summary_line :: "string \<Rightarrow> 'a list \<Rightarrow> string \<Rightarrow> string" where
  "summary_line mark xs what =
     (if xs = [] then [] else ''  '' @ mark @ '' '' @ show_nat (length xs) @ '' '' @ what @ [CHR 0x0A])"

definition diff_section :: "string \<Rightarrow> ('a \<Rightarrow> string) \<Rightarrow> 'a list \<Rightarrow> string" where
  "diff_section title line xs =
     (if xs = [] then [] else [CHR 0x0A] @ title @ '' ('' @ show_nat (length xs) @ ''):'' @ [CHR 0x0A] @ concat (map line xs))"

definition entry_line :: "string \<Rightarrow> lock_entry \<Rightarrow> string" where
  "entry_line mark e = ''  '' @ mark @ '' '' @ display_coords e @ '':'' @ le_version e @ '' '' @ le_scope e @ [CHR 0x0A]"

definition change_line :: "string \<Rightarrow> string \<Rightarrow> value_change \<Rightarrow> string" where
  "change_line mark sep v = ''  '' @ mark @ '' '' @ vc_coords v @ sep @ vc_from v @ '' -> '' @ vc_to v @ [CHR 0x0A]"

definition render :: "lock_diff \<Rightarrow> string" where
  "render d =
     (if diff_is_empty d then ''Lockfile diff: no changes'' @ [CHR 0x0A]
      else ''Lockfile diff: '' @ show_nat (change_count d) @ '' changes total'' @ [CHR 0x0A] @
        summary_line ''+'' (ld_added d) ''added'' @ summary_line ''-'' (ld_removed d) ''removed'' @
        summary_line ''^'' (ld_upgraded d) ''upgraded'' @ summary_line ''v'' (ld_downgraded d) ''downgraded'' @
        summary_line ''>'' (ld_rescoped d) ''re-scoped'' @ summary_line ''*'' (ld_reclassified d) ''re-classified'' @
        diff_section ''Added'' (entry_line ''+'') (ld_added d) @
        diff_section ''Removed'' (entry_line ''-'') (ld_removed d) @
        diff_section ''Upgraded'' (change_line ''^'' '':'') (ld_upgraded d) @
        diff_section ''Downgraded'' (change_line ''v'' '':'') (ld_downgraded d) @
        diff_section ''Re-scoped'' (change_line ''>'' '' '') (ld_rescoped d) @
        diff_section ''Re-classified'' (change_line ''*'' '' '') (ld_reclassified d))"

section \<open>Pairing\<close>

lemma pair_off_mset:
  "pair_off P xs rs = (ps, ls, rs') \<Longrightarrow>
     mset xs = mset (map fst ps) + mset ls \<and> mset rs = mset (map snd ps) + mset rs'"
proof (induction P xs rs arbitrary: ps ls rs' rule: pair_off.induct)
  case (2 P x xs rs)
  then show ?case by (fastforce split: option.splits prod.splits dest: extract_SomeE)
qed simp

lemma pair_off_related: "pair_off P xs rs = (ps, ls, rs') \<Longrightarrow> (x, y) \<in> set ps \<Longrightarrow> P x y"
proof (induction P xs rs arbitrary: ps ls rs' rule: pair_off.induct)
  case (2 P x xs rs)
  then show ?case by (fastforce split: option.splits prod.splits dest: extract_SomeE)
qed simp

lemma pair_off_rest: "pair_off P xs rs = (ps, ls, rs') \<Longrightarrow> x \<in> set ls \<Longrightarrow> y \<in> set rs' \<Longrightarrow> \<not> P x y"
proof (induction P xs rs arbitrary: ps ls rs' rule: pair_off.induct)
  case (2 P x' xs rs)
  show ?case
  proof (cases "List.extract (P x') rs")
    case None
    obtain ls0 where r: "pair_off P xs rs = (ps, ls0, rs')" "ls = x' # ls0"
      using 2(3) None by (auto split: prod.splits)
    have "set rs' \<subseteq> set rs" using pair_off_mset [OF r(1)] by (metis mset_subset_eq_add_right set_mset_mono set_mset_mset)
    then show ?thesis using 2 None r by (auto simp: extract_None_iff)
  next
    case (Some t)
    then show ?thesis using 2 by (cases t) (auto split: prod.splits)
  qed
qed simp

section \<open>What a diff accounts for\<close>

definition version_change :: "lock_entry \<times> lock_entry \<Rightarrow> value_change" where
  "version_change p = \<lparr>vc_coords = display_coords (fst p), vc_from = le_version (fst p), vc_to = le_version (snd p)\<rparr>"

definition scope_change :: "lock_entry \<times> lock_entry \<Rightarrow> value_change" where
  "scope_change p = \<lparr>vc_coords = display_coords (fst p), vc_from = le_scope (fst p), vc_to = le_scope (snd p)\<rparr>"

definition type_change :: "lock_entry \<times> lock_entry \<Rightarrow> value_change" where
  "type_change p =
     \<lparr>vc_coords = le_group_id (fst p) @ '':'' @ le_artifact_id (fst p) @ '':'' @ le_version (fst p),
      vc_from = short_type (le_type (fst p)) (le_classifier (fst p)),
      vc_to = short_type (le_type (snd p)) (le_classifier (snd p))\<rparr>"

abbreviation bumped :: "lock_entry \<times> lock_entry \<Rightarrow> bool" where
  "bumped p \<equiv> le_version (fst p) \<noteq> le_version (snd p)"

abbreviation grown :: "lock_entry \<times> lock_entry \<Rightarrow> bool" where
  "grown p \<equiv> lock_compare_versions (le_version (fst p)) (le_version (snd p)) = Less"

text \<open>\<open>vs\<close> are the pairs that changed version or scope, \<open>ts\<close> those that changed type or classifier,
  and \<open>same\<close> the entries on both sides.\<close>

definition changes_recorded ::
  "(lock_entry \<times> lock_entry) multiset \<Rightarrow> (lock_entry \<times> lock_entry) multiset \<Rightarrow> lock_diff \<Rightarrow> bool" where
  "changes_recorded vs ts d \<longleftrightarrow>
     mset (ld_upgraded d) = image_mset version_change (filter_mset (\<lambda>p. bumped p \<and> grown p) vs) \<and>
     mset (ld_downgraded d) = image_mset version_change (filter_mset (\<lambda>p. bumped p \<and> \<not> grown p) vs) \<and>
     mset (ld_rescoped d) = image_mset scope_change (filter_mset (\<lambda>p. \<not> bumped p \<and> le_scope (fst p) \<noteq> le_scope (snd p)) vs) \<and>
     mset (ld_reclassified d) = image_mset type_change ts"

definition pair_ok :: "(lock_entry \<Rightarrow> lock_entry \<Rightarrow> bool) \<Rightarrow> lock_entry \<times> lock_entry \<Rightarrow> bool" where
  "pair_ok P p \<longleftrightarrow> entry_ga (fst p) = entry_ga (snd p) \<and> fst p \<noteq> snd p \<and> P (fst p) (snd p)"

definition accounted_by ::
  "lock_entry multiset \<Rightarrow> lock_entry multiset \<Rightarrow> lock_diff \<Rightarrow> lock_entry multiset \<Rightarrow>
   (lock_entry \<times> lock_entry) multiset \<Rightarrow> (lock_entry \<times> lock_entry) multiset \<Rightarrow> bool" where
  "accounted_by l r d same vs ts \<longleftrightarrow>
     l = same + image_mset fst vs + image_mset fst ts + mset (ld_removed d) \<and>
     r = same + image_mset snd vs + image_mset snd ts + mset (ld_added d) \<and>
     (\<forall>p \<in># vs. pair_ok same_kind p) \<and> (\<forall>p \<in># ts. pair_ok same_version p) \<and> changes_recorded vs ts d"

lemma record_version_pairs:
  assumes "changes_recorded vs ts d"
  shows "changes_recorded (vs + mset ps) ts (fold record_version_pair ps d)"
    "ld_added (fold record_version_pair ps d) = ld_added d" "ld_removed (fold record_version_pair ps d) = ld_removed d"
proof -
  have step: "changes_recorded (add_mset p vs) ts (record_version_pair p d) \<and>
      ld_added (record_version_pair p d) = ld_added d \<and> ld_removed (record_version_pair p d) = ld_removed d"
    if "changes_recorded vs ts d" for p vs d
    using that by (auto simp: changes_recorded_def record_version_pair_def Let_def version_change_def scope_change_def)
  have "changes_recorded (vs + mset ps) ts (fold record_version_pair ps d) \<and>
      ld_added (fold record_version_pair ps d) = ld_added d \<and> ld_removed (fold record_version_pair ps d) = ld_removed d"
    using assms
  proof (induction ps arbitrary: vs d)
    case (Cons p ps)
    from Cons.IH [of "add_mset p vs" "record_version_pair p d"] step [OF Cons.prems, of p] show ?case by simp
  qed simp
  then show "changes_recorded (vs + mset ps) ts (fold record_version_pair ps d)"
    "ld_added (fold record_version_pair ps d) = ld_added d" "ld_removed (fold record_version_pair ps d) = ld_removed d" by auto
qed

lemma record_type_pairs:
  assumes "changes_recorded vs ts d"
  shows "changes_recorded vs (ts + mset ps) (fold record_type_pair ps d)"
    "ld_added (fold record_type_pair ps d) = ld_added d" "ld_removed (fold record_type_pair ps d) = ld_removed d"
proof -
  have "changes_recorded vs (ts + mset ps) (fold record_type_pair ps d) \<and>
      ld_added (fold record_type_pair ps d) = ld_added d \<and> ld_removed (fold record_type_pair ps d) = ld_removed d"
    using assms
  proof (induction ps arbitrary: ts d)
    case (Cons p ps)
    have "changes_recorded vs (add_mset p ts) (record_type_pair p d)" "ld_added (record_type_pair p d) = ld_added d"
      "ld_removed (record_type_pair p d) = ld_removed d"
      using Cons.prems by (auto simp: changes_recorded_def record_type_pair_def Let_def type_change_def)
    then show ?case using Cons.IH [of "add_mset p ts" "record_type_pair p d"] by simp
  qed simp
  then show "changes_recorded vs (ts + mset ps) (fold record_type_pair ps d)"
    "ld_added (fold record_type_pair ps d) = ld_added d" "ld_removed (fold record_type_pair ps d) = ld_removed d" by auto
qed

lemma diff_group_accounts:
  assumes acc: "accounted_by l r d same vs ts" and ga: "\<forall>e \<in> set (xs @ ys). entry_ga e = k"
  shows "\<exists>same' vs' ts'. accounted_by (l + mset xs) (r + mset ys) (diff_group xs ys d) same' vs' ts'"
proof -
  obtain ps1 l1 r1 where p1: "pair_off (=) xs ys = (ps1, l1, r1)" by (cases "pair_off (=) xs ys")
  obtain ps2 l2 r2 where p2: "pair_off same_kind l1 r1 = (ps2, l2, r2)" by (cases "pair_off same_kind l1 r1")
  obtain ps3 l3 r3 where p3: "pair_off same_version l2 r2 = (ps3, l3, r3)" by (cases "pair_off same_version l2 r2")
  note m1 = pair_off_mset [OF p1] and m2 = pair_off_mset [OF p2] and m3 = pair_off_mset [OF p3]
  have "\<forall>p \<in> set ps1. snd p = fst p" using pair_off_related [OF p1] by fastforce
  then have "image_mset snd (mset ps1) = image_mset fst (mset ps1)" by (intro image_mset_cong) auto
  then have l: "mset xs = mset (map fst ps1) + mset (map fst ps2) + mset (map fst ps3) + mset l3"
    and r: "mset ys = mset (map fst ps1) + mset (map snd ps2) + mset (map snd ps3) + mset r3"
    using m1 m2 m3 by (simp_all add: ac_simps)
  have l1: "set (map fst (ps2 @ ps3)) \<subseteq> set l1 \<inter> set xs" and r1: "set (map snd (ps2 @ ps3)) \<subseteq> set r1 \<inter> set ys"
    using m1 m2 m3 by (auto simp flip: set_mset_mset)
  have ok: "entry_ga (fst p) = entry_ga (snd p) \<and> fst p \<noteq> snd p" if "p \<in> set (ps2 @ ps3)" for p
    using that l1 r1 ga pair_off_rest [OF p1, of "fst p" "snd p"] by (auto simp: subset_iff)
  have oks: "\<forall>p \<in> set ps2. pair_ok same_kind p" "\<forall>p \<in> set ps3. pair_ok same_version p"
    using ok pair_off_related [OF p2] pair_off_related [OF p3] by (auto simp: pair_ok_def)
  let ?d2 = "fold record_version_pair ps2 d" and ?d3 = "fold record_type_pair ps3 (fold record_version_pair ps2 d)"
  have c: "changes_recorded vs ts d" using acc by (simp add: accounted_by_def)
  note v = record_version_pairs [OF c, of ps2]
  note t = record_type_pairs [OF v(1), of ps3]
  have g: "diff_group xs ys d = ?d3\<lparr>ld_removed := ld_removed ?d3 @ l3, ld_added := ld_added ?d3 @ r3\<rparr>"
    by (simp add: diff_group_def p1 p2 p3 Let_def)
  have "changes_recorded (vs + mset ps2) (ts + mset ps3) (diff_group xs ys d)"
    using t(1) unfolding g by (simp add: changes_recorded_def)
  then have "accounted_by (l + mset xs) (r + mset ys) (diff_group xs ys d)
      (same + mset (map fst ps1)) (vs + mset ps2) (ts + mset ps3)"
    using acc oks l r by (auto simp: accounted_by_def g t(2,3) v(2,3) ac_simps)
  then show ?thesis by blast
qed

lemma group_at_eq: "group_at (group_by_ga es) k = filter (\<lambda>e. entry_ga e = k) es"
proof -
  have "group_at (fold (\<lambda>e m. im_insert (entry_ga e) (group_at m (entry_ga e) @ [e]) m) es m) k =
      group_at m k @ filter (\<lambda>e. entry_ga e = k) es" for m
    by (induction es arbitrary: m) (auto simp: group_at_def im.get_put)
  from this [of "[]"] show ?thesis by (simp add: group_by_ga_def group_at_def im_get_def)
qed

lemma group_keys: "set (im_keys (group_by_ga es)) = entry_ga ` set es"
proof -
  have "k \<in> set (im_keys m) \<longleftrightarrow> im_get m k \<noteq> None" for k and m :: ga_groups
    by (auto simp: im_keys_def im_get_def map_of_eq_None_iff)
  moreover have "im_get (fold (\<lambda>e m. im_insert (entry_ga e) (group_at m (entry_ga e) @ [e]) m) es m) k \<noteq> None \<longleftrightarrow>
      im_get m k \<noteq> None \<or> k \<in> entry_ga ` set es" for m k
    by (induction es arbitrary: m) (auto simp: im.get_put)
  ultimately show ?thesis by (auto simp: group_by_ga_def group_at_def im_get_def)
qed

lemma distinct_sorted_remdups_adj: "sorted xs \<Longrightarrow> distinct (remdups_adj xs)"
proof (induction xs rule: remdups_adj.induct)
  case (3 x y xs)
  then show ?case by (cases "x = y") (auto simp: order_antisym_conv)
qed simp_all

lemma mset_concat_groups:
  assumes "distinct ks" "f ` set es \<subseteq> set ks"
  shows "mset (concat (map (\<lambda>k. filter (\<lambda>e. f e = k) es) ks)) = mset es"
  using assms
proof (induction ks arbitrary: es)
  case (Cons k ks)
  let ?rest = "filter (\<lambda>e. f e \<noteq> k) es"
  have e: "map (\<lambda>k. filter (\<lambda>e. f e = k) es) ks = map (\<lambda>k. filter (\<lambda>e. f e = k) ?rest) ks"
    using Cons.prems(1) by (auto intro!: filter_cong)
  have "mset (concat (map (\<lambda>k. filter (\<lambda>e. f e = k) ?rest) ks)) = mset ?rest"
    using Cons.prems by (intro Cons.IH) auto
  then have "mset (concat (map (\<lambda>k. filter (\<lambda>e. f e = k) es) (k # ks))) = mset (filter (\<lambda>e. f e = k) es) + mset ?rest"
    unfolding list.map concat.simps mset_append e by (rule arg_cong)
  then show ?case by simp
qed simp

lemma sort_diff_accounts: "accounted_by l r (sort_diff d) same vs ts = accounted_by l r d same vs ts"
  by (simp add: accounted_by_def changes_recorded_def sort_diff_def group_by_prefix_def)

lemma diff_groups_account:
  assumes "\<exists>same vs ts. accounted_by l r d same vs ts"
  shows "\<exists>same vs ts. accounted_by (l + mset (concat (map (\<lambda>k. filter (\<lambda>e. entry_ga e = k) left) ks)))
      (r + mset (concat (map (\<lambda>k. filter (\<lambda>e. entry_ga e = k) right) ks)))
      (fold (\<lambda>k. diff_group (filter (\<lambda>e. entry_ga e = k) left) (filter (\<lambda>e. entry_ga e = k) right)) ks d) same vs ts"
  using assms
proof (induction ks arbitrary: l r d)
  case Nil
  then show ?case by simp
next
  case (Cons k ks)
  let ?l = "filter (\<lambda>e. entry_ga e = k) left" and ?r = "filter (\<lambda>e. entry_ga e = k) right"
  obtain same vs ts where "accounted_by l r d same vs ts" using Cons.prems by blast
  then have "\<exists>same vs ts. accounted_by (l + mset ?l) (r + mset ?r) (diff_group ?l ?r d) same vs ts"
    by (rule diff_group_accounts [where k = k]) auto
  from Cons.IH [OF this] show ?case
    unfolding list.map concat.simps mset_append fold_simps add.assoc .
qed

lemma lock_diff_accounts: "\<exists>same vs ts. accounted_by (mset left) (mset right) (lock_diff_of left right) same vs ts"
proof -
  have "accounted_by {#} {#} empty_diff {#} {#} {#}"
    by (simp add: accounted_by_def changes_recorded_def empty_diff_def)
  then have base: "\<exists>same vs ts. accounted_by {#} {#} empty_diff same vs ts" by blast
  define ks where "ks = remdups_adj (sort (im_keys (group_by_ga left) @ im_keys (group_by_ga right)))"
  have "distinct ks" unfolding ks_def by (simp add: distinct_sorted_remdups_adj)
  note groups = mset_concat_groups [OF this, of entry_ga]
  have "entry_ga ` set left \<subseteq> set ks" "entry_ga ` set right \<subseteq> set ks" by (auto simp: ks_def group_keys)
  from diff_groups_account [OF base, of left ks right] show ?thesis
    unfolding groups [OF \<open>entry_ga ` set left \<subseteq> set ks\<close>] groups [OF \<open>entry_ga ` set right \<subseteq> set ks\<close>] add_0
      lock_diff_of_def Let_def sort_diff_accounts group_at_eq ks_def [symmetric] .
qed

text \<open>The groups of lockfile entries have no colon, so equal group and artifact keys mean equal groups
  and artifacts.\<close>

definition plain_group :: "lock_entry \<Rightarrow> bool" where
  "plain_group e \<longleftrightarrow> CHR '':'' \<notin> set (le_group_id e)"

lemma plain_from_lockfile [simp]: "plain_group (from_lockfile_entry e)"
  by (auto simp: plain_group_def from_lockfile_entry_def parse_coords_def split: option.split prod.split dest: split_once_Some)

lemma pair_changed:
  assumes "pair_ok same_kind p" "plain_group (fst p)" "plain_group (snd p)"
  shows "bumped p \<or> le_scope (fst p) \<noteq> le_scope (snd p)"
proof (rule ccontr)
  assume "\<not> ?thesis"
  then have eq: "le_version (fst p) = le_version (snd p)" "le_scope (fst p) = le_scope (snd p)" by auto
  have "split_once (CHR '':'') (entry_ga e) = Some (le_group_id e, le_artifact_id e)" if "plain_group e" for e
    using that split_once_app [of "CHR '':''" "le_group_id e" "le_artifact_id e"] by (simp add: entry_ga_def plain_group_def)
  from this [OF assms(2)] this [OF assms(3)] assms(1)
  have "le_group_id (fst p) = le_group_id (snd p)" "le_artifact_id (fst p) = le_artifact_id (snd p)"
    by (simp_all add: pair_ok_def)
  then show False using assms(1) eq by (auto simp: pair_ok_def same_kind_def intro: lock_entry.equality)
qed

lemma accounted_empty:
  assumes acc: "accounted_by l r d same vs ts" and plain: "\<forall>e \<in># l + r. plain_group e" and e: "diff_is_empty d"
  shows "l = r"
proof -
  have d: "ld_added d = []" "ld_removed d = []" "ld_upgraded d = []" "ld_downgraded d = []" "ld_rescoped d = []" "ld_reclassified d = []"
    using e by (simp_all add: diff_is_empty_def change_count_def)
  have ts: "ts = {#}" using acc d by (simp add: accounted_by_def changes_recorded_def)
  have "\<not> (bumped p \<or> le_scope (fst p) \<noteq> le_scope (snd p))" if "p \<in># vs" for p
    using acc d that by (cases p) (simp add: accounted_by_def changes_recorded_def, metis)
  moreover have "bumped p \<or> le_scope (fst p) \<noteq> le_scope (snd p)" if "p \<in># vs" for p
    using acc plain that by (intro pair_changed) (auto simp: accounted_by_def)
  ultimately have "vs = {#}" by (meson multiset_nonemptyE)
  then show ?thesis using acc ts d by (simp add: accounted_by_def)
qed

lemma diff_group_same:
  assumes "mset xs = mset ys"
  shows "diff_group xs ys d = d"
proof -
  obtain ps ls rs where p: "pair_off (=) xs ys = (ps, ls, rs)" by (cases "pair_off (=) xs ys")
  have "\<forall>q \<in> set ps. snd q = fst q" using pair_off_related [OF p] by fastforce
  then have "image_mset snd (mset ps) = image_mset fst (mset ps)" by (intro image_mset_cong) auto
  then have "mset ls = mset rs" using pair_off_mset [OF p] assms by (metis add_left_cancel mset_map)
  then have "set ls = set rs" by (rule mset_eq_setD)
  then have "set ls = {}" using pair_off_rest [OF p] by (metis ex_in_conv)
  then have "ls = []" "rs = []" using \<open>set ls = set rs\<close> by auto
  then show ?thesis by (simp add: diff_group_def p)
qed

lemma diff_same:
  assumes "mset l = mset r"
  shows "diff_is_empty (lock_diff_of l r)"
proof -
  have "diff_group (filter (\<lambda>e. entry_ga e = k) l) (filter (\<lambda>e. entry_ga e = k) r) d = d" for k d
    using assms by (intro diff_group_same) (simp add: mset_filter)
  then have "fold (\<lambda>k. diff_group (filter (\<lambda>e. entry_ga e = k) l) (filter (\<lambda>e. entry_ga e = k) r)) ks d = d" for ks d
    by (induction ks arbitrary: d) simp_all
  then show ?thesis
    by (simp add: lock_diff_of_def Let_def group_at_eq sort_diff_def empty_diff_def diff_is_empty_def change_count_def group_by_prefix_def)
qed

text \<open>C39. A lockfile diff accounts for every entry of both files: they split into common entries,
  pairs of one group and artifact that changed version or scope, pairs that changed type or
  classifier, removed and added ones; the lists of the diff describe exactly these. The diff is
  empty exactly when, up to order, the entries of both files agree in group, artifact, version,
  scope, classifier and type. Checksum, size and URL of an entry are not compared.\<close>

theorem diff_lockfiles_accounts:
  "(\<exists>same vs ts. accounted_by (mset (map from_lockfile_entry (lf_entries l))) (mset (map from_lockfile_entry (lf_entries r)))
      (diff_lockfiles l r) same vs ts) \<and>
   (diff_is_empty (diff_lockfiles l r) \<longleftrightarrow>
      mset (map from_lockfile_entry (lf_entries l)) = mset (map from_lockfile_entry (lf_entries r)))"
proof -
  let ?l = "map from_lockfile_entry (lf_entries l)" and ?r = "map from_lockfile_entry (lf_entries r)"
  obtain same vs ts where acc: "accounted_by (mset ?l) (mset ?r) (lock_diff_of ?l ?r) same vs ts"
    using lock_diff_accounts by blast
  have "\<forall>e \<in># mset ?l + mset ?r. plain_group e" by auto
  then have "diff_is_empty (lock_diff_of ?l ?r) \<longleftrightarrow> mset ?l = mset ?r"
    using accounted_empty [OF acc] diff_same by blast
  with acc show ?thesis unfolding diff_lockfiles_def by blast
qed

end
