(* ===== verification/CacheLocks.thy ===== *)
theory CacheLocks
  imports Cas Journal
begin

text \<open>
  The locks of the cache (\<open>crates/barista-cache/src/lock.rs\<close>, and the journal's lock): the map of
  in-process mutexes per coordinate, the advisory file locks with their polling loops, and how
  long a caller can be kept waiting.

  SHA-1 is the parameter \<open>sha1\<close>. A mutex is an index into the list of its states; the tasks that
  wait for guards and hold them are the state of a transition system.
\<close>

section \<open>Keys and paths\<close>

datatype coord_version_key = CoordVersionKey (cv_coords: coords) (cv_version: string)

definition canonical :: "coord_version_key \<Rightarrow> string" where
  "canonical k = co_group (cv_coords k) @ '':'' @ co_artifact (cv_coords k) @ '':'' @ cv_version k"

datatype lock_error = LkIo string io_error | LkTimeout string nat

definition SHARDS :: nat where
  "SHARDS = 16"

definition shard_index :: "coord_version_key \<Rightarrow> nat" where
  "shard_index k =
     (let bytes = co_artifact (cv_coords k);
          first = (if bytes = []
                   then (let g = co_group (cv_coords k) in if g = [] then 0 else of_char (g ! 0))
                   else of_char (bytes ! 0)) in
      first mod SHARDS)"

definition hex_encode :: "bytes \<Rightarrow> string" where
  "hex_encode bs = concat (map (\<lambda>b. [HEX ! (unat b div 16), HEX ! (unat b mod 16)]) bs)"

definition lock_path :: "(string \<Rightarrow> bytes) \<Rightarrow> string \<Rightarrow> coord_version_key \<Rightarrow> string" where
  "lock_path sha1 lock_root k =
     (let hex = hex_encode (sha1 (canonical k)) in lock_root @ ''/'' @ take 2 hex @ ''/'' @ hex @ ''.lock'')"

section \<open>In-process locks\<close>

record lock_map =
  lm_shards :: "(coord_version_key, nat) index_map list"
  lm_mutexes :: "bool list"

definition lock_map_new :: lock_map where
  "lock_map_new = \<lparr>lm_shards = replicate SHARDS [], lm_mutexes = []\<rparr>"

definition get_or_create :: "coord_version_key \<Rightarrow> lock_map \<Rightarrow> nat \<times> lock_map" where
  "get_or_create k m =
     (let s = shard_index k; shard = lm_shards m ! s in
      case im_get shard k of
        Some i \<Rightarrow> (i, m)
      | None \<Rightarrow> let i = length (lm_mutexes m) in
               (i, \<lparr>lm_shards = (lm_shards m)[s := im_insert k i shard], lm_mutexes = lm_mutexes m @ [False]\<rparr>))"

definition take_mutex :: "nat \<Rightarrow> lock_map \<Rightarrow> lock_map" where
  "take_mutex i m = m\<lparr>lm_mutexes := (lm_mutexes m)[i := True]\<rparr>"

definition drop_guard :: "nat \<Rightarrow> lock_map \<Rightarrow> lock_map" where
  "drop_guard i m = m\<lparr>lm_mutexes := (lm_mutexes m)[i := False]\<rparr>"

definition try_lock :: "coord_version_key \<Rightarrow> lock_map \<Rightarrow> nat option \<times> lock_map" where
  "try_lock k m =
     (case get_or_create k m of (i, m') \<Rightarrow>
        if lm_mutexes m' ! i then (None, m') else (Some i, take_mutex i m'))"

definition lock_map_len :: "lock_map \<Rightarrow> nat" where
  "lock_map_len m = sum_list (map length (lm_shards m))"

definition lock_map_is_empty :: "lock_map \<Rightarrow> bool" where
  "lock_map_is_empty m = (lock_map_len m = 0)"

text \<open>Tasks that await a guard and tasks that hold one, with the key they asked for and the
  mutex they were given. \<open>lock\<close> is a request and a later grant; a dropped future is a request
  withdrawn.\<close>

type_synonym guard = "nat \<times> coord_version_key \<times> nat"

record lock_sys =
  ls_map :: lock_map
  ls_waiting :: "guard set"
  ls_holding :: "guard set"

inductive lock_step :: "lock_sys \<Rightarrow> lock_sys \<Rightarrow> bool" where
  request: "get_or_create k (ls_map s) = (i, m) \<Longrightarrow>
     lock_step s (s\<lparr>ls_map := m, ls_waiting := insert (t, k, i) (ls_waiting s)\<rparr>)"
| grant: "(t, k, i) \<in> ls_waiting s \<Longrightarrow> \<not> lm_mutexes (ls_map s) ! i \<Longrightarrow>
     lock_step s (s\<lparr>ls_map := take_mutex i (ls_map s), ls_waiting := ls_waiting s - {(t, k, i)},
                    ls_holding := insert (t, k, i) (ls_holding s)\<rparr>)"
| try_now: "try_lock k (ls_map s) = (Some i, m) \<Longrightarrow>
     lock_step s (s\<lparr>ls_map := m, ls_holding := insert (t, k, i) (ls_holding s)\<rparr>)"
| try_fails: "try_lock k (ls_map s) = (None, m) \<Longrightarrow> lock_step s (s\<lparr>ls_map := m\<rparr>)"
| withdraw: "(t, k, i) \<in> ls_waiting s \<Longrightarrow> lock_step s (s\<lparr>ls_waiting := ls_waiting s - {(t, k, i)}\<rparr>)"
| release: "(t, k, i) \<in> ls_holding s \<Longrightarrow>
     lock_step s (s\<lparr>ls_map := drop_guard i (ls_map s), ls_holding := ls_holding s - {(t, k, i)}\<rparr>)"

definition lock_init :: lock_sys where
  "lock_init = \<lparr>ls_map = lock_map_new, ls_waiting = {}, ls_holding = {}\<rparr>"

inductive lock_reachable :: "lock_sys \<Rightarrow> bool" where
  init: "lock_reachable lock_init"
| step: "lock_reachable s \<Longrightarrow> lock_step s s' \<Longrightarrow> lock_reachable s'"

section \<open>File locks\<close>

definition acquire_blocking_once :: "string \<Rightarrow> ('a world_scheme, bool, lock_error) io" where
  "acquire_blocking_once p =
     io_bind (io_map_err (LkIo (path_parent p)) sys_nop) (\<lambda>_.
     io_bind (io_map_err (LkIo p) (sys_open_create p)) (\<lambda>_.
     io_bind (io_try sys_nop) (\<lambda>r.
     case r of
       Inr _ \<Rightarrow> io_return True
     | Inl WouldBlock \<Rightarrow> io_return False
     | Inl e \<Rightarrow> io_fail (LkIo p e))))"

lemma acquire_blocking_once_clock:
  "wd_clock (snd (acquire_blocking_once p w)) = wd_clock w"
  "wd_lag (snd (acquire_blocking_once p w)) = wd_lag w"
  "wd_faults (snd (acquire_blocking_once p w)) = wd_faults w"
  "wd_calls (snd (acquire_blocking_once p w)) \<le> wd_calls w + 3"
proof -
  have "wp (acquire_blocking_once p) (\<lambda>_ w'. wd_clock w' = wd_clock w \<and> wd_lag w' = wd_lag w \<and>
      wd_faults w' = wd_faults w \<and> wd_calls w' \<le> wd_calls w + 3)
    (\<lambda>_ w'. wd_clock w' = wd_clock w \<and> wd_lag w' = wd_lag w \<and>
      wd_faults w' = wd_faults w \<and> wd_calls w' \<le> wd_calls w + 3) w"
    by (auto simp: acquire_blocking_once_def sys_open_create_def sys_nop_def sys_pure_def wp_simps
             split: option.split io_error.split)
  then show "wd_clock (snd (acquire_blocking_once p w)) = wd_clock w"
    "wd_lag (snd (acquire_blocking_once p w)) = wd_lag w"
    "wd_faults (snd (acquire_blocking_once p w)) = wd_faults w"
    "wd_calls (snd (acquire_blocking_once p w)) \<le> wd_calls w + 3"
    by (auto simp: wp_def split: prod.splits sum.splits)
qed

text \<open>\<open>acquire\<close> polls for ever; the \<open>i\<close>-th pause is the journal lock's.\<close>

definition paused :: "nat \<Rightarrow> 'a world_scheme \<Rightarrow> 'a world_scheme" where
  "paused ms w = w\<lparr>wd_clock := wd_clock w + ms + wd_lag w (wd_calls w)\<rparr>"

partial_function (option) fs_acquire_loop ::
  "string \<Rightarrow> nat \<Rightarrow> 'a world_scheme \<Rightarrow> ((unit, lock_error) result \<times> 'a world_scheme) option" where
  "fs_acquire_loop p i w =
     (case acquire_blocking_once p w of
        (Inl e, w') \<Rightarrow> Some (Inl e, w')
      | (Inr got, w') \<Rightarrow>
          if got then Some (Inr (), w') else fs_acquire_loop p (Suc i) (paused (backoff i) w'))"

definition fs_acquire ::
  "(string \<Rightarrow> bytes) \<Rightarrow> string \<Rightarrow> coord_version_key \<Rightarrow> 'a world_scheme \<Rightarrow>
   ((unit, lock_error) result \<times> 'a world_scheme) option" where
  "fs_acquire sha1 lock_root k w = fs_acquire_loop (lock_path sha1 lock_root k) 0 w"

function timed_loop ::
  "string \<Rightarrow> nat \<Rightarrow> nat \<Rightarrow> nat \<Rightarrow> 'a world_scheme \<Rightarrow> (unit, lock_error) result \<times> 'a world_scheme" where
  "timed_loop p timeout deadline i w =
     (case acquire_blocking_once p w of
        (Inl e, w') \<Rightarrow> (Inl e, w')
      | (Inr got, w') \<Rightarrow>
          if got then (Inr (), w')
          else if deadline \<le> wd_clock w' then (Inl (LkTimeout p (timeout div 1000)), w')
          else timed_loop p timeout deadline (Suc i) (paused (min (backoff i) (deadline - wd_clock w')) w'))"
  by pat_completeness auto

termination
proof (relation "measure (\<lambda>(_, _, deadline, _, w). deadline - wd_clock w)", goal_cases)
  case (2 p t deadline i w r w')
  then have "wd_clock w' = wd_clock w" using acquire_blocking_once_clock(1) [of p w] by (metis snd_conv)
  then show ?case using 2 backoff_pos [of i] by (auto simp: paused_def)
qed simp

declare timed_loop.simps [simp del]

definition acquire_with_timeout ::
  "(string \<Rightarrow> bytes) \<Rightarrow> string \<Rightarrow> coord_version_key \<Rightarrow> nat \<Rightarrow> ('a world_scheme, unit, lock_error) io" where
  "acquire_with_timeout sha1 lock_root k timeout w =
     timed_loop (lock_path sha1 lock_root k) timeout (wd_clock w + timeout) 0 w"

section \<open>Polling\<close>

text \<open>The total of the first \<open>n\<close> pauses.\<close>

definition waits :: "nat \<Rightarrow> nat" where
  "waits n = sum_list (map backoff [0..<n])"

lemma waits_simps [simp]: "waits 0 = 0" "waits (Suc n) = waits n + backoff n"
  by (simp_all add: waits_def)

lemma waits_mono: "m \<le> n \<Longrightarrow> waits m \<le> waits n"
  by (induction n rule: dec_induct) auto

text \<open>From the sixth pause on each takes 100 milliseconds.\<close>

lemma backoff_max: "5 \<le> i \<Longrightarrow> backoff i = 100"
proof (induction i rule: dec_induct)
  case base
  show ?case by (simp add: numeral_eq_Suc)
qed simp

lemma waits_long: "5 \<le> n \<Longrightarrow> waits n = 155 + 100 * (n - 5)"
proof (induction n rule: dec_induct)
  case base
  show ?case by (simp add: numeral_eq_Suc)
qed (simp add: backoff_max)

locale polling =
  fixes attempt :: "'a world_scheme \<Rightarrow> (bool, 'e) result \<times> 'a world_scheme"
    and poll :: "nat \<Rightarrow> 'a world_scheme \<Rightarrow> (unit, 'e) result \<times> 'a world_scheme"
    and pause :: "nat \<Rightarrow> 'a world_scheme \<Rightarrow> nat"
    and deadline :: nat and timed_out :: 'e and cost :: nat
  assumes poll_eq: "poll i w = (case attempt w of
        (Inl e, w') \<Rightarrow> (Inl e, w')
      | (Inr got, w') \<Rightarrow>
          if got then (Inr (), w')
          else if deadline \<le> wd_clock w' then (Inl timed_out, w')
          else poll (Suc i) (paused (pause i w') w'))"
    and attempt_clock: "wd_clock (snd (attempt w)) = wd_clock w"
    and attempt_calls: "wd_calls (snd (attempt w)) \<le> wd_calls w + cost"
    and attempt_error: "fst (attempt w) \<noteq> Inl timed_out"
    and pause_ge: "min (backoff i) (deadline - wd_clock w) \<le> pause i w"
begin

lemma poll_cases:
  obtains (error) e w' where "poll i w = (Inl e, w')" "attempt w = (Inl e, w')"
  | (got) w' where "poll i w = (Inr (), w')" "attempt w = (Inr True, w')"
  | (late) w' where "poll i w = (Inl timed_out, w')" "attempt w = (Inr False, w')" "deadline \<le> wd_clock w"
  | (again) w' where "poll i w = poll (Suc i) (paused (pause i w') w')" "attempt w = (Inr False, w')"
      "wd_clock w' = wd_clock w" "wd_clock w < deadline"
proof -
  obtain r w' where a: "attempt w = (r, w')" by fastforce
  then have "wd_clock w' = wd_clock w" using attempt_clock [of w] by simp
  then show ?thesis using a poll_eq [of i w] that by (cases r) (auto split: if_splits)
qed

text \<open>The number of attempts is bounded by the pauses that fill the time.\<close>

lemma poll_calls:
  "i \<le> n \<Longrightarrow> deadline + waits i \<le> wd_clock w + waits n \<Longrightarrow>
   wd_calls (snd (poll i w)) \<le> wd_calls w + cost * (n - i + 1)"
proof (induction "n - i" arbitrary: i w)
  case 0
  then show ?case using attempt_calls [of w] by (cases rule: poll_cases [of i w]) auto
next
  case (Suc d)
  show ?case
  proof (cases rule: poll_cases [of i w])
    case (again w')
    let ?w = "paused (pause i w') w'"
    have c: "wd_clock w' = wd_clock w" "wd_calls w' \<le> wd_calls w + cost"
      using attempt_clock [of w] attempt_calls [of w] again by auto
    have "deadline \<le> wd_clock ?w \<or> wd_clock w + backoff i \<le> wd_clock ?w"
      using pause_ge [of i w'] c again by (auto simp: paused_def min_def split: if_splits)
    moreover have "waits (Suc i) \<le> waits n"
      using Suc(2) by (intro waits_mono) simp
    ultimately have "wd_calls (snd (poll (Suc i) ?w)) \<le> wd_calls ?w + cost * (n - Suc i + 1)"
      using Suc by (intro Suc(1)) auto
    moreover have "n - Suc i = d" "n - i = Suc d" using Suc(2) by auto
    ultimately show ?thesis using again c by (simp add: paused_def)
  qed (use attempt_calls [of w] in auto)
qed

lemma poll_timeout: "fst (poll i w) = Inl timed_out \<Longrightarrow> deadline \<le> wd_clock (snd (poll i w))"
proof (induction "deadline - wd_clock w" arbitrary: i w rule: less_induct)
  case less
  show ?case
  proof (cases rule: poll_cases [of i w])
    case (late w')
    then show ?thesis using attempt_clock [of w] by simp
  next
    case (again w')
    then have "deadline - wd_clock (paused (pause i w') w') < deadline - wd_clock w"
      using pause_ge [of i w'] backoff_pos [of i] by (auto simp: paused_def min_def split: if_splits)
    then show ?thesis using less again by simp
  qed (use less(2) attempt_error [of w] in auto)
qed

end

lemma try_acquire_once_facts:
  "wd_calls (snd (try_acquire_once p w)) \<le> wd_calls w + 2"
  "fst (try_acquire_once p w) \<noteq> Inl (LockTimeout q n)"
proof -
  have "wp (try_acquire_once p) (\<lambda>_ w'. wd_calls w' \<le> wd_calls w + 2)
      (\<lambda>e w'. wd_calls w' \<le> wd_calls w + 2 \<and> e \<noteq> LockTimeout q n) w"
    by (auto simp: try_acquire_once_def sys_open_create_def sys_nop_def sys_pure_def wp_simps
             split: option.split io_error.split)
  then show "wd_calls (snd (try_acquire_once p w)) \<le> wd_calls w + 2"
    "fst (try_acquire_once p w) \<noteq> Inl (LockTimeout q n)"
    by (auto simp: wp_def split: prod.splits sum.splits)
qed

interpretation journal_polling: polling "try_acquire_once p" "acquire_loop p timeout deadline" "\<lambda>i _. backoff i"
    deadline "LockTimeout p (timeout div 1000)" 2 for p timeout deadline
  by unfold_locales
    (auto simp: acquire_loop.simps [of p timeout deadline] paused_def try_acquire_once_clock try_acquire_once_facts
      try_acquire_once_facts(1) [simplified]
      split: prod.split sum.split)

lemma acquire_blocking_once_error: "fst (acquire_blocking_once p w) \<noteq> Inl (LkTimeout q n)"
proof -
  have "wp (acquire_blocking_once p) (\<lambda>_ _. True) (\<lambda>e _. e \<noteq> LkTimeout q n) w"
    by (auto simp: acquire_blocking_once_def sys_open_create_def sys_nop_def sys_pure_def wp_simps
             split: option.split io_error.split)
  then show ?thesis by (auto simp: wp_def split: prod.splits sum.splits)
qed

interpretation timed_polling: polling "acquire_blocking_once p" "timed_loop p timeout deadline"
    "\<lambda>i w. min (backoff i) (deadline - wd_clock w)" deadline "LkTimeout p (timeout div 1000)" 3 for p timeout deadline
  by unfold_locales
    (auto simp: timed_loop.simps [of p timeout deadline] acquire_blocking_once_clock acquire_blocking_once_error
      split: prod.split sum.split)

text \<open>C27. Nobody waits for a cache lock for ever. Whatever the other holders and the scheduler do,
  the journal's lock is decided within 305 attempts of two system calls, the lock of a fetch
  (120 seconds) within 1205 attempts of three, and a time-out is reported only when the time
  is up.\<close>

theorem lock_wait_bounded:
  "(case journal_lock p w of (r, w') \<Rightarrow> wd_calls w' \<le> wd_calls w + 2 * 305 \<and>
      (if r = Inl (LockTimeout p 30) then wd_clock w + 30000 \<le> wd_clock w' else True)) \<and>
   (case acquire_with_timeout sha1 root k 120000 w of (r, w') \<Rightarrow> wd_calls w' \<le> wd_calls w + 3 * 1205 \<and>
      (if r = Inl (LkTimeout (lock_path sha1 root k) 120) then wd_clock w + 120000 \<le> wd_clock w' else True))"
proof -
  have j: "wd_calls (snd (journal_lock p w)) \<le> wd_calls w + 2 * 305"
    using journal_polling.poll_calls [of 0 304 "wd_clock w + LOCK_ACQUIRE_TIMEOUT" w p LOCK_ACQUIRE_TIMEOUT]
    by (simp add: journal_lock_def waits_long LOCK_ACQUIRE_TIMEOUT_def)
  have t: "wd_calls (snd (acquire_with_timeout sha1 root k 120000 w)) \<le> wd_calls w + 3 * 1205"
    using timed_polling.poll_calls [of 0 1204 "wd_clock w + 120000" w "lock_path sha1 root k" 120000]
    by (simp add: acquire_with_timeout_def waits_long)
  show ?thesis
    using j t journal_polling.poll_timeout [of p LOCK_ACQUIRE_TIMEOUT "wd_clock w + LOCK_ACQUIRE_TIMEOUT" 0 w]
      timed_polling.poll_timeout [of "lock_path sha1 root k" 120000 "wd_clock w + 120000" 0 w]
    by (auto simp: journal_lock_def acquire_with_timeout_def LOCK_ACQUIRE_TIMEOUT_def split: prod.split)
qed

section \<open>A released lock is acquired\<close>

text \<open>The lock is held by another process during the first \<open>j\<close> attempts, nothing else fails, and
  pauses take as long as asked for.\<close>

definition held_for :: "nat \<Rightarrow> 'a world_scheme \<Rightarrow> bool" where
  "held_for j w \<longleftrightarrow> (\<forall>n. wd_lag w n = 0) \<and>
     (\<forall>n \<ge> wd_calls w. wd_faults w n =
        (if n < wd_calls w + 3 * j \<and> (n - wd_calls w) mod 3 = 2 then Some (WouldBlock, 0) else None))"

lemma attempt_held:
  assumes "held_for (Suc j) w"
  shows "\<exists>w'. acquire_blocking_once p w = (Inr False, w') \<and> wd_clock w' = wd_clock w \<and> wd_lag w' = wd_lag w \<and>
    held_for j w'"
proof -
  have f: "wd_faults w (wd_calls w) = None" "wd_faults w (Suc (wd_calls w)) = None"
    "wd_faults w (Suc (Suc (wd_calls w))) = Some (WouldBlock, 0)"
    using assms by (auto simp: held_for_def)
  have "held_for j (w\<lparr>wd_fs := fs, wd_calls := Suc (Suc (Suc (wd_calls w)))\<rparr>)" for fs
    unfolding held_for_def
  proof (intro conjI allI impI)
    fix n assume n: "n \<ge> wd_calls (w\<lparr>wd_fs := fs, wd_calls := Suc (Suc (Suc (wd_calls w)))\<rparr>)"
    then obtain m where "n = wd_calls w + (m + 3)" by (auto simp: le_iff_add)
    then show "wd_faults (w\<lparr>wd_fs := fs, wd_calls := Suc (Suc (Suc (wd_calls w)))\<rparr>) n =
        (if n < wd_calls (w\<lparr>wd_fs := fs, wd_calls := Suc (Suc (Suc (wd_calls w)))\<rparr>) + 3 * j \<and>
          (n - wd_calls (w\<lparr>wd_fs := fs, wd_calls := Suc (Suc (Suc (wd_calls w)))\<rparr>)) mod 3 = 2
         then Some (WouldBlock, 0) else None)"
      using assms unfolding held_for_def by (auto simp: mod_add_self2)
  qed (use assms in \<open>simp add: held_for_def\<close>)
  then show ?thesis
    using f by (simp add: acquire_blocking_once_def io_bind_def io_map_err_def sys_nop_def sys_pure_def syscall_def
        sys_open_create_def io_try_def io_return_def split: option.split)
qed

lemma attempt_free:
  assumes "held_for 0 w"
  shows "\<exists>w'. acquire_blocking_once p w = (Inr True, w')"
proof -
  have "wd_faults w (wd_calls w) = None" "wd_faults w (Suc (wd_calls w)) = None"
    "wd_faults w (Suc (Suc (wd_calls w))) = None"
    using assms by (auto simp: held_for_def)
  then show ?thesis
    by (simp add: acquire_blocking_once_def io_bind_def io_map_err_def sys_nop_def sys_pure_def syscall_def
        sys_open_create_def io_try_def io_return_def split: option.split)
qed

lemma held_paused: "held_for j w \<Longrightarrow> held_for j (paused t w)"
  by (simp add: held_for_def paused_def)

lemma fs_acquire_loop_held: "held_for j w \<Longrightarrow> \<exists>w'. fs_acquire_loop p i w = Some (Inr (), w')"
proof (induction j arbitrary: i w)
  case 0
  then show ?case using attempt_free [of w p] by (subst fs_acquire_loop.simps) auto
next
  case (Suc j)
  obtain w' where w': "acquire_blocking_once p w = (Inr False, w')" "held_for j w'"
    using attempt_held [OF Suc(2), of p] by blast
  then show ?case using Suc(1) [OF held_paused] by (subst fs_acquire_loop.simps) simp
qed

lemma timed_loop_held:
  "held_for j w \<Longrightarrow> wd_clock w + waits (i + j) \<le> deadline + waits i \<Longrightarrow> fst (timed_loop p timeout deadline i w) = Inr ()"
proof (induction j arbitrary: i w)
  case 0
  then show ?case using attempt_free [of w p] by (subst timed_loop.simps) auto
next
  case (Suc j)
  obtain w' where w': "acquire_blocking_once p w = (Inr False, w')" "wd_clock w' = wd_clock w" "wd_lag w' = wd_lag w"
    "held_for j w'" using attempt_held [OF Suc(2), of p] by blast
  have "waits (Suc i) \<le> waits (i + Suc j)" by (rule waits_mono) simp
  then have room: "backoff i \<le> deadline - wd_clock w" "wd_clock w < deadline"
    using Suc(3) backoff_pos [of i] by auto
  have "wd_clock (paused (backoff i) w') = wd_clock w + backoff i"
    using Suc(2) w' by (simp add: paused_def held_for_def)
  then have "fst (timed_loop p timeout deadline (Suc i) (paused (backoff i) w')) = Inr ()"
    using Suc(3) by (intro Suc(1) held_paused w'(4)) simp
  then show ?case using w' room by (subst timed_loop.simps) (simp add: min_def)
qed

text \<open>C28. A released file lock is acquired. If another process holds the lock of a coordinate
  during \<open>j\<close> attempts and then releases it, \<open>acquire\<close> returns with the lock, and so does
  \<open>acquire_with_timeout\<close> when the first \<open>j\<close> pauses fit into its time.\<close>

theorem released_lock_acquired:
  assumes "held_for j w" "waits j \<le> timeout"
  shows "(\<exists>w'. fs_acquire sha1 root k w = Some (Inr (), w')) \<and> fst (acquire_with_timeout sha1 root k timeout w) = Inr ()"
  using fs_acquire_loop_held [OF assms(1)] timed_loop_held [OF assms(1), of 0] assms(2)
  by (simp add: fs_acquire_def acquire_with_timeout_def)

definition contended_world :: world where
  "contended_world = \<lparr>wd_fs = [], wd_calls = 0, wd_clock = 7,
     wd_faults = (\<lambda>n. if n = 2 \<or> n = 5 then Some (WouldBlock, 0) else None), wd_lag = (\<lambda>_. 0),
     wd_tmp_counter = 0, wd_thread = 1\<rparr>"

theorem released_lock_acquired_witness:
  "(\<exists>w'. fs_acquire (\<lambda>_. [0, 255]) ''locks'' (CoordVersionKey (Coords ''g'' ''a'') ''1'') contended_world = Some (Inr (), w')) \<and>
   fst (acquire_with_timeout (\<lambda>_. [0, 255]) ''locks'' (CoordVersionKey (Coords ''g'' ''a'') ''1'') 15 contended_world) = Inr ()"
proof (rule released_lock_acquired)
  have "(n < 6 \<and> n mod 3 = 2) = (n = 2 \<or> n = 5)" for n :: nat by presburger
  then show "held_for 2 contended_world" by (simp add: held_for_def contended_world_def)
  show "waits 2 \<le> 15" by (simp add: numeral_2_eq_2)
qed

section \<open>In-process locks exclude each other\<close>

definition lookup_mutex :: "lock_map \<Rightarrow> coord_version_key \<Rightarrow> nat option" where
  "lookup_mutex m k = im_get (lm_shards m ! shard_index k) k"

lemma shard_index_bound [simp]: "shard_index k < SHARDS"
  by (simp add: shard_index_def Let_def SHARDS_def)

text \<open>Every key has its own mutex.\<close>

definition lock_map_wf :: "lock_map \<Rightarrow> bool" where
  "lock_map_wf m \<longleftrightarrow> length (lm_shards m) = SHARDS \<and>
     (\<forall>k i. lookup_mutex m k = Some i \<longrightarrow> i < length (lm_mutexes m)) \<and>
     (\<forall>k k' i. lookup_mutex m k = Some i \<and> lookup_mutex m k' = Some i \<longrightarrow> k = k')"

lemma get_or_create_cases:
  assumes "get_or_create k m = (i, m')" "lock_map_wf m"
  shows "lookup_mutex m' k' = (if k' = k then Some i else lookup_mutex m k')" "lock_map_wf m'"
    "lm_mutexes m' = lm_mutexes m \<or> lm_mutexes m' = lm_mutexes m @ [False] \<and> i = length (lm_mutexes m)"
proof -
  have l: "length (lm_shards m) = SHARDS" using assms(2) by (simp add: lock_map_wf_def)
  show look: "lookup_mutex m' k' = (if k' = k then Some i else lookup_mutex m k')" for k'
    using assms(1) l
    by (auto simp: get_or_create_def lookup_mutex_def Let_def nth_list_update im.get_put split: option.splits)
  show new: "lm_mutexes m' = lm_mutexes m \<or> lm_mutexes m' = lm_mutexes m @ [False] \<and> i = length (lm_mutexes m)"
    using assms(1) by (auto simp: get_or_create_def Let_def split: option.splits)
  have i: "lookup_mutex m k = Some i \<or> i = length (lm_mutexes m) \<and> lm_mutexes m' = lm_mutexes m @ [False]"
    using assms(1) by (auto simp: get_or_create_def lookup_mutex_def Let_def split: option.splits)
  have "length (lm_shards m') = SHARDS"
    using assms(1) l by (auto simp: get_or_create_def Let_def split: option.splits)
  moreover have "j < length (lm_mutexes m')" if "lookup_mutex m' k' = Some j" for k' j
    using that look [of k'] new i assms(2) unfolding lock_map_wf_def by (auto split: if_splits; fastforce)
  moreover have "a = b" if "lookup_mutex m' a = Some j" "lookup_mutex m' b = Some j" for a b j
    using that look [of a] look [of b] i assms(2) unfolding lock_map_wf_def by (auto split: if_splits; metis less_irrefl)
  ultimately show "lock_map_wf m'" unfolding lock_map_wf_def by blast
qed

definition lock_inv :: "lock_sys \<Rightarrow> bool" where
  "lock_inv s \<longleftrightarrow> lock_map_wf (ls_map s) \<and>
     (\<forall>t k i. (t, k, i) \<in> ls_waiting s \<union> ls_holding s \<longrightarrow> lookup_mutex (ls_map s) k = Some i) \<and>
     (\<forall>i < length (lm_mutexes (ls_map s)). lm_mutexes (ls_map s) ! i \<longleftrightarrow> (\<exists>t k. (t, k, i) \<in> ls_holding s)) \<and>
     (\<forall>t k t' k' i. (t, k, i) \<in> ls_holding s \<and> (t', k', i) \<in> ls_holding s \<longrightarrow> t = t' \<and> k = k')"

lemma lock_invI:
  assumes "lock_map_wf (ls_map s)"
    "\<And>t k i. (t, k, i) \<in> ls_waiting s \<union> ls_holding s \<Longrightarrow> lookup_mutex (ls_map s) k = Some i"
    "\<And>i. i < length (lm_mutexes (ls_map s)) \<Longrightarrow> lm_mutexes (ls_map s) ! i \<longleftrightarrow> (\<exists>t k. (t, k, i) \<in> ls_holding s)"
    "\<And>t k t' k' i. (t, k, i) \<in> ls_holding s \<Longrightarrow> (t', k', i) \<in> ls_holding s \<Longrightarrow> t = t' \<and> k = k'"
  shows "lock_inv s"
  using assms unfolding lock_inv_def by blast

lemma lock_invD:
  assumes "lock_inv s"
  shows "lock_map_wf (ls_map s)"
    "(t, k, i) \<in> ls_waiting s \<Longrightarrow> lookup_mutex (ls_map s) k = Some i"
    "(t, k, i) \<in> ls_holding s \<Longrightarrow> lookup_mutex (ls_map s) k = Some i"
    "i < length (lm_mutexes (ls_map s)) \<Longrightarrow> lm_mutexes (ls_map s) ! i \<longleftrightarrow> (\<exists>t k. (t, k, i) \<in> ls_holding s)"
    "(t, k, i) \<in> ls_holding s \<Longrightarrow> (t', k', i) \<in> ls_holding s \<Longrightarrow> t = t' \<and> k = k'"
  using assms unfolding lock_inv_def by blast+

lemma lookup_update [simp]:
  "lookup_mutex (take_mutex i m) k = lookup_mutex m k" "lookup_mutex (drop_guard i m) k = lookup_mutex m k"
  "lock_map_wf (take_mutex i m) = lock_map_wf m" "lock_map_wf (drop_guard i m) = lock_map_wf m"
  by (simp_all add: lookup_mutex_def lock_map_wf_def take_mutex_def drop_guard_def)

lemma lock_inv_bound:
  "lock_inv s \<Longrightarrow> (t, k, i) \<in> ls_waiting s \<union> ls_holding s \<Longrightarrow> i < length (lm_mutexes (ls_map s))"
  unfolding lock_inv_def lock_map_wf_def by blast

lemma lock_inv_create:
  assumes "lock_inv s" "get_or_create k (ls_map s) = (i, m)"
  shows "lock_inv (s\<lparr>ls_map := m\<rparr>)" "lookup_mutex m k = Some i"
proof -
  have wf: "lock_map_wf (ls_map s)" using assms(1) by (simp add: lock_inv_def)
  note c = get_or_create_cases [OF assms(2) wf]
  show "lookup_mutex m k = Some i" using c(1) by simp
  have keep: "lookup_mutex m k' = Some j" if "lookup_mutex (ls_map s) k' = Some j" for k' j
    using assms(2) that c(1) [of k'] by (auto simp: get_or_create_def lookup_mutex_def Let_def split: if_splits option.splits)
  have b: "j < length (lm_mutexes (ls_map s))" if "(t, k', j) \<in> ls_holding s" for t k' j
    using lock_inv_bound [OF assms(1)] that by blast
  have held: "j < length (lm_mutexes m) \<Longrightarrow>
      lm_mutexes m ! j \<longleftrightarrow> j < length (lm_mutexes (ls_map s)) \<and> lm_mutexes (ls_map s) ! j" for j
    using c(3) by (auto simp: nth_append less_Suc_eq)
  note inv = lock_invD [OF assms(1)]
  show "lock_inv (s\<lparr>ls_map := m\<rparr>)"
  proof (rule lock_invI, goal_cases)
    case (3 j)
    then show ?case using held [of j] inv(4) [of j] b by auto
  qed (use c(2) keep inv(2,3,5) in auto)
qed

lemma lock_inv_take:
  assumes "lock_inv s" "lookup_mutex (ls_map s) k = Some i" "\<not> lm_mutexes (ls_map s) ! i" "W \<subseteq> ls_waiting s"
  shows "lock_inv (s\<lparr>ls_map := take_mutex i (ls_map s), ls_waiting := W, ls_holding := insert (t, k, i) (ls_holding s)\<rparr>)"
    (is "lock_inv ?s")
proof -
  have i: "i < length (lm_mutexes (ls_map s))" using assms(1,2) by (auto simp: lock_inv_def lock_map_wf_def)
  note inv = lock_invD [OF assms(1)]
  have free: "(t', k', i) \<notin> ls_holding s" for t' k' using inv(4) [OF i] assms(3) by blast
  show ?thesis
  proof (rule lock_invI, goal_cases)
    case (3 j)
    then show ?case using inv(4) [of j] i by (auto simp: take_mutex_def nth_list_update)
  next
    case (4 t1 k1 t2 k2 j)
    then show ?case using free inv(5) [of t1 k1 j t2 k2] by auto
  qed (use assms inv(1-3) in auto)
qed

lemma lock_inv_drop:
  assumes "lock_inv s" "(t, k, i) \<in> ls_holding s"
  shows "lock_inv (s\<lparr>ls_map := drop_guard i (ls_map s), ls_holding := ls_holding s - {(t, k, i)}\<rparr>)" (is "lock_inv ?s")
proof -
  have i: "i < length (lm_mutexes (ls_map s))" using lock_inv_bound [OF assms(1)] assms(2) by blast
  note inv = lock_invD [OF assms(1)]
  have only: "(t', k', i) \<in> ls_holding s \<Longrightarrow> t' = t \<and> k' = k" for t' k' using inv(5) [OF assms(2)] by blast
  show ?thesis
  proof (rule lock_invI, goal_cases)
    case (3 j)
    then show ?case using inv(4) [of j] i only by (auto simp: drop_guard_def nth_list_update)
  next
    case (4 t1 k1 t2 k2 j)
    then show ?case using inv(5) [of t1 k1 j t2 k2] by auto
  qed (use inv(1-3) in auto)
qed

lemma lock_inv_step: "lock_step s s' \<Longrightarrow> lock_inv s \<Longrightarrow> lock_inv s'"
proof (induction rule: lock_step.induct)
  case (request k s i m t)
  note inv = lock_inv_create [OF request(2,1)]
  show ?case
    using lock_invD [OF inv(1)] inv(2) by (intro lock_invI) auto
next
  case (grant t k i s)
  have "lookup_mutex (ls_map s) k = Some i" using grant by (auto simp: lock_inv_def)
  then show ?case using lock_inv_take [OF grant(3)] grant(2) by simp
next
  case (try_now k s i m t)
  obtain m1 where c: "get_or_create k (ls_map s) = (i, m1)" "\<not> lm_mutexes m1 ! i" "m = take_mutex i m1"
    using try_now(1) by (auto simp: try_lock_def split: prod.splits if_splits)
  note inv = lock_inv_create [OF try_now(2) c(1)]
  show ?case using lock_inv_take [OF inv(1), of k i "ls_waiting s" t] inv(2) c(2,3) by simp
next
  case (try_fails k s m)
  then show ?case using lock_inv_create(1) [of s k] by (auto simp: try_lock_def split: prod.splits if_splits)
next
  case (withdraw t k i s)
  show ?case using lock_invD [OF withdraw(2)] by (intro lock_invI) auto
next
  case (release t k i s)
  then show ?case using lock_inv_drop by simp
qed

lemma lock_reachable_inv: "lock_reachable s \<Longrightarrow> lock_inv s"
proof (induction rule: lock_reachable.induct)
  case init
  show ?case
    by (auto simp: lock_inv_def lock_init_def lock_map_new_def lock_map_wf_def lookup_mutex_def im_get_def)
qed (rule lock_inv_step)

text \<open>C29. The in-process locks exclude each other and nothing else: in every reachable state at
  most one task holds the guard of a coordinate, tasks of different coordinates never share a
  mutex, and a task waiting for a coordinate that nobody holds can take it at once.\<close>

theorem coord_lock_exclusive:
  assumes "lock_reachable s" "(t, k, i) \<in> ls_waiting s \<union> ls_holding s"
  shows "(\<forall>t' i'. (t, k, i) \<in> ls_holding s \<and> (t', k, i') \<in> ls_holding s \<longrightarrow> t' = t) \<and>
    (\<forall>t' k'. (t', k', i) \<in> ls_waiting s \<union> ls_holding s \<longrightarrow> k' = k) \<and>
    ((t, k, i) \<in> ls_waiting s \<and> (\<forall>t' i'. (t', k, i') \<notin> ls_holding s) \<longrightarrow>
       (\<exists>s'. lock_step s s' \<and> (t, k, i) \<in> ls_holding s'))"
proof -
  have inv: "lock_inv s" using assms(1) by (rule lock_reachable_inv)
  have look: "lookup_mutex (ls_map s) k' = Some j" if "(t', k', j) \<in> ls_waiting s \<union> ls_holding s" for t' k' j
    using inv that unfolding lock_inv_def by blast
  have same: "k' = k" if "(t', k', i) \<in> ls_waiting s \<union> ls_holding s" for t' k'
    using look [OF that] look [OF assms(2)] inv unfolding lock_inv_def lock_map_wf_def by blast
  have excl: "t' = t" if "(t, k, i) \<in> ls_holding s" "(t', k, i') \<in> ls_holding s" for t' i'
    using that look [of t' k i'] look [OF assms(2)] lock_invD(5) [OF inv, of t k i t' k] by auto
  have "\<exists>s'. lock_step s s' \<and> (t, k, i) \<in> ls_holding s'"
    if "(t, k, i) \<in> ls_waiting s" "\<forall>t' i'. (t', k, i') \<notin> ls_holding s"
  proof -
    have "\<not> lm_mutexes (ls_map s) ! i"
      using inv that same lock_inv_bound [OF inv assms(2)] unfolding lock_inv_def by blast
    from lock_step.grant [OF that(1) this] show ?thesis by fastforce
  qed
  then show ?thesis using same excl by blast
qed

definition demo_lock_key :: coord_version_key where
  "demo_lock_key = CoordVersionKey (Coords ''g'' ''a'') ''1''"

definition demo_locks :: lock_sys where
  "demo_locks = \<lparr>ls_map = snd (get_or_create demo_lock_key lock_map_new), ls_waiting = {(1, demo_lock_key, 0)},
     ls_holding = {}\<rparr>"

theorem coord_lock_exclusive_witness:
  "\<exists>s'. lock_step demo_locks s' \<and> (1, demo_lock_key, 0) \<in> ls_holding s'"
proof -
  have "fst (get_or_create demo_lock_key lock_map_new) = 0"
    by (simp add: get_or_create_def lock_map_new_def Let_def im_get_def)
  then have "get_or_create demo_lock_key (ls_map lock_init) = (0, ls_map demo_locks)"
    by (simp add: lock_init_def demo_locks_def prod_eq_iff)
  from lock_reachable.step [OF lock_reachable.init lock_step.request [OF this, of 1]]
  have r: "lock_reachable demo_locks" by (simp add: lock_init_def demo_locks_def)
  have "(1, demo_lock_key, 0) \<in> ls_waiting demo_locks \<union> ls_holding demo_locks" by (simp add: demo_locks_def)
  from coord_lock_exclusive [OF r this] show ?thesis by (simp add: demo_locks_def)
qed

end
