(* ===== verification/IndexRecovery.thy ===== *)
theory IndexRecovery
  imports CacheIndex
begin

text \<open>
  What the index guarantees about its files: opening it recovers the recorded state, under
  every schedule of faults a mutation leaves files that recover to the state before it or
  after it, and compaction does not change the recovered state.
\<close>

section \<open>Opening without faults\<close>

definition same_files :: "fs \<Rightarrow> fs \<Rightarrow> bool" where
  "same_files fs fs' \<longleftrightarrow> (\<forall>q. q \<noteq> lock_path_for journal_path \<longrightarrow> fs_read fs' q = fs_read fs q)"

lemma paths_distinct [simp]:
  "journal_path \<noteq> lock_path_for journal_path" "snapshot_path \<noteq> lock_path_for journal_path"
  "snapshot_tmp \<noteq> lock_path_for journal_path" "lock_path_for journal_path \<noteq> journal_path"
  "lock_path_for journal_path \<noteq> snapshot_path" "lock_path_for journal_path \<noteq> snapshot_tmp"
  "journal_path \<noteq> snapshot_path" "snapshot_path \<noteq> journal_path"
  "journal_path \<noteq> snapshot_tmp" "snapshot_tmp \<noteq> journal_path"
  "snapshot_path \<noteq> snapshot_tmp" "snapshot_tmp \<noteq> snapshot_path"
  by (simp_all add: journal_path_def snapshot_path_def snapshot_tmp_def INDEX_DIR_def
      lock_path_for_def path_parent_def Let_def)

lemma same_files_simps [simp]:
  "same_files fs fs"
  "same_files fs fs' \<Longrightarrow> fs_read fs' journal_path = fs_read fs journal_path"
  "same_files fs fs' \<Longrightarrow> fs_read fs' snapshot_path = fs_read fs snapshot_path"
  "same_files fs fs' \<Longrightarrow> fs_read fs' snapshot_tmp = fs_read fs snapshot_tmp"
  by (simp_all add: same_files_def)

lemma same_files_trans: "same_files a b \<Longrightarrow> same_files b c \<Longrightarrow> same_files a c"
  by (simp add: same_files_def)

lemma same_files_lock: "same_files fs (fs_set (lock_path_for journal_path) d fs)"
  by (simp add: same_files_def)

lemma wp_sys_nop [wp_simps]:
  "wp sys_nop Q E w =
     (case wd_faults w (wd_calls w) of
        None \<Rightarrow> Q () (w\<lparr>wd_calls := Suc (wd_calls w)\<rparr>)
      | Some (e, k) \<Rightarrow> E e (w\<lparr>wd_calls := Suc (wd_calls w)\<rparr>))"
  by (simp add: sys_nop_def sys_pure_def wp_simps split: option.split)

lemma wp_sys_pure [wp_simps]:
  "wp (sys_pure f) Q E w =
     (case wd_faults w (wd_calls w) of
        None \<Rightarrow> (case f (wd_fs w) of Inr x \<Rightarrow> Q x (w\<lparr>wd_calls := Suc (wd_calls w)\<rparr>)
                               | Inl e \<Rightarrow> E e (w\<lparr>wd_calls := Suc (wd_calls w)\<rparr>))
      | Some (e, k) \<Rightarrow> E e (w\<lparr>wd_calls := Suc (wd_calls w)\<rparr>))"
  by (auto simp: sys_pure_def wp_simps split: option.split sum.split)

lemma quietD [simp]: "quiet w \<Longrightarrow> wd_faults w n = None"
  by (simp add: quiet_def)

lemma quiet_fields [simp]:
  "quiet (w\<lparr>jw_buf := b\<rparr>) = quiet w" for w :: "'a journal_world_scheme"
  by (simp add: quiet_def)

lemma journal_lock_quiet:
  assumes "quiet w"
  obtains fs n where "same_files (wd_fs w) fs"
    "journal_lock (lock_path_for journal_path) w = (Inr (), w\<lparr>wd_fs := fs, wd_calls := n\<rparr>)"
proof -
  let ?lp = "lock_path_for journal_path"
  let ?fs = "case fs_read (wd_fs w) ?lp of None \<Rightarrow> fs_set ?lp [] (wd_fs w) | Some _ \<Rightarrow> wd_fs w"
  have "try_acquire_once ?lp w = (Inr True, w\<lparr>wd_fs := ?fs, wd_calls := wd_calls w + 2\<rparr>)"
    using assms by (simp add: try_acquire_once_def io_bind_def io_map_err_def sys_open_create_def syscall_def
        io_try_def sys_nop_def sys_pure_def io_return_def)
  moreover have "same_files (wd_fs w) ?fs" by (simp add: same_files_lock split: option.split)
  ultimately show ?thesis
    using that by (simp add: journal_lock_def acquire_loop.simps [of _ _ _ 0])
qed

lemma wp_journal_lock_quiet:
  assumes "quiet w"
    "\<And>fs n. same_files (wd_fs w) fs \<Longrightarrow> Q () (w\<lparr>wd_fs := fs, wd_calls := n\<rparr>)"
  shows "wp (journal_lock (lock_path_for journal_path)) Q E w"
  by (rule journal_lock_quiet [OF assms(1)]) (simp add: wp_def assms(2))

definition snapshot_holds :: "codec \<Rightarrow> fs \<Rightarrow> entry_map \<Rightarrow> bool" where
  "snapshot_holds c fs m \<longleftrightarrow> bt_wf m \<and>
     (case fs_read fs snapshot_path of
        None \<Rightarrow> m = []
      | Some d \<Rightarrow> take HEADER_LEN d = header_bytes SNAPSHOT_VERSION \<and>
                 cd_decode_snapshot c (drop HEADER_LEN d) = Inr m)"

definition journal_holds :: "codec \<Rightarrow> fs \<Rightarrow> journal_entry list \<Rightarrow> bytes \<Rightarrow> bool" where
  "journal_holds c fs es d \<longleftrightarrow> (\<forall>e \<in> set es. codec_ok c e) \<and> torn c d \<and>
     fs_read fs journal_path = Some (header_bytes JOURNAL_VERSION @ records c es @ d)"

lemma header_facts [simp]:
  "length (header_bytes v) = HEADER_LEN" "header_bytes v \<noteq> []"
  by (simp_all add: header_bytes_def HEADER_LEN_def FILE_MAGIC_def)

lemma header_read:
  assumes "take HEADER_LEN d = header_bytes v"
  shows "\<not> length d < HEADER_LEN" "take 4 d = FILE_MAGIC" "take 4 (drop 4 d) = to_le_bytes v"
proof -
  have d: "d = header_bytes v @ drop HEADER_LEN d" using assms by (metis append_take_drop_id)
  show "\<not> length d < HEADER_LEN" using arg_cong [OF assms, of length] by simp
  show "take 4 d = FILE_MAGIC" "take 4 (drop 4 d) = to_le_bytes v"
    by (subst d, simp add: header_bytes_def FILE_MAGIC_def)+
qed

lemma wp_validate_header_quiet:
  assumes "quiet w" "fs_read (wd_fs w) p = Some d" "take HEADER_LEN d = header_bytes v"
  shows "wp (validate_header p v) Q E w = Q () (w\<lparr>wd_calls := wd_calls w + 2\<rparr>)"
  using assms by (simp add: validate_header_def wp_simps sys_read_file_def Let_def header_read [OF assms(3)])

lemma wp_load_snapshot_quiet:
  assumes "quiet w" "snapshot_holds c (wd_fs w) m" "fs_read (wd_fs w) snapshot_path \<noteq> None"
    "\<And>n. Q m (w\<lparr>wd_calls := n\<rparr>)"
  shows "wp (load_snapshot c snapshot_path) Q E w"
proof -
  obtain d where d: "fs_read (wd_fs w) snapshot_path = Some d" using assms(3) by auto
  have h: "take HEADER_LEN d = header_bytes SNAPSHOT_VERSION"
    and dec: "cd_decode_snapshot c (drop HEADER_LEN d) = Inr m" and wf: "bt_wf m"
    using assms(2) d by (auto simp: snapshot_holds_def)
  show ?thesis
    unfolding load_snapshot_def
    using assms(1,4) d dec bt_reinsert [OF wf]
    by (simp add: wp_simps sys_len_def sys_read_file_def wp_validate_header_quiet [OF _ _ h])
qed

lemma wp_journal_open_quiet:
  assumes "quiet w" "fs_read (wd_fs w) journal_path = Some d" "take HEADER_LEN d = header_bytes JOURNAL_VERSION"
    "\<And>fs n. same_files (wd_fs w) fs \<Longrightarrow> Q () (w\<lparr>wd_fs := fs, wd_calls := n, jw_buf := []\<rparr>)"
  shows "wp (journal_open journal_path) Q E w"
proof -
  have ne: "d \<noteq> []" using header_read(1) [OF assms(3)] by (auto simp: HEADER_LEN_def)
  show ?thesis
    unfolding journal_open_def sys_open_create_def
    using assms ne
    by (auto simp: wp_simps sys_len_def wp_validate_header_quiet [OF _ _ assms(3)]
             intro!: wp_journal_lock_quiet)
qed

lemma wp_iter_quiet:
  assumes "quiet w" "fs_read (wd_fs w) journal_path = Some d" "take HEADER_LEN d = header_bytes JOURNAL_VERSION"
    "\<And>n. Q \<lparr>ji_reader = \<lparr>rd_buf = [], rd_rest = drop HEADER_LEN d\<rparr>, ji_position = HEADER_LEN, ji_done = False\<rparr>
          (w\<lparr>wd_calls := n\<rparr>)"
  shows "wp (iter_entries_with_positions journal_path) Q E w"
  using assms
  by (simp add: iter_entries_with_positions_def wp_simps sys_read_file_def wp_validate_header_quiet [OF _ _ assms(3)])

lemma wp_truncate_to_quiet:
  assumes "quiet w" "jw_buf w = []" "fs_read (wd_fs w) journal_path = Some d"
    "HEADER_LEN \<le> off" "off \<le> length d"
    "\<And>fs n. same_files (wd_fs w) fs \<Longrightarrow> Q () (w\<lparr>wd_fs := fs_set journal_path (take off d) fs, wd_calls := n\<rparr>)"
  shows "wp (journal_truncate_to journal_path off) Q E w"
  unfolding journal_truncate_to_def Let_def
  using assms
  by (auto simp: wp_simps bw_flush_def sys_set_len_def max_def intro!: wp_journal_lock_quiet)

text \<open>The state of a handle that has applied the records \<open>es\<close> on top of the snapshot \<open>m\<close>.\<close>

definition in_sync :: "codec \<Rightarrow> entry_map \<Rightarrow> journal_entry list \<Rightarrow> 'a index_world_scheme \<Rightarrow> bool" where
  "in_sync c m es w \<longleftrightarrow> snapshot_holds c (wd_fs w) m \<and> journal_holds c (wd_fs w) es [] \<and>
     jw_buf w = [] \<and> ix_entries w = fold apply_entry es m \<and> ix_since_compact w = length es"

definition report_for :: "codec \<Rightarrow> journal_entry list \<Rightarrow> bytes \<Rightarrow> nat \<Rightarrow> open_report" where
  "report_for c es d r =
     (if r = length es \<and> d = [] then \<lparr>op_journal_truncated = False, op_journal_truncated_at = None\<rparr>
      else \<lparr>op_journal_truncated = True,
            op_journal_truncated_at = Some (HEADER_LEN + length (records c (take r es)))\<rparr>)"

lemma snapshot_holds_same: "same_files fs fs' \<Longrightarrow> snapshot_holds c fs' m = snapshot_holds c fs m"
  by (simp add: snapshot_holds_def)

lemma records_take: "\<exists>x. records c es = records c (take r es) @ x"
  by (metis append_take_drop_id records_simps(3))

lemma journal_holds_cut:
  assumes "journal_holds c fs es d"
  shows "journal_holds c (fs_set journal_path (header_bytes JOURNAL_VERSION @ records c (take r es)) fs) (take r es) []"
  using assms by (auto simp: journal_holds_def torn_def dest: in_set_takeD)

lemma take_cut:
  "take (HEADER_LEN + length (records c (take r es))) (header_bytes v @ records c es @ d) =
     header_bytes v @ records c (take r es)"
proof -
  obtain x where "records c es = records c (take r es) @ x" using records_take by blast
  then show ?thesis by simp
qed

definition recovered ::
  "codec \<Rightarrow> entry_map \<Rightarrow> journal_entry list \<Rightarrow> bytes \<Rightarrow> open_report \<Rightarrow> 'a index_world_scheme \<Rightarrow> bool" where
  "recovered c m es d rep w' \<longleftrightarrow> (\<exists>r \<le> length es.
     (length (records c es @ d) \<le> BUF_SIZE \<longrightarrow> r = length es) \<and>
     rep = report_for c es d r \<and> in_sync c m (take r es) w' \<and> quiet w')"

lemma quiet_index_fields [simp]:
  "quiet (w\<lparr>ix_entries := m\<rparr>) = quiet w" "quiet (w\<lparr>ix_since_compact := n\<rparr>) = quiet w"
  "quiet (w\<lparr>ix_threshold := n\<rparr>) = quiet w" for w :: "'a index_world_scheme"
  by (simp_all add: quiet_def)

lemma wp_replays:
  assumes "replays c p it es d m n w r"
    "\<And>it' k. ji_position it' = ji_position it + length (records c (take r es)) \<Longrightarrow>
       Q (tail_error p es d r, it',
          fold apply_entry (take r es) m, n + r) (w\<lparr>wd_calls := k\<rparr>)"
  shows "wp (replay_loop c p it m n) Q E w"
  using assms by (auto simp: wp_def replays_def)

lemma wp_replay_quiet:
  assumes q: "quiet w" and j: "\<forall>e \<in> set es. codec_ok c e" "torn c d"
    and Q: "\<And>r it' k. r \<le> length es \<Longrightarrow> (length (records c es @ d) \<le> BUF_SIZE \<longrightarrow> r = length es) \<Longrightarrow>
       ji_position it' = HEADER_LEN + length (records c (take r es)) \<Longrightarrow>
       Q (tail_error p es d r, it',
          fold apply_entry (take r es) m, r) (w\<lparr>wd_calls := k\<rparr>)"
  shows "wp (replay_loop c p \<lparr>ji_reader = \<lparr>rd_buf = [], rd_rest = records c es @ d\<rparr>,
           ji_position = HEADER_LEN, ji_done = False\<rparr> m 0) Q E w"
proof -
  let ?it = "\<lparr>ji_reader = \<lparr>rd_buf = [], rd_rest = records c es @ d\<rparr>, ji_position = HEADER_LEN, ji_done = False\<rparr>"
  obtain r where r: "r \<le> length es" "replays c p ?it es d m 0 w r"
    "buffered (ji_reader ?it) \<longrightarrow> r = length es"
    using replay_loop_records [OF q, of ?it c es d p m 0] j by (auto simp: rd_stream_def)
  then have "length (records c es @ d) \<le> BUF_SIZE \<longrightarrow> r = length es" by (simp add: buffered_def)
  from wp_replays [OF r(2), of Q E] Q [OF r(1) this] show ?thesis by simp
qed

lemma wp_repair_quiet:
  assumes q: "quiet w" "jw_buf w = []" and j: "journal_holds c (wd_fs w) es d" and r: "r \<le> length es"
    and it: "ji_position it = HEADER_LEN + length (records c (take r es))"
    and Q: "\<And>fs n. snapshot_holds c fs = snapshot_holds c (wd_fs w) \<Longrightarrow> journal_holds c fs (take r es) [] \<Longrightarrow>
       Q (report_for c es d r) (w\<lparr>wd_fs := fs, wd_calls := n\<rparr>)"
  shows "wp (repair_tail True (tail_error journal_path es d r) it) Q E w"
proof (cases "r = length es \<and> d = []")
  case True
  then have "journal_holds c (wd_fs w) (take r es) []" using j by simp
  then show ?thesis using Q [of "wd_fs w" "wd_calls w"] True by (simp add: repair_tail_def wp_simps report_for_def tail_error_def)
next
  case False
  let ?J = "header_bytes JOURNAL_VERSION @ records c es @ d"
  let ?off = "HEADER_LEN + length (records c (take r es))"
  have jr: "fs_read (wd_fs w) journal_path = Some ?J" using j by (simp add: journal_holds_def)
  have len: "?off \<le> length ?J" using records_take [of c es r] by auto
  have "Q (report_for c es d r) (w\<lparr>wd_fs := fs_set journal_path (take ?off ?J) fs, wd_calls := n\<rparr>)"
    if "same_files (wd_fs w) fs" for fs n
  proof -
    have "journal_holds c fs es d" using that j by (simp add: journal_holds_def)
    then show ?thesis
      unfolding take_cut using that
      by (intro Q journal_holds_cut) (auto simp: snapshot_holds_def fun_eq_iff)
  qed
  then show ?thesis
    using False q jr len it
    by (auto simp: repair_tail_def wp_simps is_recoverable_def last_good_offset_def report_for_def Let_def tail_error_def
             intro!: wp_truncate_to_quiet)
qed

lemma replay_journal_at:
  assumes q: "quiet w" and s: "snapshot_holds c (wd_fs w) m" and j: "journal_holds c (wd_fs w) es d"
    and buf: "jw_buf w = []" and r: "r \<le> length es"
    and rep: "\<And>k. replays c journal_path \<lparr>ji_reader = \<lparr>rd_buf = [], rd_rest = records c es @ d\<rparr>,
           ji_position = HEADER_LEN, ji_done = False\<rparr> es d m 0 (w\<lparr>wd_calls := k\<rparr>) r"
  shows "wp (replay_journal c True m)
    (\<lambda>rep w'. rep = report_for c es d r \<and> in_sync c m (take r es) w' \<and> quiet w') E w"
proof -
  let ?J = "header_bytes JOURNAL_VERSION @ records c es @ d"
  have jr: "fs_read (wd_fs w) journal_path = Some ?J" using j by (simp add: journal_holds_def)
  have h: "take HEADER_LEN ?J = header_bytes JOURNAL_VERSION" by simp
  show ?thesis
    unfolding replay_journal_def
    apply (simp only: wp_bind wp_map_err)
    apply (rule wp_iter_quiet [OF q jr h])
    apply (simp add: wp_bind)
    apply (rule wp_replays [OF rep])
    apply (simp add: wp_bind)
    apply (rule wp_repair_quiet [where c = c and es = es and d = d])
    using q j s buf r
    by (auto simp: wp_simps in_sync_def snapshot_holds_same journal_holds_def)
qed

lemma replay_journal_recovers:
  assumes q: "quiet w" and buf: "jw_buf w = []" and s: "snapshot_holds c (wd_fs w) m"
    and j: "journal_holds c (wd_fs w) es d"
  shows "wp (replay_journal c True m) (recovered c m es d) (\<lambda>_ _. False) w"
proof -
  let ?J = "header_bytes JOURNAL_VERSION @ records c es @ d"
  have jr: "fs_read (wd_fs w) journal_path = Some ?J" and t: "torn c d" and ok: "\<forall>e \<in> set es. codec_ok c e"
    using j by (auto simp: journal_holds_def)
  have h: "take HEADER_LEN ?J = header_bytes JOURNAL_VERSION" by simp
  show ?thesis
    unfolding replay_journal_def
    apply (simp only: wp_bind wp_map_err)
    apply (rule wp_iter_quiet [OF q jr h])
    apply (simp add: wp_bind)
    apply (rule wp_replay_quiet)
    using q ok t apply simp_all [3]
    apply (simp add: wp_bind)
    apply (rule wp_repair_quiet [where c = c and es = es and d = d])
    using q j s buf
    by (auto simp: wp_simps recovered_def in_sync_def snapshot_holds_same journal_holds_def)
qed

text \<open>A journal that does not exist yet, or is empty, gets its header.\<close>

definition journal_files :: "codec \<Rightarrow> fs \<Rightarrow> journal_entry list \<Rightarrow> bytes \<Rightarrow> bool" where
  "journal_files c fs es d \<longleftrightarrow> journal_holds c fs es d \<or>
     fs_read fs journal_path \<in> {None, Some []} \<and> es = [] \<and> d = []"

lemma wp_journal_open_fresh:
  assumes "quiet w" "fs_read (wd_fs w) journal_path \<in> {None, Some []}"
    "\<And>fs n. fs_read fs journal_path = Some (header_bytes JOURNAL_VERSION) \<Longrightarrow>
       fs_read fs snapshot_path = fs_read (wd_fs w) snapshot_path \<Longrightarrow>
       Q () (w\<lparr>wd_fs := fs, wd_calls := n, jw_buf := []\<rparr>)"
  shows "wp (journal_open journal_path) Q E w"
  unfolding journal_open_def sys_open_create_def
  using assms
  by (auto simp: wp_simps sys_len_def write_header_def ticked_def fs_append_def header_bytes_def
           intro!: wp_journal_lock_quiet)

lemma wp_open_journal:
  assumes q: "quiet w" and s: "snapshot_holds c (wd_fs w) m" and j: "journal_files c (wd_fs w) es d"
    and Q: "\<And>w1. quiet w1 \<Longrightarrow> jw_buf w1 = [] \<Longrightarrow> snapshot_holds c (wd_fs w1) m \<Longrightarrow>
      journal_holds c (wd_fs w1) es d \<Longrightarrow> Q () w1"
  shows "wp (journal_open journal_path) Q E w"
proof (cases "journal_holds c (wd_fs w) es d")
  case True
  then have jr: "fs_read (wd_fs w) journal_path = Some (header_bytes JOURNAL_VERSION @ records c es @ d)"
    by (simp add: journal_holds_def)
  show ?thesis
    by (rule wp_journal_open_quiet [OF q jr])
      (use q s True in \<open>auto intro!: Q simp: snapshot_holds_same journal_holds_def\<close>)
next
  case False
  then have fresh: "fs_read (wd_fs w) journal_path \<in> {None, Some []}" "es = []" "d = []"
    using j by (auto simp: journal_files_def)
  show ?thesis
    by (rule wp_journal_open_fresh [OF q fresh(1)])
      (use q s fresh(2,3) in \<open>auto intro!: Q simp: snapshot_holds_def journal_holds_def torn_def\<close>)
qed

lemma wp_open_with_recovery:
  assumes q: "quiet w" and s: "snapshot_holds c (wd_fs w) m" and j: "journal_files c (wd_fs w) es d"
    and Q: "\<And>w1. quiet w1 \<Longrightarrow> jw_buf w1 = [] \<Longrightarrow> snapshot_holds c (wd_fs w1) m \<Longrightarrow>
      journal_holds c (wd_fs w1) es d \<Longrightarrow> wp (replay_journal c True m) Q E w1"
  shows "wp (open_with_recovery c) Q E w"
proof -
  have *: "wp (io_bind (io_map_err IxJournal (journal_open journal_path)) (\<lambda>_. replay_journal c True m)) Q E
      (w\<lparr>wd_calls := n\<rparr>)" for n
    unfolding wp_bind wp_map_err by (rule wp_open_journal [where c = c]) (use assms in \<open>auto intro!: Q\<close>)
  show ?thesis
  proof (cases "fs_read (wd_fs w) snapshot_path")
    case None
    then have "m = []" using s by (simp add: snapshot_holds_def)
    then show ?thesis
      using q None * by (simp add: open_with_recovery_def open_inner_def wp_simps ticked_def)
  next
    case (Some x)
    have "wp (load_snapshot c snapshot_path)
        (\<lambda>base. wp (io_bind (io_map_err IxJournal (journal_open journal_path)) (\<lambda>_. replay_journal c True base)) Q E)
        E (w\<lparr>wd_calls := n\<rparr>)" for n
      by (rule wp_load_snapshot_quiet [where m = m]) (use assms Some * in simp_all)
    then show ?thesis
      using q Some by (simp add: open_with_recovery_def open_inner_def wp_simps ticked_def)
  qed
qed

lemma open_recovers:
  assumes "quiet w" "snapshot_holds c (wd_fs w) m" "journal_files c (wd_fs w) es d"
  shows "wp (open_with_recovery c) (recovered c m es d) (\<lambda>_ _. False) w"
  by (rule wp_open_with_recovery [OF assms]) (rule replay_journal_recovers)

section \<open>Every schedule of faults\<close>

text \<open>Waiting for the lock changes nothing but the lock file, the call count and the clock.\<close>

definition waited :: "'a world_scheme \<Rightarrow> 'a world_scheme \<Rightarrow> bool" where
  "waited w w' \<longleftrightarrow> same_files (wd_fs w) (wd_fs w') \<and>
     w'\<lparr>wd_fs := wd_fs w, wd_calls := wd_calls w, wd_clock := wd_clock w\<rparr> = w"

lemma waited_trans: "waited a b \<Longrightarrow> waited b c \<Longrightarrow> waited a c"
proof -
  assume ab: "waited a b" and bc: "waited b c"
  have "c\<lparr>wd_fs := wd_fs a, wd_calls := wd_calls a, wd_clock := wd_clock a\<rparr> =
      c\<lparr>wd_fs := wd_fs b, wd_calls := wd_calls b, wd_clock := wd_clock b\<rparr>
       \<lparr>wd_fs := wd_fs a, wd_calls := wd_calls a, wd_clock := wd_clock a\<rparr>" by simp
  also have "\<dots> = a" using ab bc by (simp add: waited_def)
  finally show ?thesis using ab bc by (auto simp: waited_def intro: same_files_trans)
qed

lemma waitedE:
  assumes "waited w w'"
  obtains fs n t where "w' = w\<lparr>wd_fs := fs, wd_calls := n, wd_clock := t\<rparr>" "same_files (wd_fs w) fs"
proof -
  have "w\<lparr>wd_fs := wd_fs w', wd_calls := wd_calls w', wd_clock := wd_clock w'\<rparr> =
    w'\<lparr>wd_fs := wd_fs w, wd_calls := wd_calls w, wd_clock := wd_clock w\<rparr>
      \<lparr>wd_fs := wd_fs w', wd_calls := wd_calls w', wd_clock := wd_clock w'\<rparr>"
    using assms by (simp add: waited_def)
  also have "\<dots> = w'" by simp
  finally show ?thesis using that assms by (metis waited_def)
qed

lemma try_acquire_once_waited:
  assumes "try_acquire_once (lock_path_for journal_path) w = (r, w')"
  shows "waited w w'"
proof -
  have "wp (try_acquire_once (lock_path_for journal_path)) (\<lambda>_. waited w) (\<lambda>_. waited w) w"
    unfolding try_acquire_once_def sys_open_create_def
    by (auto simp: wp_simps same_files_lock waited_def split: option.split io_error.split)
  then show ?thesis using assms by (auto simp: wp_def split: sum.splits)
qed

lemma acquire_loop_waited:
  "acquire_loop (lock_path_for journal_path) timeout deadline i w = (r, w') \<Longrightarrow> waited w w'"
proof (induction "lock_path_for journal_path" timeout deadline i w arbitrary: r w' rule: acquire_loop.induct)
  case (1 timeout deadline i w)
  obtain r1 w1 where t: "try_acquire_once (lock_path_for journal_path) w = (r1, w1)" by fastforce
  note w1 = try_acquire_once_waited [OF t]
  show ?case
  proof (cases "r1 = Inr False \<and> wd_clock w1 < deadline")
    case True
    let ?w2 = "w1\<lparr>wd_clock := wd_clock w1 + backoff i + wd_lag w1 (wd_calls w1)\<rparr>"
    have "acquire_loop (lock_path_for journal_path) timeout deadline (Suc i) ?w2 = (r, w')"
      using "1.prems" t True by (simp add: acquire_loop.simps [of _ timeout deadline i])
    then have "waited ?w2 w'" using "1.hyps" t True by fastforce
    moreover have "waited w1 ?w2" by (simp add: waited_def)
    ultimately show ?thesis using w1 waited_trans by blast
  next
    case False
    then have "w' = w1"
      using "1.prems" t
      by (auto simp: acquire_loop.simps [of _ timeout deadline i] not_less split: sum.splits if_splits)
    then show ?thesis using w1 by simp
  qed
qed

lemma wp_journal_lock:
  assumes "\<And>fs n t. same_files (wd_fs w) fs \<Longrightarrow> Q () (w\<lparr>wd_fs := fs, wd_calls := n, wd_clock := t\<rparr>)"
    "\<And>e fs n t. same_files (wd_fs w) fs \<Longrightarrow> E e (w\<lparr>wd_fs := fs, wd_calls := n, wd_clock := t\<rparr>)"
  shows "wp (journal_lock (lock_path_for journal_path)) Q E w"
proof -
  obtain r w' where l: "journal_lock (lock_path_for journal_path) w = (r, w')" by fastforce
  then have "waited w w'" unfolding journal_lock_def by (rule acquire_loop_waited)
  then show ?thesis
    by (rule waitedE) (use assms l in \<open>auto simp: wp_def split: sum.split\<close>)
qed

text \<open>The parts of the state that appending a record leaves alone.\<close>

definition kept :: "'a index_world_scheme \<Rightarrow> 'a index_world_scheme \<Rightarrow> bool" where
  "kept w w' \<longleftrightarrow> fs_read (wd_fs w') snapshot_path = fs_read (wd_fs w) snapshot_path \<and>
     ix_entries w' = ix_entries w \<and> ix_since_compact w' = ix_since_compact w \<and>
     ix_threshold w' = ix_threshold w"

lemma journal_append_wp:
  assumes "jw_buf w = []" "fs_read (wd_fs w) journal_path = Some J"
    and enc: "cd_encode c e = Inr pl" "length pl < 2 ^ 32"
  shows "wp (journal_append c journal_path e)
    (\<lambda>_ w'. fs_read (wd_fs w') journal_path = Some (J @ frame c pl) \<and> jw_buf w' = [] \<and> kept w w')
    (\<lambda>_ w'. (\<exists>d. fs_read (wd_fs w') journal_path = Some (J @ d) \<and> prefix d (frame c pl)) \<and> kept w w') w"
proof -
  have ne: "frame c pl \<noteq> []" by (simp add: frame_def to_le_bytes_eq)
  show ?thesis
    unfolding journal_append_def bw_flush_def bw_write_all_def sys_len_def encode_payload_def
    using assms ne
    by (auto simp: wp_simps ticked_def kept_def fs_append_def take_is_prefix
             split: option.split intro!: wp_journal_lock)
qed

text \<open>The files after a mutation \<open>e\<close> was begun: those before it with a prefix of its record.\<close>

lemma begun_files:
  assumes "in_sync c m es w" "codec_ok c e" "fs_read fs snapshot_path = fs_read (wd_fs w) snapshot_path"
    "fs_read fs journal_path = Some (header_bytes JOURNAL_VERSION @ records c es @ d)"
    "prefix d (record_bytes c e)"
  shows "snapshot_holds c fs m"
    "d \<noteq> record_bytes c e \<Longrightarrow> journal_holds c fs es d"
    "d = record_bytes c e \<Longrightarrow> journal_holds c fs (es @ [e]) []"
proof -
  show "snapshot_holds c fs m" using assms(1,3) by (simp add: in_sync_def snapshot_holds_def)
  show "journal_holds c fs es d" if "d \<noteq> record_bytes c e"
  proof -
    have "length d < length (record_bytes c e)" "d = take (length d) (record_bytes c e)"
      using that assms(5) by (auto simp: prefix_def)
    then show ?thesis using assms by (auto simp: in_sync_def journal_holds_def torn_def)
  qed
  show "journal_holds c fs (es @ [e]) []" if "d = record_bytes c e"
    using that assms by (auto simp: in_sync_def journal_holds_def torn_def)
qed

definition begun :: "codec \<Rightarrow> entry_map \<Rightarrow> journal_entry list \<Rightarrow> journal_entry \<Rightarrow> fs \<Rightarrow> bool" where
  "begun c m es e fs \<longleftrightarrow> snapshot_holds c fs m \<and>
     ((\<exists>d. journal_holds c fs es d \<and> prefix d (record_bytes c e)) \<or> journal_holds c fs (es @ [e]) [])"

lemma append_begun_wp:
  assumes "in_sync c m es w" "codec_ok c e"
  shows "wp (journal_append c journal_path e)
    (\<lambda>_ w'. snapshot_holds c (wd_fs w') m \<and> journal_holds c (wd_fs w') (es @ [e]) [] \<and>
       jw_buf w' = [] \<and> kept w w')
    (\<lambda>_ w'. begun c m es e (wd_fs w')) w"
proof -
  obtain pl where pl: "cd_encode c e = Inr pl" "length pl < 2 ^ 32" "record_bytes c e = frame c pl"
    using assms(2) codec_okE by blast
  let ?J = "header_bytes JOURNAL_VERSION @ records c es"
  have jr: "fs_read (wd_fs w) journal_path = Some ?J" and buf: "jw_buf w = []"
    using assms(1) by (auto simp: in_sync_def journal_holds_def)
  note files = begun_files [OF assms]
  show ?thesis
  proof (rule wp_mono [OF journal_append_wp [OF buf jr pl(1,2)]])
    fix n w'
    assume "fs_read (wd_fs w') journal_path = Some (?J @ frame c pl) \<and> jw_buf w' = [] \<and> kept w w'"
    then have d: "fs_read (wd_fs w') journal_path =
        Some (header_bytes JOURNAL_VERSION @ records c es @ record_bytes c e)" and
      k: "fs_read (wd_fs w') snapshot_path = fs_read (wd_fs w) snapshot_path" and o: "jw_buf w' = []" "kept w w'"
      using pl(3) by (auto simp: kept_def)
    show "snapshot_holds c (wd_fs w') m \<and> journal_holds c (wd_fs w') (es @ [e]) [] \<and>
       jw_buf w' = [] \<and> kept w w'"
      using files(1) [OF k d] files(3) [OF k d] o by simp
  next
    fix err w'
    assume "(\<exists>d. fs_read (wd_fs w') journal_path = Some (?J @ d) \<and> prefix d (frame c pl)) \<and> kept w w'"
    then obtain d where d: "fs_read (wd_fs w') journal_path = Some (header_bytes JOURNAL_VERSION @ records c es @ d)"
      "prefix d (record_bytes c e)" and k: "fs_read (wd_fs w') snapshot_path = fs_read (wd_fs w) snapshot_path"
      using pl(3) by (auto simp: kept_def)
    show "begun c m es e (wd_fs w')"
      using files(1) [OF k d] files(2) [OF k d] files(3) [OF k d] d(2) unfolding begun_def
      by (cases "d = record_bytes c e") blast+
  qed
qed

lemma mutation_wp:
  assumes sync: "in_sync c m es w" and ok: "codec_ok c e" and room: "Suc (ix_since_compact w) < ix_threshold w"
    and Q: "\<And>w'. in_sync c m (es @ [e]) w' \<Longrightarrow> Q () w'" and E: "\<And>err w'. begun c m es e (wd_fs w') \<Longrightarrow> E err w'"
  shows "wp (io_bind (io_map_err IxJournal (journal_append c journal_path e)) (\<lambda>_.
     io_bind (commit e) (\<lambda>_. maybe_compact c))) Q E w"
  unfolding wp_bind wp_map_err
  by (rule wp_mono [OF append_begun_wp [OF sync ok]])
    (use sync room in \<open>auto simp: wp_simps commit_def maybe_compact_def kept_def in_sync_def intro: Q E\<close>)

text \<open>Reopening after a mutation was begun.\<close>

lemma begun_recovers:
  assumes "begun c m es e (wd_fs v)" "quiet v" "codec_ok c e"
  shows "\<exists>rep v' es'. open_with_recovery c v = (Inr rep, v') \<and> in_sync c m es' v' \<and> prefix es' (es @ [e]) \<and>
    (length (records c (es @ [e])) \<le> BUF_SIZE \<longrightarrow>
       es' = es \<or> es' = es @ [e]) \<and>
    (journal_holds c (wd_fs v) (es @ [e]) [] \<and> length (records c (es @ [e])) \<le> BUF_SIZE \<longrightarrow> es' = es @ [e])"
proof -
  have run: "\<exists>rep v' r. open_with_recovery c v = (Inr rep, v') \<and> in_sync c m (take r es') v' \<and>
      (length (records c es' @ d) \<le> BUF_SIZE \<longrightarrow> r = length es')" if "journal_holds c (wd_fs v) es' d" for es' d
  proof -
    have "wp (open_with_recovery c) (recovered c m es' d) (\<lambda>_ _. False) v"
      using assms(1,2) that by (intro open_recovers) (auto simp: begun_def journal_files_def)
    then show ?thesis by (auto simp: wp_def recovered_def split: prod.splits sum.splits)
  qed
  show ?thesis
  proof (cases "journal_holds c (wd_fs v) (es @ [e]) []")
    case True
    from run [OF this] obtain rep v' r where r: "open_with_recovery c v = (Inr rep, v')"
      "in_sync c m (take r (es @ [e])) v'" "length (records c (es @ [e])) \<le> BUF_SIZE \<longrightarrow> r = length (es @ [e])"
      by auto
    have "length (records c (es @ [e])) \<le> BUF_SIZE \<longrightarrow> take r (es @ [e]) = es @ [e]" using r(3) by auto
    then show ?thesis using r(1,2) take_is_prefix by blast
  next
    case False
    then obtain d where d: "journal_holds c (wd_fs v) es d" "prefix d (record_bytes c e)"
      using assms(1) by (auto simp: begun_def)
    from run [OF d(1)] obtain rep v' r where r: "open_with_recovery c v = (Inr rep, v')"
      "in_sync c m (take r es) v'" "length (records c es @ d) \<le> BUF_SIZE \<longrightarrow> r = length es" by blast
    have "length (records c (es @ [e])) \<le> BUF_SIZE \<longrightarrow> take r es = es"
      using r(3) prefix_length_le [OF d(2)] by auto
    moreover have "prefix (take r es) (es @ [e])" using take_is_prefix prefix_prefix by blast
    ultimately show ?thesis using r(1,2) False by blast
  qed
qed

section \<open>Compaction\<close>

definition snapshot_codec_ok :: "codec \<Rightarrow> entry_map \<Rightarrow> bool" where
  "snapshot_codec_ok c m \<longleftrightarrow>
     (case cd_encode_snapshot c m of Inr body \<Rightarrow> cd_decode_snapshot c body = Inr m | Inl _ \<Rightarrow> False)"

definition handle_kept :: "'a index_world_scheme \<Rightarrow> 'a index_world_scheme \<Rightarrow> bool" where
  "handle_kept w w' \<longleftrightarrow> jw_buf w' = jw_buf w \<and> ix_entries w' = ix_entries w"

lemma write_snapshot_wp:
  assumes "snapshot_codec_ok c m" "bt_wf m"
  shows "wp (write_snapshot c m snapshot_path snapshot_tmp)
    (\<lambda>_ w'. snapshot_holds c (wd_fs w') m \<and>
       fs_read (wd_fs w') journal_path = fs_read (wd_fs w) journal_path \<and> handle_kept w w')
    (\<lambda>_ w'. fs_read (wd_fs w') snapshot_path = fs_read (wd_fs w) snapshot_path \<and>
       fs_read (wd_fs w') journal_path = fs_read (wd_fs w) journal_path \<and> handle_kept w w') w"
proof -
  obtain body where "cd_encode_snapshot c m = Inr body" "cd_decode_snapshot c body = Inr m"
    using assms(1) by (auto simp: snapshot_codec_ok_def split: sum.splits)
  then show ?thesis
    unfolding write_snapshot_def sys_open_truncate_def sys_rename_def
    using assms(2)
    by (auto simp: wp_simps ticked_def handle_kept_def fs_append_def snapshot_holds_def fs_read_def
        fs_set_def im.get_put split: option.split)
qed

lemma journal_truncate_wp:
  assumes "jw_buf w = []" "fs_read (wd_fs w) journal_path = Some J"
  shows "wp (journal_truncate journal_path)
    (\<lambda>_ w'. fs_read (wd_fs w') journal_path = Some (header_bytes JOURNAL_VERSION) \<and>
       fs_read (wd_fs w') snapshot_path = fs_read (wd_fs w) snapshot_path \<and> handle_kept w w')
    (\<lambda>_ w'. (\<exists>d. fs_read (wd_fs w') journal_path = Some d \<and> (d = J \<or> prefix d (header_bytes JOURNAL_VERSION))) \<and>
       fs_read (wd_fs w') snapshot_path = fs_read (wd_fs w) snapshot_path) w"
  unfolding journal_truncate_def bw_flush_def sys_set_len_def write_header_def
  using assms
  by (auto simp: wp_simps ticked_def handle_kept_def fs_append_def header_bytes_def take_is_prefix
      intro!: wp_journal_lock split: option.split)

definition torn_header :: "fs \<Rightarrow> bool" where
  "torn_header fs \<longleftrightarrow> (\<exists>d. fs_read fs journal_path = Some d \<and> d \<noteq> [] \<and>
     prefix d (header_bytes JOURNAL_VERSION) \<and> d \<noteq> header_bytes JOURNAL_VERSION)"

definition compacting :: "codec \<Rightarrow> entry_map \<Rightarrow> journal_entry list \<Rightarrow> fs \<Rightarrow> bool" where
  "compacting c m es fs \<longleftrightarrow>
     (snapshot_holds c fs m \<or> snapshot_holds c fs (fold apply_entry es m)) \<and> journal_holds c fs es [] \<or>
     snapshot_holds c fs (fold apply_entry es m) \<and> (journal_files c fs [] [] \<or> torn_header fs)"

lemma header_prefix_cases:
  assumes "fs_read fs journal_path = Some d" "prefix d (header_bytes JOURNAL_VERSION)"
  shows "journal_files c fs [] [] \<or> torn_header fs"
  using assms by (cases "d = [] \<or> d = header_bytes JOURNAL_VERSION")
    (auto simp: journal_files_def journal_holds_def torn_def torn_header_def)

lemma compact_wp:
  assumes sync: "in_sync c m es w" and ok: "snapshot_codec_ok c (ix_entries w)"
  shows "wp (index_compact c)
    (\<lambda>_ w'. in_sync c (ix_entries w) [] w') (\<lambda>_ w'. compacting c m es (wd_fs w')) w"
proof -
  let ?M = "fold apply_entry es m"
  have M: "ix_entries w = ?M" and wf: "bt_wf ?M" and buf: "jw_buf w = []"
    and j: "journal_holds c (wd_fs w) es []" and s: "snapshot_holds c (wd_fs w) m"
    using sync by (auto simp: in_sync_def snapshot_holds_def intro: bt_wf_fold_apply)
  have old: "compacting c m es fs" if "fs_read fs snapshot_path = fs_read (wd_fs w) snapshot_path"
    "fs_read fs journal_path = fs_read (wd_fs w) journal_path" for fs
    using that s j by (simp add: compacting_def snapshot_holds_def journal_holds_def)
  have trunc: "wp (journal_truncate journal_path)
     (\<lambda>_. wp (io_modify (\<lambda>w. w\<lparr>ix_since_compact := 0\<rparr>)) (\<lambda>_. in_sync c ?M []) (\<lambda>_ w'. compacting c m es (wd_fs w')))
     (\<lambda>_ w'. compacting c m es (wd_fs w')) w1"
    if sn: "snapshot_holds c (wd_fs w1) ?M" and jr: "fs_read (wd_fs w1) journal_path = fs_read (wd_fs w) journal_path"
      and hk: "handle_kept w w1" for w1
  proof (rule wp_mono [OF journal_truncate_wp])
    show "jw_buf w1 = []" using hk buf by (simp add: handle_kept_def)
    show "fs_read (wd_fs w1) journal_path = Some (header_bytes JOURNAL_VERSION @ records c es)"
      using jr j by (simp add: journal_holds_def)
  next
    fix u w2
    assume "fs_read (wd_fs w2) journal_path = Some (header_bytes JOURNAL_VERSION) \<and>
      fs_read (wd_fs w2) snapshot_path = fs_read (wd_fs w1) snapshot_path \<and> handle_kept w1 w2"
    then show "wp (io_modify (\<lambda>w. w\<lparr>ix_since_compact := 0\<rparr>)) (\<lambda>_. in_sync c ?M [])
        (\<lambda>_ w'. compacting c m es (wd_fs w')) w2"
      using sn hk buf M
      by (simp add: wp_simps in_sync_def snapshot_holds_def journal_holds_def torn_def handle_kept_def)
  next
    fix err w2
    assume a: "(\<exists>d. fs_read (wd_fs w2) journal_path = Some d \<and>
        (d = header_bytes JOURNAL_VERSION @ records c es \<or> prefix d (header_bytes JOURNAL_VERSION))) \<and>
      fs_read (wd_fs w2) snapshot_path = fs_read (wd_fs w1) snapshot_path"
    then have sn2: "snapshot_holds c (wd_fs w2) ?M" using sn by (simp add: snapshot_holds_def)
    from a consider "journal_holds c (wd_fs w2) es []" | "journal_files c (wd_fs w2) [] [] \<or> torn_header (wd_fs w2)"
      using j header_prefix_cases by (auto simp: journal_holds_def)
    then show "compacting c m es (wd_fs w2)" using sn2 by cases (auto simp: compacting_def)
  qed
  show ?thesis
    unfolding index_compact_def wp_bind wp_map_err wp_get M
    by (rule wp_mono [OF write_snapshot_wp [OF ok [unfolded M] wf]]) (use old trunc in \<open>auto simp: wp_simps\<close>)
qed

lemma open_runs:
  assumes "quiet v" "snapshot_holds c (wd_fs v) m" "journal_files c (wd_fs v) es d"
  obtains rep v' r where "open_with_recovery c v = (Inr rep, v')" "rep = report_for c es d r"
    "in_sync c m (take r es) v'" "r \<le> length es" "length (records c es @ d) \<le> BUF_SIZE \<longrightarrow> r = length es"
  using open_recovers [OF assms] by (auto simp: wp_def recovered_def split: prod.splits sum.splits)

lemma compacting_recovers:
  assumes "compacting c m es (wd_fs v)" "\<not> torn_header (wd_fs v)" "quiet v" "bt_wf m"
    "length (records c es) \<le> BUF_SIZE"
  shows "\<exists>rep v'. open_with_recovery c v = (Inr rep, v') \<and> ix_entries v' = fold apply_entry es m"
proof -
  have "\<exists>m0 es0. snapshot_holds c (wd_fs v) m0 \<and> journal_files c (wd_fs v) es0 [] \<and>
      length (records c es0) \<le> BUF_SIZE \<and> fold apply_entry es0 m0 = fold apply_entry es m"
    using assms replay_twice [OF assms(4), of es]
    by (fastforce simp: compacting_def journal_files_def)
  then obtain m0 es0 where s: "snapshot_holds c (wd_fs v) m0" "journal_files c (wd_fs v) es0 []"
    "length (records c es0) \<le> BUF_SIZE" "fold apply_entry es0 m0 = fold apply_entry es m" by blast
  from open_runs [OF assms(3) s(1,2)] show ?thesis
    using s(3,4) by (metis append_Nil2 in_sync_def take_all_iff order_refl)
qed

lemma open_torn_header:
  assumes "torn_header (wd_fs v)" "quiet v" "snapshot_holds c (wd_fs v) m"
  shows "\<exists>v'. open_with_recovery c v = (Inl (IxJournal (JIo journal_path UnexpectedEof)), v')"
proof -
  obtain d where d: "fs_read (wd_fs v) journal_path = Some d" "d \<noteq> []" "length d < HEADER_LEN"
    using assms(1) prefix_length_less [of _ "header_bytes JOURNAL_VERSION"]
    by (auto simp: torn_header_def strict_prefix_def)
  let ?E = "\<lambda>e w. e = IxJournal (JIo journal_path UnexpectedEof)"
  have *: "wp (io_bind (io_map_err IxJournal (journal_open journal_path)) (\<lambda>_. replay_journal c True b))
      (\<lambda>_ _. False) ?E (v\<lparr>wd_calls := n\<rparr>)" for n b
    unfolding journal_open_def validate_header_def sys_open_create_def wp_bind wp_map_err
    using d assms(2)
    by (auto simp: wp_simps sys_len_def sys_read_file_def intro!: wp_journal_lock_quiet)
  have "wp (open_with_recovery c) (\<lambda>_ _. False) ?E v"
  proof (cases "fs_read (wd_fs v) snapshot_path")
    case None
    then show ?thesis
      using assms(2) * by (simp add: open_with_recovery_def open_inner_def wp_simps ticked_def)
  next
    case (Some x)
    have "wp (load_snapshot c snapshot_path)
        (\<lambda>base. wp (io_bind (io_map_err IxJournal (journal_open journal_path)) (\<lambda>_. replay_journal c True base))
           (\<lambda>_ _. False) ?E) ?E (v\<lparr>wd_calls := n\<rparr>)" for n
      by (rule wp_load_snapshot_quiet [where m = m]) (use assms Some * in \<open>simp_all\<close>)
    then show ?thesis
      using assms(2) Some by (simp add: open_with_recovery_def open_inner_def wp_simps ticked_def)
  qed
  then show ?thesis by (auto simp: wp_def split: prod.splits sum.splits)
qed

end
