(* ===== verification/IndexProps.thy ===== *)
theory IndexProps
  imports IndexRecovery
begin

text \<open>
  The properties of the cache index: what a restart recovers, crash safety of the mutations
  and of compaction, and the behaviours of the code that break them.
\<close>

section \<open>Mutations\<close>

text \<open>The three mutations of a handle, by the record they append.\<close>

fun index_mutate :: "codec \<Rightarrow> journal_entry \<Rightarrow> ('a index_world_scheme, unit, index_error) io" where
  "index_mutate c (JPut k x) = index_put c k x"
| "index_mutate c (JRemove k) = io_bind (index_remove c k) (\<lambda>_. io_return ())"
| "index_mutate c (JTouch k t) = io_bind (index_touch c k t) (\<lambda>_. io_return ())"

lemma append_then_wp:
  assumes "in_sync c m es w" "codec_ok c e"
    "\<And>w1. snapshot_holds c (wd_fs w1) m \<Longrightarrow> journal_holds c (wd_fs w1) (es @ [e]) [] \<Longrightarrow> jw_buf w1 = [] \<Longrightarrow>
       kept w w1 \<Longrightarrow> wp f Q (\<lambda>_ w'. begun c m es e (wd_fs w')) w1"
  shows "wp (io_bind (io_map_err IxJournal (journal_append c journal_path e)) (\<lambda>_. f))
    Q (\<lambda>_ w'. begun c m es e (wd_fs w')) w"
  unfolding wp_bind wp_map_err
  by (rule wp_mono [OF append_begun_wp [OF assms(1,2)]]) (use assms(3) in auto)

lemma index_mutate_wp:
  assumes "in_sync c m es w" "codec_ok c e" "Suc (ix_since_compact w) < ix_threshold w"
  shows "wp (index_mutate c e) (\<lambda>_. in_sync c m (es @ [e])) (\<lambda>_ w'. begun c m es e (wd_fs w')) w"
proof -
  note step = append_then_wp [OF assms(1,2)]
  show ?thesis
  proof (cases e)
    case (JPut k x)
    show ?thesis
      unfolding JPut index_mutate.simps index_put_def
      by (rule step [unfolded JPut])
        (use assms in \<open>auto simp: wp_simps commit_def maybe_compact_def kept_def in_sync_def JPut\<close>)
  next
    case (JRemove k)
    show ?thesis
      unfolding JRemove index_mutate.simps index_remove_def wp_bind [of "io_bind _ _"]
      by (rule step [unfolded JRemove])
        (use assms in \<open>auto simp: wp_simps commit_def maybe_compact_def kept_def in_sync_def JRemove\<close>)
  next
    case (JTouch k t)
    show ?thesis
      unfolding JTouch index_mutate.simps index_touch_def wp_bind [of "io_bind _ _"]
      by (rule step [unfolded JTouch])
        (use assms in \<open>auto simp: wp_simps commit_def maybe_compact_def kept_def in_sync_def JTouch\<close>)
  qed
qed

text \<open>C20. Recovery is sound. When the snapshot file holds the map \<open>m\<close> and the journal file holds
  complete records \<open>es\<close> followed by the torn bytes of one more, opening with recovery succeeds;
  the map in memory is \<open>m\<close> with a prefix of \<open>es\<close> applied in order, the journal file is cut to
  exactly those records, the report tells whether and where it was cut, and a journal that fits
  the reader's 8 KiB buffer is recovered completely.\<close>

theorem recovery_sound:
  assumes "quiet w" "snapshot_holds c (wd_fs w) m" "journal_holds c (wd_fs w) es d"
  shows "\<exists>r w'. open_with_recovery c w = (Inr (report_for c es d r), w') \<and> r \<le> length es \<and>
    ix_entries w' = fold apply_entry (take r es) m \<and>
    fs_read (wd_fs w') journal_path = Some (header_bytes JOURNAL_VERSION @ records c (take r es)) \<and>
    (length (records c es @ d) \<le> BUF_SIZE \<longrightarrow> r = length es)"
proof -
  have "journal_files c (wd_fs w) es d" using assms(3) by (simp add: journal_files_def)
  from open_runs [OF assms(1,2) this] obtain w' r where
    "open_with_recovery c w = (Inr (report_for c es d r), w')" "in_sync c m (take r es) w'"
    "r \<le> length es" "length (records c es @ d) \<le> BUF_SIZE \<longrightarrow> r = length es" by metis
  then show ?thesis by (auto simp: in_sync_def journal_holds_def)
qed

text \<open>C21. Mutations are crash safe. Take a handle in step with its files and run \<open>put\<close>,
  \<open>remove\<close> or \<open>touch\<close> below the compaction threshold under any schedule of I/O errors and
  kills. A restart then opens the index, with a prefix of the recorded mutations applied; if
  the journal with the new record is at most as long as the reader's 8 KiB buffer the recovered
  map is the one before or the one after the mutation, and the one after when the mutation
  returned \<open>Ok\<close>.\<close>

theorem mutation_crash_safe:
  assumes "in_sync c m es w" "codec_ok c e" "Suc (ix_since_compact w) < ix_threshold w"
    "index_mutate c e w = (res, w')" "wd_fs v = wd_fs w'" "quiet v"
  shows "\<exists>rep v' es'. open_with_recovery c v = (Inr rep, v') \<and> in_sync c m es' v' \<and> prefix es' (es @ [e]) \<and>
    (length (records c (es @ [e])) \<le> BUF_SIZE \<longrightarrow>
       ix_entries v' = ix_entries w \<or> ix_entries v' = apply_entry e (ix_entries w)) \<and>
    (length (records c (es @ [e])) \<le> BUF_SIZE \<and> res = Inr () \<longrightarrow> ix_entries v' = apply_entry e (ix_entries w))"
proof -
  have out: "case res of Inr _ \<Rightarrow> in_sync c m (es @ [e]) w' | Inl _ \<Rightarrow> begun c m es e (wd_fs w')"
    using index_mutate_wp [OF assms(1-3)] assms(4) by (simp add: wp_def split: sum.splits)
  then have "begun c m es e (wd_fs v)"
    using assms(5) by (auto simp: begun_def in_sync_def split: sum.splits)
  from begun_recovers [OF this assms(6,2)] obtain rep v' es' where r:
    "open_with_recovery c v = (Inr rep, v')" "in_sync c m es' v'" "prefix es' (es @ [e])"
    "length (records c (es @ [e])) \<le> BUF_SIZE \<longrightarrow> es' = es \<or> es' = es @ [e]"
    "journal_holds c (wd_fs v) (es @ [e]) [] \<and> length (records c (es @ [e])) \<le> BUF_SIZE \<longrightarrow> es' = es @ [e]"
    by metis
  have "res = Inr () \<longrightarrow> journal_holds c (wd_fs v) (es @ [e]) []"
    using out assms(5) by (auto simp: in_sync_def)
  moreover have "es' = es \<Longrightarrow> ix_entries v' = ix_entries w"
    "es' = es @ [e] \<Longrightarrow> ix_entries v' = apply_entry e (ix_entries w)"
    using r(2) assms(1) by (auto simp: in_sync_def)
  ultimately show ?thesis using r by blast
qed

text \<open>C22. Compaction is crash safe but for one window. Take a journal whose records are
  at most as long as the reader's 8 KiB buffer. Under any schedule of faults, either it is
  interrupted while the truncated journal's header is being rewritten, or a restart recovers
  the same map; when it returns \<open>Ok\<close> the latter holds.\<close>

theorem compaction_crash_safe:
  assumes "in_sync c m es w" "snapshot_codec_ok c (ix_entries w)" "length (records c es) \<le> BUF_SIZE"
    "index_compact c w = (res, w')" "wd_fs v = wd_fs w'" "quiet v"
  shows "(torn_header (wd_fs w') \<and> res \<noteq> Inr ()) \<or>
    (\<exists>rep v'. open_with_recovery c v = (Inr rep, v') \<and> ix_entries v' = ix_entries w)"
proof -
  have M: "ix_entries w = fold apply_entry es m" and wf: "bt_wf m"
    using assms(1) by (auto simp: in_sync_def snapshot_holds_def)
  have out: "case res of Inr _ \<Rightarrow> in_sync c (ix_entries w) [] w' | Inl _ \<Rightarrow> compacting c m es (wd_fs w')"
    using compact_wp [OF assms(1,2)] assms(4) by (simp add: wp_def split: sum.splits)
  show ?thesis
  proof (cases res)
    case (Inl err)
    then show ?thesis using out compacting_recovers [OF _ _ assms(6) wf assms(3)] assms(5) M by auto
  next
    case (Inr u)
    then have s: "snapshot_holds c (wd_fs v) (ix_entries w)" "journal_files c (wd_fs v) [] []"
      using out assms(5) by (auto simp: in_sync_def journal_files_def)
    from open_runs [OF assms(6) this] show ?thesis by (metis fold_simps(1) in_sync_def take_Nil)
  qed
qed

section \<open>A compaction killed while the header is rewritten\<close>

text \<open>Every system call succeeds up to the \<open>n\<close>-th; the process is killed there.\<close>

definition killed_at :: "nat \<Rightarrow> nat \<Rightarrow> (io_error \<times> nat) option" where
  "killed_at n i = (if i < n then None else Some (OtherIo ''killed'', 0))"

lemma compact_killed_wp:
  assumes "in_sync c m es w" "cd_encode_snapshot c (ix_entries w) = Inr body"
    "cd_decode_snapshot c body = Inr (ix_entries w)" "length body \<le> BUF_SIZE - HEADER_LEN"
    "wd_faults w = killed_at (wd_calls w + 10)"
  shows "wp (index_compact c) (\<lambda>_ _. False)
    (\<lambda>_ w'. torn_header (wd_fs w') \<and> snapshot_holds c (wd_fs w') (ix_entries w)) w"
proof -
  have wf: "bt_wf (ix_entries w)" and buf: "jw_buf w = []" and
    jr: "fs_read (wd_fs w) journal_path = Some (header_bytes JOURNAL_VERSION @ records c es)"
    using assms(1) by (auto simp: in_sync_def snapshot_holds_def journal_holds_def intro: bt_wf_fold_apply)
  have lock: "journal_lock (lock_path_for journal_path) u =
      (Inr (), u\<lparr>wd_fs := case fs_read (wd_fs u) (lock_path_for journal_path) of
                  None \<Rightarrow> fs_set (lock_path_for journal_path) [] (wd_fs u) | Some _ \<Rightarrow> wd_fs u,
                wd_calls := wd_calls u + 2\<rparr>)"
    if "wd_faults u (wd_calls u) = None" "wd_faults u (Suc (wd_calls u)) = None" for u :: "'a index_world_scheme"
    using that
    by (simp add: journal_lock_def acquire_loop.simps [of _ _ _ 0] try_acquire_once_def io_bind_def io_map_err_def
        sys_open_create_def syscall_def io_try_def sys_nop_def sys_pure_def io_return_def)
  have wplock: "wp (journal_lock (lock_path_for journal_path)) Q E u =
      Q () (u\<lparr>wd_fs := case fs_read (wd_fs u) (lock_path_for journal_path) of
                  None \<Rightarrow> fs_set (lock_path_for journal_path) [] (wd_fs u) | Some _ \<Rightarrow> wd_fs u,
                wd_calls := wd_calls u + 2\<rparr>)"
    if "wd_faults u (wd_calls u) = None" "wd_faults u (Suc (wd_calls u)) = None" for u :: "'a index_world_scheme" and Q E
    using lock [OF that] by (simp add: wp_def)
  show ?thesis
    unfolding index_compact_def write_snapshot_def sys_open_truncate_def sys_rename_def journal_truncate_def
      bw_flush_def sys_set_len_def write_header_def
    using assms(2-5) wf buf jr
    by (simp add: wp_simps ticked_def killed_at_def wplock fs_append_def fs_set_def [of snapshot_tmp] im.get_put
        torn_header_def snapshot_holds_def header_bytes_def FILE_MAGIC_def to_le_bytes_eq HEADER_LEN_def
        split: option.split)
qed

text \<open>A compaction killed after the four magic bytes of the new journal header are written
  leaves an index that no longer opens, with or without recovery: the error is a plain I/O
  error, which \<open>is_recoverable\<close> rejects, although the snapshot holds every entry.\<close>

lemma compaction_kill_bricks:
  assumes "in_sync c m es w" "snapshot_codec_ok c (ix_entries w)"
    "cd_encode_snapshot c (ix_entries w) = Inr body" "length body \<le> BUF_SIZE - HEADER_LEN"
    "index_compact c (w\<lparr>wd_faults := killed_at (wd_calls w + 10)\<rparr>) = (res, w')" "wd_fs v = wd_fs w'" "quiet v"
  shows "snapshot_holds c (wd_fs v) (ix_entries w) \<and>
    (\<exists>v'. open_with_recovery c v = (Inl (IxJournal (JIo journal_path UnexpectedEof)), v'))"
proof -
  let ?w = "w\<lparr>wd_faults := killed_at (wd_calls w + 10)\<rparr>"
  have "wp (index_compact c) (\<lambda>_ _. False)
      (\<lambda>_ w'. torn_header (wd_fs w') \<and> snapshot_holds c (wd_fs w') (ix_entries ?w)) ?w"
    by (rule compact_killed_wp [where m = m and es = es and body = body])
      (use assms(1-4) in \<open>auto simp: in_sync_def snapshot_codec_ok_def\<close>)
  then have "torn_header (wd_fs v)" "snapshot_holds c (wd_fs v) (ix_entries w)"
    using assms(5,6) by (auto simp: wp_def split: sum.splits)
  then show ?thesis using open_torn_header [OF _ assms(7)] by blast
qed

section \<open>Interleaved handles\<close>

lemma journal_append_quiet:
  assumes q: "quiet w" and w: "jw_buf w = []" "fs_read (wd_fs w) journal_path = Some J" and ok: "codec_ok c e"
  shows "wp (journal_append c journal_path e)
    (\<lambda>_ w'. fs_read (wd_fs w') journal_path = Some (J @ record_bytes c e) \<and> jw_buf w' = [] \<and> kept w w' \<and> quiet w')
    (\<lambda>_ _. False) w"
proof -
  obtain pl where pl: "cd_encode c e = Inr pl" "length pl < 2 ^ 32" "record_bytes c e = frame c pl"
    using ok codec_okE by blast
  have ne: "frame c pl \<noteq> []" by (simp add: frame_def to_le_bytes_eq)
  show ?thesis
    unfolding journal_append_def bw_flush_def bw_write_all_def sys_len_def encode_payload_def
    using q w pl ne
    by (auto simp: wp_simps ticked_def kept_def fs_append_def intro!: wp_journal_lock_quiet)
qed

lemma compact_quiet:
  assumes q: "quiet w" and w: "jw_buf w = []" "fs_read (wd_fs w) journal_path = Some J"
    and ok: "snapshot_codec_ok c (ix_entries w)" "bt_wf (ix_entries w)"
  shows "wp (index_compact c) (\<lambda>_ w'. in_sync c (ix_entries w) [] w' \<and> ix_threshold w' = ix_threshold w \<and> quiet w') (\<lambda>_ _. False) w"
proof -
  obtain body where b: "cd_encode_snapshot c (ix_entries w) = Inr body" "cd_decode_snapshot c body = Inr (ix_entries w)"
    using ok(1) by (auto simp: snapshot_codec_ok_def split: sum.splits)
  show ?thesis
    unfolding index_compact_def write_snapshot_def sys_open_truncate_def sys_rename_def journal_truncate_def
      bw_flush_def sys_set_len_def write_header_def
    using q w ok(2) b
    by (auto simp: wp_simps ticked_def fs_append_def fs_set_def [of snapshot_tmp] im.get_put in_sync_def
        snapshot_holds_def journal_holds_def torn_def header_bytes_def HEADER_LEN_def FILE_MAGIC_def
        intro!: wp_journal_lock_quiet)
qed

section \<open>Records that straddle the reader's buffer\<close>

lemma br_take_in_buf:
  "n \<le> length (rd_buf rd) \<Longrightarrow> rd_buf rd \<noteq> [] \<Longrightarrow>
   br_take n rd = (take n (rd_buf rd), rd\<lparr>rd_buf := drop n (rd_buf rd)\<rparr>)"
  by (simp add: br_take_def Let_def)

lemma read_exact_in_buf:
  assumes "quiet w" "n \<le> length (rd_buf rd)"
  shows "\<exists>k. read_exact n rd w =
    (Inr (take n (rd_buf rd), rd\<lparr>rd_buf := drop n (rd_buf rd)\<rparr>), w\<lparr>wd_calls := k\<rparr>)"
proof (cases "n = 0")
  case True
  then have "read_exact n rd w =
      (Inr (take n (rd_buf rd), rd\<lparr>rd_buf := drop n (rd_buf rd)\<rparr>), w\<lparr>wd_calls := wd_calls w\<rparr>)"
    by (simp add: read_exact.simps)
  then show ?thesis by blast
next
  case False
  then have ne: "rd_buf rd \<noteq> []" "take n (rd_buf rd) \<noteq> []" using assms(2) by auto
  obtain k where "br_read n rd w = (Inr (br_take n rd), w\<lparr>wd_calls := k\<rparr>)"
    using br_read_quiet [OF assms(1)] by blast
  then show ?thesis
    using False ne assms(2)
    by (auto simp: br_take_in_buf read_exact.simps [of n] read_exact.simps [of 0] min_def)
qed

lemma journal_next_in_buf:
  assumes q: "quiet w" and it: "\<not> ji_done it" and rd: "br_take 4 (ji_reader it) = br_take 4 rd"
    and b: "rd_buf rd = record_bytes c e @ bs" and ok: "codec_ok c e"
  shows "\<exists>k. journal_next c p it w =
    ((Some (Inr e), it\<lparr>ji_reader := rd\<lparr>rd_buf := bs\<rparr>,
                       ji_position := ji_position it + length (record_bytes c e)\<rparr>), w\<lparr>wd_calls := k\<rparr>)"
proof -
  obtain pl where pl: "length pl < 2 ^ 32" "cd_decode c pl = Inr e" "record_bytes c e = frame c pl"
    using ok codec_okE by blast
  let ?len = "to_le_bytes (word_of_nat (length pl))"
  have b': "rd_buf rd = ?len @ pl @ to_le_bytes (cd_crc32 c pl) @ bs" using b pl(3) by (simp add: frame_def)
  have t: "br_take 4 (ji_reader it) = (?len, rd\<lparr>rd_buf := pl @ to_le_bytes (cd_crc32 c pl) @ bs\<rparr>)"
    unfolding rd using b' by (subst br_take_in_buf) (auto simp: to_le_bytes_eq)
  obtain k where k: "journal_next c p it w =
      read_body c p it (length pl) (rd\<lparr>rd_buf := pl @ to_le_bytes (cd_crc32 c pl) @ bs\<rparr>) (w\<lparr>wd_calls := k\<rparr>)"
    using journal_next_start [OF q it t, of c p] pl(1) by (auto simp: frame_length_word)
  obtain k1 where k1: "read_exact (length pl) (rd\<lparr>rd_buf := pl @ to_le_bytes (cd_crc32 c pl) @ bs\<rparr>) (w\<lparr>wd_calls := k\<rparr>) =
      (Inr (pl, rd\<lparr>rd_buf := to_le_bytes (cd_crc32 c pl) @ bs\<rparr>), w\<lparr>wd_calls := k1\<rparr>)"
    using read_exact_in_buf [of "w\<lparr>wd_calls := k\<rparr>" "length pl" "rd\<lparr>rd_buf := pl @ to_le_bytes (cd_crc32 c pl) @ bs\<rparr>"] q
    by auto
  obtain k2 where k2: "read_exact 4 (rd\<lparr>rd_buf := to_le_bytes (cd_crc32 c pl) @ bs\<rparr>) (w\<lparr>wd_calls := k1\<rparr>) =
      (Inr (to_le_bytes (cd_crc32 c pl), rd\<lparr>rd_buf := bs\<rparr>), w\<lparr>wd_calls := k2\<rparr>)"
    using read_exact_in_buf [of "w\<lparr>wd_calls := k1\<rparr>" 4 "rd\<lparr>rd_buf := to_le_bytes (cd_crc32 c pl) @ bs\<rparr>"] q by auto
  show ?thesis
    using k k1 k2 pl by (auto simp: read_body_def Let_def decode_payload_def add.commute add.left_commute)
qed

lemma replay_in_buf:
  assumes "quiet w" "\<not> ji_done it" "rd_buf (ji_reader it) = records c es @ bs" "\<forall>e \<in> set es. codec_ok c e"
    "bs \<noteq> []" "length bs < 4"
  shows "\<exists>it' k. replay_loop c p it m n w =
      (Inr (Some (Truncated p), it', fold apply_entry es m, n + length es), w\<lparr>wd_calls := k\<rparr>) \<and>
    ji_position it' = ji_position it + length (records c es)"
  using assms
proof (induction es arbitrary: it m n w)
  case Nil
  have t: "br_take 4 (ji_reader it) = (bs, (ji_reader it)\<lparr>rd_buf := []\<rparr>)"
    using Nil by (simp add: br_take_def Let_def)
  then obtain k where "journal_next c p it w = ((Some (Inl (Truncated p)), it\<lparr>ji_done := True\<rparr>), w\<lparr>wd_calls := k\<rparr>)"
    using journal_next_short [of w it c p] Nil by auto
  then show ?case
    by (intro exI [of _ "it\<lparr>ji_done := True\<rparr>"] exI [of _ k]) (simp add: replay_loop.simps [of c p it])
next
  case (Cons e es)
  let ?it = "it\<lparr>ji_reader := (ji_reader it)\<lparr>rd_buf := records c es @ bs\<rparr>,
                ji_position := ji_position it + length (record_bytes c e)\<rparr>"
  obtain k where k: "journal_next c p it w = ((Some (Inr e), ?it), w\<lparr>wd_calls := k\<rparr>)"
    using journal_next_in_buf [of w it "ji_reader it" c e "records c es @ bs" p] Cons.prems by auto
  have "\<exists>it' k'. replay_loop c p ?it (apply_entry e m) (Suc n) (w\<lparr>wd_calls := k\<rparr>) =
      (Inr (Some (Truncated p), it', fold apply_entry es (apply_entry e m), Suc n + length es), w\<lparr>wd_calls := k'\<rparr>) \<and>
    ji_position it' = ji_position ?it + length (records c es)"
    using Cons.IH [of "w\<lparr>wd_calls := k\<rparr>" ?it "apply_entry e m" "Suc n"] Cons.prems by auto
  then show ?case using k by (auto simp: replay_loop.simps [of c p it])
qed

lemma replay_straddle:
  assumes q: "quiet w" and ok: "\<forall>e \<in> set es. codec_ok c e"
    and len: "BUF_SIZE - 4 < length (records c es)" "length (records c es) < BUF_SIZE"
    and rest: "BUF_SIZE \<le> length (records c es) + length rs"
  shows "\<exists>it' k. replay_loop c p \<lparr>ji_reader = \<lparr>rd_buf = [], rd_rest = records c es @ rs\<rparr>,
        ji_position = HEADER_LEN, ji_done = False\<rparr> m 0 w =
      (Inr (Some (Truncated p), it', fold apply_entry es m, length es), w\<lparr>wd_calls := k\<rparr>) \<and>
    ji_position it' = HEADER_LEN + length (records c es)"
proof -
  let ?R = "records c es @ rs"
  let ?it = "\<lparr>ji_reader = \<lparr>rd_buf = [], rd_rest = ?R\<rparr>, ji_position = HEADER_LEN, ji_done = False\<rparr>"
  let ?rd = "\<lparr>rd_buf = take BUF_SIZE ?R, rd_rest = drop BUF_SIZE ?R\<rparr>"
  let ?bs = "take (BUF_SIZE - length (records c es)) rs"
  have "es \<noteq> []" using len(1) by (auto simp: BUF_SIZE_def)
  then obtain e es' where es: "es = e # es'" by (cases es) auto
  have buf: "rd_buf ?rd = record_bytes c e @ records c es' @ ?bs" using len(2) by (simp add: es)
  have ne: "?R \<noteq> []" "take BUF_SIZE ?R \<noteq> []" using len by (auto simp: BUF_SIZE_def)
  have "records c es \<noteq> []" using len(1) by (auto simp: BUF_SIZE_def)
  then have "br_take 4 (ji_reader ?it) = br_take 4 ?rd" using ne by (simp add: br_take_def Let_def BUF_SIZE_def)
  then obtain k where k: "journal_next c p ?it w =
      ((Some (Inr e), ?it\<lparr>ji_reader := ?rd\<lparr>rd_buf := records c es' @ ?bs\<rparr>,
          ji_position := ji_position ?it + length (record_bytes c e)\<rparr>), w\<lparr>wd_calls := k\<rparr>)"
    using journal_next_in_buf [OF q, of ?it ?rd c e "records c es' @ ?bs" p] buf ok es by auto
  let ?it1 = "?it\<lparr>ji_reader := ?rd\<lparr>rd_buf := records c es' @ ?bs\<rparr>,
          ji_position := ji_position ?it + length (record_bytes c e)\<rparr>"
  have bs: "?bs \<noteq> []" "length ?bs < 4" using len rest by auto
  obtain it' k' where r: "replay_loop c p ?it1 (apply_entry e m) (Suc 0) (w\<lparr>wd_calls := k\<rparr>) =
      (Inr (Some (Truncated p), it', fold apply_entry es' (apply_entry e m), Suc 0 + length es'), w\<lparr>wd_calls := k'\<rparr>)"
    "ji_position it' = ji_position ?it1 + length (records c es')"
    using replay_in_buf [of "w\<lparr>wd_calls := k\<rparr>" ?it1 c es' ?bs p "apply_entry e m" "Suc 0"] q ok es bs by auto
  have "replay_loop c p ?it m 0 w = replay_loop c p ?it1 (apply_entry e m) (Suc 0) (w\<lparr>wd_calls := k\<rparr>)"
    by (subst replay_loop.simps, subst k) simp
  from trans [OF this r(1)] show ?thesis
    using r(2) by (intro exI [of _ it'] exI [of _ k']) (simp add: es)
qed

text \<open>A complete, synced record can be lost. When the records \<open>es\<close> end one to three bytes
  before the end of the reader's first buffer, \<open>read\<close> returns only those bytes of the next
  record's length field; the iterator takes this for the end of the file, and opening with
  recovery cuts off that record and all after it.\<close>

lemma straddling_record_lost:
  assumes "quiet w" "snapshot_holds c (wd_fs w) m" "journal_holds c (wd_fs w) (es @ e # es') []"
    "BUF_SIZE - 4 < length (records c es)" "length (records c es) < BUF_SIZE"
  shows "\<exists>w'. open_with_recovery c w =
      (Inr \<lparr>op_journal_truncated = True, op_journal_truncated_at = Some (HEADER_LEN + length (records c es))\<rparr>, w') \<and>
    ix_entries w' = fold apply_entry es m \<and>
    fs_read (wd_fs w') journal_path = Some (header_bytes JOURNAL_VERSION @ records c es)"
proof -
  let ?es = "es @ e # es'"
  have ok: "\<forall>e \<in> set es. codec_ok c e" "codec_ok c e" using assms(3) by (auto simp: journal_holds_def)
  have "8 \<le> length (record_bytes c e)" using ok(2) by (elim codec_okE) simp
  then have len: "BUF_SIZE \<le> length (records c es) + length (records c (e # es'))" using assms(4) by simp
  have rep: "replays c journal_path \<lparr>ji_reader = \<lparr>rd_buf = [], rd_rest = records c ?es @ []\<rparr>,
      ji_position = HEADER_LEN, ji_done = False\<rparr> ?es [] m 0 w1 (length es)"
    if "quiet w1" for w1 :: "'a index_world_scheme"
    using replay_straddle [OF that ok(1) assms(4,5) len, of journal_path m]
    by (simp add: replays_def tail_error_def)
  have rf: "report_for c ?es [] (length es) =
      \<lparr>op_journal_truncated = True, op_journal_truncated_at = Some (HEADER_LEN + length (records c es))\<rparr>"
    by (simp add: report_for_def)
  have "wp (open_with_recovery c) (\<lambda>rep w'. rep = report_for c ?es [] (length es) \<and>
      in_sync c m (take (length es) ?es) w' \<and> quiet w') (\<lambda>_ _. False) w"
  proof (rule wp_open_with_recovery [OF assms(1,2), of ?es "[]"])
    show "journal_files c (wd_fs w) ?es []" using assms(3) by (simp add: journal_files_def)
  next
    fix w1 :: "'a index_world_scheme"
    assume "quiet w1" "jw_buf w1 = []" "snapshot_holds c (wd_fs w1) m" "journal_holds c (wd_fs w1) ?es []"
    then show "wp (replay_journal c True m) (\<lambda>rep w'. rep = report_for c ?es [] (length es) \<and>
      in_sync c m (take (length es) ?es) w' \<and> quiet w') (\<lambda>_ _. False) w1"
      by (intro replay_journal_at rep) simp_all
  qed
  then show ?thesis
    unfolding rf by (auto simp: wp_def in_sync_def journal_holds_def split: prod.splits sum.splits)
qed

section \<open>Concrete runs\<close>

text \<open>A codec for two mutations of one key, and handles over small files.\<close>

definition demo_key :: index_key where
  "demo_key = IndexKey (Coords ''g'' ''a'') ''1'' ''jar'' None"

definition demo_entry :: index_entry where
  "demo_entry = \<lparr>ie_hash = replicate 32 0, ie_size_bytes = 3, ie_sha1_hex = None,
     ie_origin = \<lparr>or_repository_url = ''r'', or_etag = None, or_last_modified = None,
                  or_upstream_last_updated = None, or_tier = Upstream\<rparr>,
     ie_atime_unix = 5, ie_created_unix = 5\<rparr>"

definition demo_codec :: codec where
  "demo_codec = \<lparr>
     cd_encode = (\<lambda>e. case e of JPut _ _ \<Rightarrow> Inr [1] | JRemove _ \<Rightarrow> Inr [2, 2] | JTouch _ _ \<Rightarrow> Inr (replicate 8182 0)),
     cd_decode = (\<lambda>d. if length d = 1 then Inr (JPut demo_key demo_entry)
                       else if length d = 2 then Inr (JRemove demo_key) else Inr (JTouch demo_key 7)),
     cd_encode_snapshot = (\<lambda>m. if m = [] then Inr [] else Inr [0]),
     cd_decode_snapshot = (\<lambda>d. Inr (if d = [] then [] else [(demo_key, demo_entry)])),
     cd_crc32 = (\<lambda>_. 7)\<rparr>"

definition demo_world :: "bytes \<Rightarrow> entry_map \<Rightarrow> nat \<Rightarrow> (nat \<Rightarrow> (io_error \<times> nat) option) \<Rightarrow> index_world" where
  "demo_world recs m n f =
     \<lparr>wd_fs = [(journal_path, File 1 (header_bytes JOURNAL_VERSION @ recs))], wd_calls = 0, wd_clock = 0,
      wd_faults = f, wd_lag = (\<lambda>_. 0), wd_tmp_counter = 0, wd_thread = 1, jw_buf = [],
      ix_entries = m, ix_since_compact = n, ix_threshold = 100\<rparr>"

lemma demo_codec_ok:
  "codec_ok demo_codec (JPut demo_key demo_entry)" "codec_ok demo_codec (JRemove demo_key)"
  "codec_ok demo_codec (JTouch demo_key 7)" "snapshot_codec_ok demo_codec []"
  "snapshot_codec_ok demo_codec [(demo_key, demo_entry)]"
  by (simp_all add: codec_ok_def snapshot_codec_ok_def demo_codec_def)

lemma demo_files:
  "snapshot_holds c (wd_fs (demo_world recs m n f)) []"
  "fs_read (wd_fs (demo_world recs m n f)) journal_path = Some (header_bytes JOURNAL_VERSION @ recs)"
  by (simp_all add: snapshot_holds_def demo_world_def fs_read_def im_get_def)

lemma demo_sync:
  "\<forall>e \<in> set es. codec_ok demo_codec e \<Longrightarrow>
   in_sync demo_codec [] es (demo_world (records demo_codec es) (fold apply_entry es []) (length es) f)"
  using demo_files by (simp add: in_sync_def journal_holds_def torn_def) (simp add: demo_world_def)

theorem recovery_sound_witness:
  "\<exists>r w'. open_with_recovery demo_codec
      (demo_world (records demo_codec [JPut demo_key demo_entry] @ take 3 (record_bytes demo_codec (JRemove demo_key)))
         [] 0 (\<lambda>_. None)) =
      (Inr (report_for demo_codec [JPut demo_key demo_entry] (take 3 (record_bytes demo_codec (JRemove demo_key))) r), w') \<and>
    r \<le> 1 \<and> ix_entries w' = fold apply_entry (take r [JPut demo_key demo_entry]) [] \<and>
    fs_read (wd_fs w') journal_path =
      Some (header_bytes JOURNAL_VERSION @ records demo_codec (take r [JPut demo_key demo_entry])) \<and> r = 1"
proof -
  let ?es = "[JPut demo_key demo_entry]"
  let ?d = "take 3 (record_bytes demo_codec (JRemove demo_key))"
  let ?w = "demo_world (records demo_codec ?es @ ?d) [] 0 (\<lambda>_. None)"
  have rb: "length (record_bytes demo_codec (JRemove demo_key)) = 10"
    "length (record_bytes demo_codec (JPut demo_key demo_entry)) = 9"
    by (simp_all add: record_bytes_def demo_codec_def)
  have j: "journal_holds demo_codec (wd_fs ?w) ?es ?d"
  proof -
    have "torn demo_codec ?d" unfolding torn_def
      by (intro disjI2 exI [of _ "JRemove demo_key"] exI [of _ 3]) (simp add: demo_codec_ok rb)
    then show ?thesis using demo_files demo_codec_ok by (simp add: journal_holds_def)
  qed
  have q: "quiet ?w" by (simp add: quiet_def demo_world_def)
  show ?thesis
    using recovery_sound [OF q demo_files(1) j] rb by (simp add: BUF_SIZE_def min_def)
qed

theorem mutation_crash_safe_witness:
  "\<exists>rep v' es'. open_with_recovery demo_codec
      ((snd (index_mutate demo_codec (JPut demo_key demo_entry) (demo_world [] [] 0 (killed_at 3))))
         \<lparr>wd_faults := \<lambda>_. None\<rparr>) = (Inr rep, v') \<and>
    in_sync demo_codec [] es' v' \<and> prefix es' [JPut demo_key demo_entry] \<and>
    (ix_entries v' = [] \<or> ix_entries v' = [(demo_key, demo_entry)])"
proof -
  let ?w = "demo_world [] [] 0 (killed_at 3)"
  let ?e = "JPut demo_key demo_entry"
  have s: "in_sync demo_codec [] [] ?w" using demo_sync [of "[]" "killed_at 3"] by simp
  have rb: "length (records demo_codec ([] @ [?e])) \<le> BUF_SIZE"
    by (simp add: record_bytes_def demo_codec_def BUF_SIZE_def)
  have e: "ix_entries ?w = []" by (simp add: demo_world_def)
  have room: "Suc (ix_since_compact ?w) < ix_threshold ?w" by (simp add: demo_world_def)
  have q: "quiet ((snd (index_mutate demo_codec ?e ?w))\<lparr>wd_faults := \<lambda>_. None\<rparr>)" by (simp add: quiet_def)
  show ?thesis
    using mutation_crash_safe [OF s demo_codec_ok(1) room prod.collapse [symmetric] _ q] rb
    unfolding e by (simp del: records_simps) blast
qed

theorem compaction_crash_safe_witness:
  "(torn_header (wd_fs (snd (index_compact demo_codec (demo_world (records demo_codec [JPut demo_key demo_entry])
      [(demo_key, demo_entry)] 1 (killed_at 6))))) \<and>
    fst (index_compact demo_codec (demo_world (records demo_codec [JPut demo_key demo_entry])
      [(demo_key, demo_entry)] 1 (killed_at 6))) \<noteq> Inr ()) \<or>
   (\<exists>rep v'. open_with_recovery demo_codec ((snd (index_compact demo_codec
      (demo_world (records demo_codec [JPut demo_key demo_entry]) [(demo_key, demo_entry)] 1 (killed_at 6))))
         \<lparr>wd_faults := \<lambda>_. None\<rparr>) = (Inr rep, v') \<and> ix_entries v' = [(demo_key, demo_entry)])"
proof -
  let ?es = "[JPut demo_key demo_entry]"
  let ?w = "demo_world (records demo_codec ?es) [(demo_key, demo_entry)] 1 (killed_at 6)"
  have s: "in_sync demo_codec [] ?es ?w" using demo_sync [of ?es "killed_at 6"] demo_codec_ok by simp
  have rb: "length (records demo_codec ?es) \<le> BUF_SIZE"
    by (simp add: record_bytes_def demo_codec_def BUF_SIZE_def)
  have e: "ix_entries ?w = [(demo_key, demo_entry)]" by (simp add: demo_world_def)
  have ok: "snapshot_codec_ok demo_codec (ix_entries ?w)" using demo_codec_ok(5) by (simp only: e)
  have q: "quiet ((snd (index_compact demo_codec ?w))\<lparr>wd_faults := \<lambda>_. None\<rparr>)" by (simp add: quiet_def)
  show ?thesis
    using compaction_crash_safe [OF s ok rb prod.collapse [symmetric] _ q] unfolding e by simp
qed

lemma demo_quiet: "quiet (demo_world recs m n (\<lambda>_. None))" by (simp add: quiet_def demo_world_def)

end
