(* ===== verification/CacheGc.thy ===== *)
theory CacheGc
  imports IndexProps Cas
begin

text \<open>
  Maintenance of the cache: the recovery scan (\<open>crates/barista-cache/src/recovery.rs\<close>) and the
  garbage collector (\<open>crates/barista-cache/src/gc.rs\<close>), over the store and the index.

  Counters are \<open>u64\<close> and wrap. The watermarks are computed in \<open>f64\<close>: a finite non-negative
  binary fraction is a pair of a mantissa and a power of two to divide it by. The walk over
  the store is read as a whole before the sizes of its objects are.
\<close>

section \<open>Recovery scan\<close>

record recovery_report =
  rr_journal_truncated :: bool
  rr_journal_truncated_at :: "nat option"
  rr_orphan_blobs :: "(content_hash \<times> string \<times> nat) list"
  rr_orphan_bytes :: nat
  rr_dangling_entries :: nat

datatype recovery_error = RcCas cas_error | RcIndex index_error

fun check_entries ::
  "codec \<Rightarrow> (index_key \<times> index_entry) list \<Rightarrow> content_hash list \<Rightarrow> nat \<Rightarrow>
   ('a index_world_scheme, content_hash list \<times> nat, 'e) io" where
  "check_entries c [] indexed dangling = io_return (indexed, dangling)"
| "check_entries c ((k, e) # es) indexed dangling =
     io_bind (cas_contains (ie_hash e)) (\<lambda>present.
     if present then check_entries c es (ie_hash e # indexed) dangling
     else io_bind (io_try (index_remove c k)) (\<lambda>_. check_entries c es indexed (Suc dangling)))"

fun find_orphans ::
  "content_hash list \<Rightarrow> (content_hash \<times> string, cas_error) result list \<Rightarrow> recovery_report \<Rightarrow>
   ('a world_scheme, recovery_report, recovery_error) io" where
  "find_orphans indexed [] report = io_return report"
| "find_orphans indexed (Inl e # items) report = io_fail (RcCas e)"
| "find_orphans indexed (Inr (h, p) # items) report =
     (if h \<in> set indexed then find_orphans indexed items report
      else io_bind (io_try (sys_len p)) (\<lambda>r.
           let size = (case r of Inr n \<Rightarrow> n | Inl _ \<Rightarrow> 0) in
           find_orphans indexed items
             (report\<lparr>rr_orphan_bytes := (rr_orphan_bytes report + size) mod 2 ^ 64,
                    rr_orphan_blobs := rr_orphan_blobs report @ [(h, p, size)]\<rparr>)))"

definition scan_and_recover :: "codec \<Rightarrow> ('a index_world_scheme, recovery_report, recovery_error) io" where
  "scan_and_recover c =
     io_bind (io_get index_entries) (\<lambda>entries.
     io_bind (check_entries c entries [] 0) (\<lambda>(indexed, dangling).
     io_bind cas_entries (\<lambda>items.
     find_orphans indexed items
       \<lparr>rr_journal_truncated = False, rr_journal_truncated_at = None, rr_orphan_blobs = [],
        rr_orphan_bytes = 0, rr_dangling_entries = dangling\<rparr>)))"

section \<open>Garbage collection\<close>

fun bit_len :: "nat \<Rightarrow> nat" where
  "bit_len n = (if n = 0 then 0 else Suc (bit_len (n div 2)))"

declare bit_len.simps [simp del]

text \<open>The nearest number with 53 significant bits, ties to even.\<close>

definition round53 :: "nat \<Rightarrow> nat" where
  "round53 n =
     (let s = bit_len n - 53; q = n div 2 ^ s; r = n mod 2 ^ s in
      (if 2 ^ s < 2 * r \<or> 2 ^ s = 2 * r \<and> odd q then Suc q else q) * 2 ^ s)"

type_synonym f64 = "nat \<times> nat"

definition watermark_bytes :: "nat \<Rightarrow> f64 \<Rightarrow> nat" where
  "watermark_bytes max_bytes wm =
     (case wm of (m, k) \<Rightarrow> min (round53 (round53 max_bytes * m) div 2 ^ k) (2 ^ 64 - 1))"

record gc_config =
  max_size_bytes :: nat
  high_watermark :: f64
  low_watermark :: f64
  keep_hardlinked :: bool

definition gc_config_default :: gc_config where
  "gc_config_default = \<lparr>max_size_bytes = 50 * 1024 * 1024 * 1024,
     high_watermark = (8556839292003942, 53), low_watermark = (7205759403792794, 53),
     keep_hardlinked = True\<rparr>"

record gc_stats =
  considered :: nat
  evicted :: nat
  skipped_hardlinked :: nat
  bytes_freed :: nat
  reached_target :: bool

datatype gc_error = GcIo string io_error | GcIndex index_error

text \<open>The eviction of one entry: the blob first, then its row.\<close>

definition gc_evict :: "codec \<Rightarrow> index_key \<Rightarrow> string \<Rightarrow> ('a index_world_scheme, unit, gc_error) io" where
  "gc_evict c k cas_path =
     io_bind (io_try (sys_unlink cas_path)) (\<lambda>r.
     io_bind (case r of
                Inr _ \<Rightarrow> io_return ()
              | Inl NotFound \<Rightarrow> io_return ()
              | Inl e \<Rightarrow> io_fail (GcIo cas_path e)) (\<lambda>_.
     io_bind (io_map_err GcIndex (index_remove c k)) (\<lambda>_. io_return ())))"

datatype gc_verdict = Evict | SkipLinked | DropRow

text \<open>The hard-link test; \<open>nlink\<close> is the Unix one.\<close>

definition gc_inspect :: "bool \<Rightarrow> string \<Rightarrow> ('a world_scheme, gc_verdict, gc_error) io" where
  "gc_inspect keep cas_path =
     (if keep
      then io_bind (io_try (sys_nlink cas_path)) (\<lambda>r.
        case r of
          Inr n \<Rightarrow> io_return (if 2 \<le> n then SkipLinked else Evict)
        | Inl NotFound \<Rightarrow> io_return DropRow
        | Inl e \<Rightarrow> io_fail (GcIo cas_path e))
      else io_return Evict)"

fun gc_loop ::
  "codec \<Rightarrow> bool \<Rightarrow> nat \<Rightarrow> (index_key \<times> index_entry) list \<Rightarrow> nat \<Rightarrow> gc_stats \<Rightarrow>
   ('a index_world_scheme, nat \<times> gc_stats, gc_error) io" where
  "gc_loop c keep low_bytes [] tot st = io_return (tot, st)"
| "gc_loop c keep low_bytes ((k, e) # es) tot st =
     (let st1 = st\<lparr>considered := considered st + 1\<rparr>; size = ie_size_bytes e; cas_path = path_for (ie_hash e) in
      if tot < low_bytes then io_return (tot, st1\<lparr>reached_target := True\<rparr>)
      else io_bind (gc_inspect keep cas_path) (\<lambda>v.
        case v of
          SkipLinked \<Rightarrow> gc_loop c keep low_bytes es tot (st1\<lparr>skipped_hardlinked := skipped_hardlinked st1 + 1\<rparr>)
        | DropRow \<Rightarrow> io_bind (io_map_err GcIndex (index_remove c k)) (\<lambda>_.
                    gc_loop c keep low_bytes es (tot - size) st1)
        | Evict \<Rightarrow> io_bind (gc_evict c k cas_path) (\<lambda>_.
                  gc_loop c keep low_bytes es (tot - size)
                    (st1\<lparr>evicted := evicted st1 + 1, bytes_freed := (bytes_freed st1 + size) mod 2 ^ 64\<rparr>))))"

definition total_size :: "(index_key \<times> index_entry) list \<Rightarrow> nat" where
  "total_size es = sum_list (map (\<lambda>(_, e). ie_size_bytes e) es) mod 2 ^ 64"

definition run_gc :: "codec \<Rightarrow> gc_config \<Rightarrow> ('a index_world_scheme, gc_stats, gc_error) io" where
  "run_gc c cfg =
     (let high_bytes = watermark_bytes (max_size_bytes cfg) (high_watermark cfg);
          low_bytes = watermark_bytes (max_size_bytes cfg) (low_watermark cfg) in
      io_bind (io_get index_entries) (\<lambda>entries.
      let tot = total_size entries;
          st = \<lparr>considered = 0, evicted = 0, skipped_hardlinked = 0, bytes_freed = 0, reached_target = False\<rparr> in
      if tot < high_bytes then io_return (st\<lparr>reached_target := True\<rparr>)
      else io_bind (gc_loop c (keep_hardlinked cfg) low_bytes (sort_key (\<lambda>(_, e). ie_atime_unix e) entries) tot st)
        (\<lambda>(tot', st'). io_return (if tot' < low_bytes then st'\<lparr>reached_target := True\<rparr> else st'))))"

section \<open>Frames\<close>

text \<open>A program keeps a relation when every run, failing or not, relates its first and last
  state. For a preorder this is a matter of the program's parts.\<close>

definition keeps :: "('s \<Rightarrow> 's \<Rightarrow> bool) \<Rightarrow> ('s, 'a, 'e) io \<Rightarrow> bool" where
  "keeps R m \<longleftrightarrow> (\<forall>w. R w (snd (m w)))"

lemma keeps_wp: "keeps R m \<longleftrightarrow> (\<forall>w. wp m (\<lambda>_. R w) (\<lambda>_. R w) w)"
  by (simp add: keeps_def wp_def split: prod.split sum.split) (metis obj_sumE prod.collapse snd_conv)

named_theorems keeps_intros "programs that keep a relation"

locale frame_relation =
  fixes R :: "'s \<Rightarrow> 's \<Rightarrow> bool"
  assumes frame_refl: "R w w"
    and frame_trans: "R u v \<Longrightarrow> R v w \<Longrightarrow> R u w"
begin

lemma keeps_return: "keeps R (io_return x)"
  by (simp add: keeps_def io_return_def frame_refl)

lemma keeps_fail: "keeps R (io_fail e)"
  by (simp add: keeps_def io_fail_def frame_refl)

lemma keeps_lift: "keeps R (io_lift r)"
  by (simp add: keeps_def io_lift_def frame_refl)

lemma keeps_get: "keeps R (io_get f)"
  by (simp add: keeps_def io_get_def frame_refl)

lemma keeps_modify: "(\<And>w. R w (f w)) \<Longrightarrow> keeps R (io_modify f)"
  by (simp add: keeps_def io_modify_def)

lemma keeps_bind: "keeps R m \<Longrightarrow> (\<And>x. keeps R (f x)) \<Longrightarrow> keeps R (io_bind m f)"
  by (auto simp: keeps_def io_bind_def split: prod.split sum.split) (metis frame_trans snd_conv)+

lemma keeps_map_err: "keeps R m \<Longrightarrow> keeps R (io_map_err g m)"
  by (auto simp: keeps_def io_map_err_def split: prod.split) (metis snd_conv)

lemma keeps_try: "keeps R m \<Longrightarrow> keeps R (io_try m)"
  by (auto simp: keeps_def io_try_def split: prod.split) (metis snd_conv)

lemmas keeps_structure = keeps_return keeps_fail keeps_lift keeps_get keeps_bind keeps_map_err keeps_try

end

section \<open>The index leaves all other files alone\<close>

definition index_file :: "string \<Rightarrow> bool" where
  "index_file q \<longleftrightarrow> prefix (INDEX_DIR @ ''/'') q"

definition other_files :: "fs \<Rightarrow> fs" where
  "other_files fs = filter (\<lambda>(q, _). \<not> index_file q) fs"

text \<open>A path names one file, and no file of the index is a hard link to a file outside it.\<close>

definition fs_wf :: "fs \<Rightarrow> bool" where
  "fs_wf fs \<longleftrightarrow> distinct (im_keys fs) \<and>
     (\<forall>(p, f) \<in> set fs. \<forall>(q, g) \<in> set fs. index_file p \<and> \<not> index_file q \<longrightarrow> f_ino f \<noteq> f_ino g)"

definition outside_kept :: "'a world_scheme \<Rightarrow> 'a world_scheme \<Rightarrow> bool" where
  "outside_kept w w' \<longleftrightarrow> other_files (wd_fs w') = other_files (wd_fs w) \<and>
     (fs_wf (wd_fs w) \<longrightarrow> fs_wf (wd_fs w')) \<and> wd_faults w' = wd_faults w"

interpretation outside: frame_relation outside_kept
  by unfold_locales (auto simp: outside_kept_def)

declare outside.keeps_structure [keeps_intros] outside.keeps_modify [keeps_intros]

lemma index_paths [simp]:
  "index_file journal_path" "index_file snapshot_path" "index_file snapshot_tmp"
  "index_file (lock_path_for journal_path)"
  by (simp_all add: index_file_def journal_path_def snapshot_path_def snapshot_tmp_def INDEX_DIR_def
      lock_path_for_def path_parent_def Let_def)

lemma fresh_ino_greater: "(p, f) \<in> set fs \<Longrightarrow> f_ino f < fresh_ino fs"
proof -
  have "a \<le> fold max xs a \<and> (\<forall>x \<in> set xs. x \<le> fold max xs a)" for xs :: "nat list" and a
    by (induction xs arbitrary: a) (auto, (meson max.boundedE)+)
  from this [of 0 "map (f_ino \<circ> snd) fs"] show "(p, f) \<in> set fs \<Longrightarrow> f_ino f < fresh_ino fs"
    by (force simp: fresh_ino_def)
qed

lemma other_files_insert [simp]: "index_file p \<Longrightarrow> other_files (im_insert p f fs) = other_files fs"
  by (induction p f fs rule: im_insert.induct) (auto simp: other_files_def)

lemma other_files_set [simp]: "index_file p \<Longrightarrow> other_files (fs_set p d fs) = other_files fs"
  by (simp add: fs_set_def)

lemma other_files_remove [simp]: "index_file p \<Longrightarrow> other_files (fs_remove p fs) = other_files fs"
  by (auto simp: other_files_def fs_remove_def intro: filter_cong)

lemma set_im_insert: "set (im_insert p f fs) \<subseteq> insert (p, f) (set fs)"
  by (induction p f fs rule: im_insert.induct) auto

lemma fs_wf_insert:
  "fs_wf fs \<Longrightarrow> index_file p \<Longrightarrow> (\<And>q g. (q, g) \<in> set fs \<Longrightarrow> \<not> index_file q \<Longrightarrow> f_ino f \<noteq> f_ino g) \<Longrightarrow>
   fs_wf (im_insert p f fs)"
  using set_im_insert [of p f fs] unfolding fs_wf_def by (elim conjE, intro conjI) (simp, blast)

lemma fs_wfD:
  "fs_wf fs \<Longrightarrow> im_get fs p = Some f \<Longrightarrow> index_file p \<Longrightarrow> (q, g) \<in> set fs \<Longrightarrow> \<not> index_file q \<Longrightarrow> f_ino f \<noteq> f_ino g"
  unfolding fs_wf_def im_get_def by (blast dest: map_of_SomeD)

lemma fs_wf_set [simp]: "fs_wf fs \<Longrightarrow> index_file p \<Longrightarrow> fs_wf (fs_set p d fs)"
  unfolding fs_set_def
  by (rule fs_wf_insert) (auto dest: fs_wfD fresh_ino_greater split: option.splits)

lemma fs_wf_remove [simp]: "fs_wf fs \<Longrightarrow> fs_wf (fs_remove p fs)"
  by (auto simp: fs_wf_def fs_remove_def im_keys_def distinct_map inj_on_def)

lemma fs_wf_rename [simp]:
  "fs_wf fs \<Longrightarrow> index_file p \<Longrightarrow> index_file q \<Longrightarrow> im_get fs p = Some f \<Longrightarrow> fs_wf (im_insert q f (fs_remove p fs))"
  by (rule fs_wf_insert, simp, simp, auto simp: fs_remove_def dest: fs_wfD)

lemma outside_append [simp]:
  "index_file p \<Longrightarrow> other_files (fs_append p d fs) = other_files fs"
  "fs_wf fs \<Longrightarrow> index_file p \<Longrightarrow> fs_wf (fs_append p d fs)"
  by (simp_all add: fs_append_def split: option.split)

lemma keeps_syscall [keeps_intros]:
  assumes "\<And>fs. other_files (snd (act fs)) = other_files fs" "\<And>fs. fs_wf fs \<Longrightarrow> fs_wf (snd (act fs))"
    "\<And>k fs. other_files (f k fs) = other_files fs" "\<And>k fs. fs_wf fs \<Longrightarrow> fs_wf (f k fs)"
  shows "keeps outside_kept (syscall act f)"
  using assms by (auto simp: keeps_def syscall_def outside_kept_def split: option.split prod.split) (metis snd_conv)+

lemma keeps_pure_sys [keeps_intros]:
  "keeps outside_kept (sys_pure f)" "keeps outside_kept sys_nop" "keeps outside_kept (sys_len p)"
  "keeps outside_kept (sys_read_file p)" "keeps outside_kept (sys_nlink p)"
  unfolding sys_nop_def sys_len_def sys_read_file_def sys_nlink_def sys_pure_def
  by (auto intro!: keeps_intros)

lemma keeps_exists [keeps_intros]: "keeps outside_kept (sys_exists p)"
  unfolding sys_exists_def by (intro keeps_intros)

lemma keeps_index_sys [keeps_intros]:
  assumes "index_file p"
  shows "keeps outside_kept (sys_open_create p)" "keeps outside_kept (sys_open_truncate p)"
    "keeps outside_kept (sys_set_len p n)"
    "keeps outside_kept (sys_write_part p d)" "keeps outside_kept (sys_write p d)"
proof -
  show w: "keeps outside_kept (sys_write_part p d)"
    using assms by (auto simp: keeps_def sys_write_part_def outside_kept_def split: option.split)
  show "keeps outside_kept (sys_write p d)" unfolding sys_write_def by (intro keeps_intros w)
qed (use assms in \<open>auto simp: sys_open_create_def sys_open_truncate_def sys_set_len_def
    intro!: keeps_syscall split: option.split\<close>)

lemma keeps_rename [keeps_intros]:
  "index_file p \<Longrightarrow> index_file q \<Longrightarrow> keeps outside_kept (sys_rename p q)"
  unfolding sys_rename_def by (auto intro!: keeps_intros split: option.split)

lemma keeps_try_acquire [keeps_intros]: "index_file p \<Longrightarrow> keeps outside_kept (try_acquire_once p)"
  unfolding try_acquire_once_def
  by (intro keeps_intros) (auto split: sum.split io_error.split intro: keeps_intros)

lemma acquire_outside_kept: "index_file p \<Longrightarrow> outside_kept w (snd (acquire_loop p timeout deadline i w))"
proof (induction p timeout deadline i w rule: acquire_loop.induct)
  case (1 p timeout deadline i w)
  obtain r w' where t: "try_acquire_once p w = (r, w')" by fastforce
  have tried: "outside_kept w w'" using keeps_try_acquire [OF 1(2)] t unfolding keeps_def by (metis snd_conv)
  then have slept: "outside_kept w (w'\<lparr>wd_clock := n\<rparr>)" for n by (simp add: outside_kept_def)
  show ?case
    using 1 t tried by (subst acquire_loop.simps) (auto split: sum.split intro: outside.frame_trans [OF slept])
qed

lemma keeps_journal_lock [keeps_intros]: "index_file p \<Longrightarrow> keeps outside_kept (journal_lock p)"
  by (simp add: keeps_def journal_lock_def acquire_outside_kept)

lemma keeps_bw [keeps_intros]:
  fixes p :: string
  assumes "index_file p"
  shows "keeps outside_kept (bw_flush p :: ('a journal_world_scheme, unit, io_error) io)"
    "keeps outside_kept (bw_write_all p d :: ('a journal_world_scheme, unit, io_error) io)"
proof -
  have m: "outside_kept w (w\<lparr>jw_buf := b\<rparr>)" for w :: "'a journal_world_scheme" and b
    by (simp add: outside_kept_def)
  show f: "keeps outside_kept (bw_flush p :: ('a journal_world_scheme, unit, io_error) io)"
    unfolding bw_flush_def using assms m
    by (auto intro!: keeps_intros split: sum.split)
  show "keeps outside_kept (bw_write_all p d :: ('a journal_world_scheme, unit, io_error) io)"
    unfolding bw_write_all_def using assms m f by (auto intro!: keeps_intros)
qed

lemma keeps_write_header [keeps_intros]: "index_file p \<Longrightarrow> keeps outside_kept (write_header p v)"
  unfolding write_header_def by (intro keeps_intros)

lemma keeps_journal [keeps_intros]:
  "keeps outside_kept (journal_append c journal_path e)"
  "keeps outside_kept (journal_truncate journal_path)"
  unfolding journal_append_def journal_truncate_def by (auto intro!: keeps_intros)

lemma keeps_compact [keeps_intros]:
  "keeps outside_kept (index_compact c :: ('a index_world_scheme, unit, index_error) io)"
  unfolding index_compact_def write_snapshot_def
  by (auto intro!: keeps_intros simp: outside_kept_def)

lemma keeps_index [keeps_intros]:
  fixes c :: codec
  shows "keeps outside_kept (index_put c k e :: ('a index_world_scheme, unit, index_error) io)"
    "keeps outside_kept (index_remove c k :: ('a index_world_scheme, bool, index_error) io)"
    "keeps outside_kept (index_touch c k t :: ('a index_world_scheme, bool, index_error) io)"
  unfolding index_put_def index_remove_def index_touch_def commit_def maybe_compact_def
  by (auto intro!: keeps_intros simp: outside_kept_def)

section \<open>Link counts\<close>

lemma im_get_other: "\<not> index_file q \<Longrightarrow> im_get (other_files fs) q = im_get fs q"
  by (induction fs) (auto simp: other_files_def im_get_def)

lemma nlink_other:
  assumes "fs_wf fs" "\<not> index_file q"
  shows "fs_nlink (other_files fs) q = fs_nlink fs q"
proof (cases "im_get fs q")
  case (Some f)
  have "f_ino g \<noteq> f_ino f" if "(p, g) \<in> set fs" "index_file p" for p g
    using assms that Some unfolding fs_wf_def im_get_def by (fastforce dest: map_of_SomeD)
  then have "filter (\<lambda>(_, g). f_ino g = f_ino f) (other_files fs) = filter (\<lambda>(_, g). f_ino g = f_ino f) fs"
    by (auto simp: other_files_def intro!: filter_cong)
  then show ?thesis using Some assms by (simp add: fs_nlink_def im_get_other)
qed (simp add: fs_nlink_def im_get_other assms)

lemma outside_kept_get:
  assumes "outside_kept w w'" "\<not> index_file q"
  shows "im_get (wd_fs w') q = im_get (wd_fs w) q"
  using assms im_get_other [OF assms(2)] by (metis outside_kept_def)

lemma outside_kept_nlink:
  assumes "outside_kept w w'" "fs_wf (wd_fs w)" "\<not> index_file q"
  shows "fs_nlink (wd_fs w') q = fs_nlink (wd_fs w) q"
  using assms nlink_other by (metis outside_kept_def)

text \<open>Unlinking the only link of a file leaves the other link counts alone.\<close>

lemma nlink_remove:
  assumes "distinct (im_keys fs)" "fs_nlink fs p < 2" "q \<noteq> p"
  shows "fs_nlink (fs_remove p fs) q = fs_nlink fs q"
proof (cases "im_get fs p"; cases "im_get fs q")
  fix f g assume f: "im_get fs p = Some f" and g: "im_get fs q = Some g"
  let ?same = "filter (\<lambda>(_, h). f_ino h = f_ino f) fs"
  have mem: "(p, f) \<in> set fs" "(q, g) \<in> set fs" using f g by (auto simp: im_get_def dest: map_of_SomeD)
  have "f_ino g \<noteq> f_ino f"
  proof
    assume "f_ino g = f_ino f"
    then have "{(p, f), (q, g)} \<subseteq> set ?same" using mem by simp
    then have "card {(p, f), (q, g)} \<le> card (set ?same)" by (rule card_mono [rotated]) simp
    also have "\<dots> \<le> length ?same" by (rule card_length)
    finally show False using assms(2,3) f by (simp add: fs_nlink_def)
  qed
  then have "h = f" if "(p, h) \<in> set fs" for h
    using assms(1) mem(1) that by (auto simp: im_keys_def eq_key_imp_eq_value)
  then have "filter (\<lambda>(_, h). f_ino h = f_ino g) (fs_remove p fs) = filter (\<lambda>(_, h). f_ino h = f_ino g) fs"
    using \<open>f_ino g \<noteq> f_ino f\<close> by (auto simp: fs_remove_def intro!: filter_cong)
  then show ?thesis using g assms(3) by (simp add: fs_nlink_def)
next
  fix g assume "im_get fs p = None" "im_get fs q = Some g"
  then have "fs_remove p fs = fs"
    by (force simp: fs_remove_def filter_id_conv im_get_None_iff im_keys_def)
  then show ?thesis by simp
qed (use assms(3) in \<open>simp_all add: fs_nlink_def\<close>)

section \<open>The journal and the snapshot leave the map alone\<close>

text \<open>What the files, the clock and the write buffer do not influence.\<close>

locale memory_frame = frame_relation R for R :: "'a journal_world_scheme \<Rightarrow> 'a journal_world_scheme \<Rightarrow> bool" +
  assumes frame_files: "R w (w\<lparr>wd_fs := fs, wd_calls := n\<rparr>)"
    and frame_clock: "R w (w\<lparr>wd_clock := t\<rparr>)"
    and frame_buffer: "R w (w\<lparr>jw_buf := b\<rparr>)"
begin

lemma keeps_sys: "keeps R (syscall act f)"
  by (auto simp: keeps_def syscall_def frame_files split: option.split prod.split)

lemma keeps_write_part: "keeps R (sys_write_part p d)"
  by (auto simp: keeps_def sys_write_part_def frame_files split: option.split)

lemmas keeps_calls = keeps_structure keeps_sys keeps_write_part

lemma keeps_nop: "keeps R sys_nop"
  unfolding sys_nop_def sys_pure_def by (rule keeps_sys)

lemma keeps_len: "keeps R (sys_len p)"
  unfolding sys_len_def sys_pure_def by (rule keeps_sys)

lemma keeps_file: "keeps R (sys_write p d)" "keeps R (sys_set_len p n)"
  "keeps R (sys_open_truncate p)" "keeps R (sys_rename p q)" "keeps R (sys_open_create p)"
  unfolding sys_write_def sys_set_len_def sys_open_truncate_def sys_rename_def sys_open_create_def
  by (intro keeps_calls)+

lemma keeps_try_once: "keeps R (try_acquire_once p)"
  unfolding try_acquire_once_def
  by (intro keeps_calls keeps_file keeps_nop) (auto split: sum.split io_error.split intro: keeps_calls)

lemma acquire_kept: "R w (snd (acquire_loop p timeout deadline i w))"
proof (induction p timeout deadline i w rule: acquire_loop.induct)
  case (1 p timeout deadline i w)
  obtain r w' where t: "try_acquire_once p w = (r, w')" by fastforce
  have tried: "R w w'" using keeps_try_once [of p] t unfolding keeps_def by (metis snd_conv)
  then have slept: "R w (w'\<lparr>wd_clock := n\<rparr>)" for n using frame_clock frame_trans by blast
  show ?case
    using 1 t tried by (subst acquire_loop.simps) (auto split: sum.split intro: frame_trans [OF slept])
qed

lemma keeps_lock: "keeps R (journal_lock p)"
  by (simp add: keeps_def journal_lock_def acquire_kept)

lemma keeps_flush: "keeps R (bw_flush p)"
  unfolding bw_flush_def
  by (auto intro!: keeps_calls keeps_modify frame_buffer split: sum.split)

lemma keeps_buffered_write: "keeps R (bw_write_all p d)"
  unfolding bw_write_all_def
  by (auto intro!: keeps_calls keeps_file keeps_flush keeps_modify frame_buffer)

lemma keeps_append: "keeps R (journal_append c p e)"
  unfolding journal_append_def
  by (auto intro!: keeps_calls keeps_lock keeps_flush keeps_buffered_write keeps_nop keeps_len)

lemma keeps_truncate: "keeps R (journal_truncate p)"
  unfolding journal_truncate_def write_header_def
  by (auto intro!: keeps_calls keeps_lock keeps_flush keeps_file keeps_nop)

lemma keeps_snapshot: "keeps R (write_snapshot c m p tmp)"
  unfolding write_snapshot_def by (auto intro!: keeps_calls keeps_file keeps_nop)

end

definition entries_kept :: "'a index_world_scheme \<Rightarrow> 'a index_world_scheme \<Rightarrow> bool" where
  "entries_kept w w' \<longleftrightarrow> ix_entries w' = ix_entries w"

interpretation map_frame: memory_frame entries_kept
  by unfold_locales (auto simp: entries_kept_def)

lemma keeps_entries_compact: "keeps entries_kept (index_compact c)" "keeps entries_kept (maybe_compact c)"
  unfolding maybe_compact_def index_compact_def
  by (auto intro!: map_frame.keeps_calls map_frame.keeps_snapshot map_frame.keeps_truncate
      map_frame.keeps_modify simp: entries_kept_def)

text \<open>A failing removal has either changed nothing or removed the row.\<close>

lemma index_remove_entries:
  fixes w :: "'a index_world_scheme"
  shows "wp (index_remove c k) (\<lambda>_ w'. ix_entries w' = bt_remove k (ix_entries w))
     (\<lambda>_ w'. ix_entries w' = ix_entries w \<or> ix_entries w' = bt_remove k (ix_entries w)) w"
proof -
  have a: "wp (journal_append c journal_path (JRemove k)) (\<lambda>_. entries_kept w) (\<lambda>_. entries_kept w) w"
    using map_frame.keeps_append unfolding keeps_wp by blast
  have b: "wp (maybe_compact c) (\<lambda>_. entries_kept v) (\<lambda>_. entries_kept v) v" for v :: "'a index_world_scheme"
    using keeps_entries_compact(2) unfolding keeps_wp by blast
  show ?thesis
    unfolding index_remove_def wp_bind wp_map_err
    by (rule wp_mono [OF a])
      (auto simp: wp_simps commit_def entries_kept_def intro!: wp_mono [OF b])
qed

section \<open>What the collector may remove\<close>

lemma object_not_index [simp]: "\<not> index_file (path_for h)"
  by (simp add: index_file_def path_for_def OBJECTS_DIR_def INDEX_DIR_def Let_def)

lemma object_path_distinct [simp]: "journal_path \<noteq> path_for h" "snapshot_path \<noteq> path_for h"
  using object_not_index index_paths by metis+

text \<open>The operating system reports a file as missing only when it is.\<close>

definition honest :: "'a world_scheme \<Rightarrow> bool" where
  "honest w \<longleftrightarrow> (\<forall>n k. wd_faults w n \<noteq> Some (NotFound, k))"

definition gc_inv :: "bool \<Rightarrow> 'a index_world_scheme \<Rightarrow> 'a index_world_scheme \<Rightarrow> bool" where
  "gc_inv keep w0 w \<longleftrightarrow> fs_wf (wd_fs w) \<and> wd_faults w = wd_faults w0 \<and>
     set (ix_entries w) \<subseteq> set (ix_entries w0) \<and>
     (\<forall>q. \<not> index_file q \<longrightarrow>
        im_get (wd_fs w) q = im_get (wd_fs w0) q \<and> (keep \<longrightarrow> fs_nlink (wd_fs w) q = fs_nlink (wd_fs w0) q) \<or>
        im_get (wd_fs w) q = None \<and> (keep \<longrightarrow> fs_nlink (wd_fs w0) q < 2) \<and>
        (\<exists>(k, e) \<in> set (ix_entries w0). q = path_for (ie_hash e))) \<and>
     (\<forall>(k, e) \<in> set (ix_entries w0). map_of (ix_entries w) k = None \<longrightarrow> im_get (wd_fs w) (path_for (ie_hash e)) = None)"

lemma gc_inv_remove_row:
  assumes "gc_inv keep w0 w" "bt_wf (ix_entries w0)" "(k, e) \<in> set (ix_entries w0)"
    "im_get (wd_fs w) (path_for (ie_hash e)) = None"
  shows "wp (index_remove c k) (\<lambda>_. gc_inv keep w0) (\<lambda>_. gc_inv keep w0) w"
proof -
  have uniq: "e' = e" if "(k, e') \<in> set (ix_entries w0)" for e'
    using assms(2,3) that unfolding bt_wf_def
    by (metis eq_key_imp_eq_value strict_sorted_iff)
  have inv: "gc_inv keep w0 w'" if "outside_kept w w'"
    "ix_entries w' = ix_entries w \<or> ix_entries w' = bt_remove k (ix_entries w)" for w'
  proof -
    have "fs_wf (wd_fs w)" using assms(1) by (simp add: gc_inv_def)
    then have "fs_wf (wd_fs w')" "wd_faults w' = wd_faults w" using that(1) by (simp_all add: outside_kept_def)
    moreover have "set (ix_entries w') \<subseteq> set (ix_entries w)" using that(2) by (auto simp: bt_remove_def)
    ultimately show ?thesis
      using assms(1,4) that(2) uniq outside_kept_get [OF that(1)] outside_kept_nlink [OF that(1) \<open>fs_wf (wd_fs w)\<close>]
      unfolding gc_inv_def by (auto simp: bt_simps split: if_splits)
  qed
  have "keeps outside_kept (index_remove c k :: ('a index_world_scheme, bool, index_error) io)"
    by (intro keeps_intros)
  then have "wp (index_remove c k) (\<lambda>_. outside_kept w) (\<lambda>_. outside_kept w) w" unfolding keeps_wp by blast
  then show ?thesis
    using index_remove_entries [of c k w] inv by (auto simp: wp_def split: prod.splits sum.splits)
qed

lemma gc_inv_calls [simp]: "gc_inv keep w0 (w\<lparr>wd_calls := n\<rparr>) = gc_inv keep w0 w"
  by (simp add: gc_inv_def)

lemma gc_inv_unlink:
  assumes "gc_inv keep w0 w" "(k, e) \<in> set (ix_entries w0)" "keep \<Longrightarrow> fs_nlink (wd_fs w) (path_for (ie_hash e)) < 2"
    "im_get (wd_fs w) (path_for (ie_hash e)) \<noteq> None"
  shows "gc_inv keep w0 (w\<lparr>wd_fs := fs_remove (path_for (ie_hash e)) (wd_fs w), wd_calls := n\<rparr>)"
proof -
  let ?p = "path_for (ie_hash e)"
  have wf: "fs_wf (wd_fs w)" using assms(1) by (simp add: gc_inv_def)
  then have d: "distinct (im_keys (wd_fs w))" by (simp add: fs_wf_def)
  have p: "keep \<longrightarrow> fs_nlink (wd_fs w0) ?p < 2"
    using assms(1,3,4) object_not_index [of "ie_hash e"] unfolding gc_inv_def by (metis (no_types, lifting))
  show ?thesis
    using assms(1,2,3) wf p nlink_remove [OF d, of ?p] unfolding gc_inv_def
    by (auto 4 3)
qed

lemma gc_evict_wp:
  assumes "gc_inv keep w0 w" "bt_wf (ix_entries w0)" "honest w0" "(k, e) \<in> set (ix_entries w0)"
    "keep \<Longrightarrow> fs_nlink (wd_fs w) (path_for (ie_hash e)) < 2"
  shows "wp (gc_evict c k (path_for (ie_hash e))) (\<lambda>_. gc_inv keep w0) (\<lambda>_. gc_inv keep w0) w"
proof -
  let ?p = "path_for (ie_hash e)"
  have h: "wd_faults w n \<noteq> Some (NotFound, k)" for n k
    using assms(1,3) by (simp add: honest_def gc_inv_def)
  have row: "wp (index_remove c k) (\<lambda>_. wp (io_return ()) (\<lambda>_. gc_inv keep w0) E) (\<lambda>e. gc_inv keep w0) w'"
    if "gc_inv keep w0 w'" "im_get (wd_fs w') ?p = None" for w' E
    by (rule wp_mono [OF gc_inv_remove_row [OF that(1) assms(2,4) that(2)]]) (auto simp: wp_simps)
  show ?thesis
    unfolding gc_evict_def sys_unlink_def
    using assms(1) h gc_inv_unlink [OF assms(1,4,5)]
    by (auto simp: wp_simps intro!: row split: option.split io_error.split)
qed

lemma gc_inspect_wp:
  assumes "gc_inv keep w0 w" "honest w0"
  shows "wp (gc_inspect keep p) (\<lambda>v w'. gc_inv keep w0 w' \<and>
      (v = Evict \<and> keep \<longrightarrow> fs_nlink (wd_fs w') p < 2) \<and> (v = DropRow \<longrightarrow> im_get (wd_fs w') p = None))
    (\<lambda>_. gc_inv keep w0) w"
proof -
  have h: "wd_faults w n \<noteq> Some (NotFound, k)" for n k
    using assms by (simp add: honest_def gc_inv_def)
  show ?thesis
    using assms(1) h unfolding gc_inspect_def sys_nlink_def sys_pure_def
    by (auto simp: wp_simps split: option.split io_error.split)
qed

lemma gc_loop_wp:
  assumes "bt_wf (ix_entries w0)" "honest w0" "set es \<subseteq> set (ix_entries w0)" "gc_inv keep w0 w"
  shows "wp (gc_loop c keep low es tot st) (\<lambda>_. gc_inv keep w0) (\<lambda>_. gc_inv keep w0) w"
  using assms(3,4)
proof (induction es arbitrary: w tot st)
  case (Cons x es)
  obtain k e where x: "x = (k, e)" by fastforce
  let ?p = "path_for (ie_hash e)"
  have mem: "(k, e) \<in> set (ix_entries w0)" and rest: "set es \<subseteq> set (ix_entries w0)" using Cons(2) x by auto
  note cont = Cons(1) [OF rest]
  have ev: "wp (gc_evict c k ?p) (\<lambda>_. wp (gc_loop c keep low es tot' st') (\<lambda>_. gc_inv keep w0) (\<lambda>_. gc_inv keep w0))
      (\<lambda>_. gc_inv keep w0) w'"
    if "gc_inv keep w0 w'" "keep \<Longrightarrow> fs_nlink (wd_fs w') ?p < 2" for w' tot' st'
    by (rule wp_mono [OF gc_evict_wp [OF that(1) assms(1,2) mem that(2)]]) (auto intro: cont)
  have row: "wp (index_remove c k) (\<lambda>_. wp (gc_loop c keep low es tot' st') (\<lambda>_. gc_inv keep w0) (\<lambda>_. gc_inv keep w0))
      (\<lambda>_. gc_inv keep w0) w'"
    if "gc_inv keep w0 w'" "im_get (wd_fs w') ?p = None" for w' tot' st'
    by (rule wp_mono [OF gc_inv_remove_row [OF that(1) assms(1) mem that(2)]]) (auto intro: cont)
  show ?case
  proof (cases "tot < low")
    case False
    have "wp (gc_inspect keep ?p) (\<lambda>v. wp (case v of
          SkipLinked \<Rightarrow> gc_loop c keep low es tot st1 | DropRow \<Rightarrow> io_bind (io_map_err GcIndex (index_remove c k))
            (\<lambda>_. gc_loop c keep low es tot2 st2)
        | Evict \<Rightarrow> io_bind (gc_evict c k ?p) (\<lambda>_. gc_loop c keep low es tot2 st3))
        (\<lambda>_. gc_inv keep w0) (\<lambda>_. gc_inv keep w0)) (\<lambda>_. gc_inv keep w0) w" for st1 st2 st3 tot2
      by (rule wp_mono [OF gc_inspect_wp [OF Cons(3) assms(2)]])
        (auto simp: wp_simps intro!: cont ev row split: gc_verdict.split)
    then show ?thesis using False by (simp add: x wp_simps Let_def)
  qed (use Cons(3) in \<open>simp add: x wp_simps\<close>)
qed (simp add: wp_simps)

lemma gc_inv_refl: "fs_wf (wd_fs w) \<Longrightarrow> gc_inv keep w w"
  by (force simp: gc_inv_def map_of_eq_None_iff)

lemma run_gc_inv:
  assumes "fs_wf (wd_fs w)" "bt_wf (ix_entries w)" "honest w"
  shows "gc_inv (keep_hardlinked cfg) w (snd (run_gc c cfg w))"
proof -
  have loop: "wp (gc_loop c (keep_hardlinked cfg) low (sort_key f (ix_entries w)) tot st)
      (\<lambda>x. wp (case x of (tot', st') \<Rightarrow> io_return (if tot' < low then st'\<lparr>reached_target := True\<rparr> else st'))
        (\<lambda>_. gc_inv (keep_hardlinked cfg) w) (\<lambda>_ :: gc_error. gc_inv (keep_hardlinked cfg) w))
      (\<lambda>_. gc_inv (keep_hardlinked cfg) w) w" for low tot st and f :: "_ \<Rightarrow> nat"
    by (rule wp_mono [OF gc_loop_wp [OF assms(2,3) _ gc_inv_refl [OF assms(1)]]]) (auto simp: wp_simps)
  have "wp (run_gc c cfg) (\<lambda>_. gc_inv (keep_hardlinked cfg) w) (\<lambda>_. gc_inv (keep_hardlinked cfg) w) w"
    unfolding run_gc_def
    using gc_inv_refl [OF assms(1)] loop by (auto simp: wp_simps Let_def index_entries_def)
  then show ?thesis by (auto simp: wp_def split: prod.splits sum.splits)
qed

text \<open>C24. The collector is safe under every schedule of I/O errors and kills: it removes no file
  but blobs of indexed entries, never one that had a second hard link when those are to be
  kept, and never leaves a blob on disk whose row it has removed.\<close>

theorem gc_safe:
  assumes "fs_wf (wd_fs w)" "bt_wf (ix_entries w)" "honest w" "run_gc c cfg w = (res, w')"
  shows "(\<forall>q. \<not> index_file q \<and> im_get (wd_fs w') q \<noteq> im_get (wd_fs w) q \<longrightarrow>
        im_get (wd_fs w') q = None \<and> (\<exists>(k, e) \<in> set (ix_entries w). q = path_for (ie_hash e)) \<and>
        (keep_hardlinked cfg \<longrightarrow> fs_nlink (wd_fs w) q < 2)) \<and>
     (\<forall>(k, e) \<in> set (ix_entries w). index_get w' k = None \<longrightarrow> im_get (wd_fs w') (path_for (ie_hash e)) = None)"
  using run_gc_inv [OF assms(1-3), of cfg c] assms(4) by (auto simp: gc_inv_def index_get_def)

section \<open>The index without faults\<close>

definition live :: "codec \<Rightarrow> 'a index_world_scheme \<Rightarrow> bool" where
  "live c w \<longleftrightarrow> quiet w \<and> (\<exists>m es. in_sync c m es w)"

lemma live_wf: "live c w \<Longrightarrow> bt_wf (ix_entries w)"
  by (auto simp: live_def in_sync_def snapshot_holds_def intro: bt_wf_fold_apply)

definition recorded :: "codec \<Rightarrow> entry_map \<Rightarrow> journal_entry list \<Rightarrow> 'a index_world_scheme \<Rightarrow> bool" where
  "recorded c m es w \<longleftrightarrow> quiet w \<and> snapshot_holds c (wd_fs w) m \<and> journal_holds c (wd_fs w) es [] \<and> jw_buf w = []"

lemma append_live:
  fixes w :: "'a index_world_scheme"
  assumes "live c w" "codec_ok c e"
  obtains m es where "ix_entries w = fold apply_entry es m" "ix_since_compact w = length es"
    "wp (journal_append c journal_path e) (\<lambda>_ w'. recorded c m (es @ [e]) w' \<and> kept w w') (\<lambda>_ _. False) w"
proof -
  obtain m es where s: "in_sync c m es w" and q: "quiet w" using assms(1) by (auto simp: live_def)
  have f: "jw_buf w = []" "fs_read (wd_fs w) journal_path = Some (header_bytes JOURNAL_VERSION @ records c es)"
    "ix_entries w = fold apply_entry es m" "ix_since_compact w = length es"
    using s by (auto simp: in_sync_def journal_holds_def)
  have "wp (journal_append c journal_path e) (\<lambda>_ w'. recorded c m (es @ [e]) w' \<and> kept w w') (\<lambda>_ _. False) w"
    using append_begun_wp [OF s assms(2)] journal_append_quiet [OF q f(1,2) assms(2)]
    by (auto simp: wp_def recorded_def split: prod.splits sum.splits)
  then show ?thesis using that f(3,4) by blast
qed

lemma commit_live:
  fixes w :: "'a index_world_scheme"
  assumes "recorded c m (es @ [e]) w" "ix_entries w = fold apply_entry es m" "ix_since_compact w = length es"
    "snapshot_codec_ok c (apply_entry e (ix_entries w))"
  shows "wp (maybe_compact c) (\<lambda>_ w'. live c w' \<and> ix_entries w' = apply_entry e (ix_entries w)) (\<lambda>_ _. False)
    (w\<lparr>ix_entries := apply_entry e (ix_entries w), ix_since_compact := Suc (ix_since_compact w)\<rparr>)"
proof -
  let ?w = "w\<lparr>ix_entries := apply_entry e (ix_entries w), ix_since_compact := Suc (ix_since_compact w)\<rparr>"
  have sync: "in_sync c m (es @ [e]) ?w" and q: "quiet ?w" "jw_buf ?w = []"
    using assms(1-3) by (auto simp: in_sync_def recorded_def)
  have J: "fs_read (wd_fs ?w) journal_path = Some (header_bytes JOURNAL_VERSION @ records c (es @ [e]))"
    using assms(1) by (simp add: recorded_def journal_holds_def)
  have wf: "bt_wf (ix_entries ?w)" using sync q by (intro live_wf [of c]) (auto simp: live_def)
  have ok: "snapshot_codec_ok c (ix_entries ?w)" using assms(4) by simp
  note comp = compact_quiet [OF q J ok wf]
  have kept: "wp (index_compact c) (\<lambda>_. entries_kept ?w) (\<lambda>_. entries_kept ?w) ?w"
    using keeps_entries_compact(1) unfolding keeps_wp by blast
  have "wp (index_compact c) (\<lambda>_ w'. live c w' \<and> ix_entries w' = apply_entry e (ix_entries w)) (\<lambda>_ _. False) ?w"
    using comp kept by (auto simp: wp_def live_def entries_kept_def split: prod.splits sum.splits)
  then show ?thesis
    using sync q(1) by (auto simp: maybe_compact_def wp_simps live_def)
qed

lemma wp_return_eta: "wp (io_return x) Q E = Q x"
  by (rule ext) (simp add: wp_simps)

lemma wp_get_eta: "wp (io_get f) Q E = (\<lambda>w. Q (f w) w)"
  by (rule ext) (simp add: wp_simps)

lemma index_put_live:
  fixes w :: "'a index_world_scheme"
  assumes "live c w" "codec_ok c (JPut k x)" "snapshot_codec_ok c (bt_insert k x (ix_entries w))"
  shows "wp (index_put c k x) (\<lambda>_ w'. live c w' \<and> ix_entries w' = bt_insert k x (ix_entries w)) (\<lambda>_ _. False) w"
proof -
  obtain m es where a: "ix_entries w = fold apply_entry es m" "ix_since_compact w = length es"
    "wp (journal_append c journal_path (JPut k x)) (\<lambda>_ w'. recorded c m (es @ [JPut k x]) w' \<and> kept w w') (\<lambda>_ _. False) w"
    using append_live [OF assms(1,2)] by blast
  have step: "wp (commit (JPut k x)) (\<lambda>_. wp (maybe_compact c)
      (\<lambda>_ w'. live c w' \<and> ix_entries w' = bt_insert k x (ix_entries w)) (\<lambda>_ _. False)) (\<lambda>_ _. False) v"
    if "recorded c m (es @ [JPut k x]) v" "kept w v" for v :: "'a index_world_scheme"
    using commit_live [OF that(1)] that(2) a(1,2) assms(3) by (simp add: kept_def commit_def wp_simps)
  show ?thesis
    unfolding index_put_def wp_bind wp_map_err by (rule wp_mono [OF a(3)]) (elim conjE, rule step)
qed

lemma index_remove_live:
  fixes w :: "'a index_world_scheme"
  assumes "live c w" "codec_ok c (JRemove k)" "snapshot_codec_ok c (bt_remove k (ix_entries w))"
  shows "wp (index_remove c k) (\<lambda>_ w'. live c w' \<and> ix_entries w' = bt_remove k (ix_entries w)) (\<lambda>_ _. False) w"
proof -
  obtain m es where a: "ix_entries w = fold apply_entry es m" "ix_since_compact w = length es"
    "wp (journal_append c journal_path (JRemove k)) (\<lambda>_ w'. recorded c m (es @ [JRemove k]) w' \<and> kept w w') (\<lambda>_ _. False) w"
    using append_live [OF assms(1,2)] by blast
  have step: "wp (commit (JRemove k)) (\<lambda>_. wp (maybe_compact c) (\<lambda>_. wp (io_return r)
      (\<lambda>_ w'. live c w' \<and> ix_entries w' = bt_remove k (ix_entries w)) (\<lambda>_ _. False)) (\<lambda>_ _. False)) (\<lambda>_ _. False) v"
    if "recorded c m (es @ [JRemove k]) v" "kept w v" for v :: "'a index_world_scheme" and r :: bool
    using commit_live [OF that(1)] that(2) a(1,2) assms(3)
    by (simp add: kept_def commit_def wp_simps wp_return_eta)
  show ?thesis
    unfolding index_remove_def wp_bind wp_map_err wp_get_eta by (rule wp_mono [OF a(3)]) (elim conjE, rule step)
qed

section \<open>What the collector evicts\<close>

definition size_of :: "(index_key \<times> index_entry) list \<Rightarrow> nat" where
  "size_of es = sum_list (map (\<lambda>(_, e). ie_size_bytes e) es)"

text \<open>Entries the collector may not evict, and the map once it has gone through \<open>d\<close>.\<close>

definition linked :: "bool \<Rightarrow> fs \<Rightarrow> index_key \<times> index_entry \<Rightarrow> bool" where
  "linked keep fs x \<longleftrightarrow> keep \<and> 2 \<le> fs_nlink fs (path_for (ie_hash (snd x)))"

definition left_after ::
  "bool \<Rightarrow> fs \<Rightarrow> entry_map \<Rightarrow> (index_key \<times> index_entry) list \<Rightarrow> entry_map" where
  "left_after keep fs m d = filter (\<lambda>x. x \<notin> set d \<or> linked keep fs x) m"

definition encodes :: "codec \<Rightarrow> entry_map \<Rightarrow> bool" where
  "encodes c m \<longleftrightarrow> (\<forall>(k, e) \<in> set m. codec_ok c (JRemove k)) \<and> (\<forall>P. snapshot_codec_ok c (filter P m))"

lemma left_after_step:
  assumes "distinct (map fst m)" "(k, e) \<in> set m" "(k, e) \<notin> set d"
  shows "linked keep fs (k, e) \<Longrightarrow> left_after keep fs m (d @ [(k, e)]) = left_after keep fs m d"
    and "\<not> linked keep fs (k, e) \<Longrightarrow> left_after keep fs m (d @ [(k, e)]) = bt_remove k (left_after keep fs m d)"
    and "\<not> linked keep fs (k, e) \<Longrightarrow>
      size_of (left_after keep fs m (d @ [(k, e)])) = size_of (left_after keep fs m d) - ie_size_bytes e"
proof -
  have uniq: "e' = e" if "(k, e') \<in> set m" for e' using assms(1,2) that by (auto simp: eq_key_imp_eq_value)
  show "left_after keep fs m (d @ [(k, e)]) = left_after keep fs m d" if "linked keep fs (k, e)"
    using that by (auto simp: left_after_def intro!: filter_cong)
  show r: "left_after keep fs m (d @ [(k, e)]) = bt_remove k (left_after keep fs m d)" if "\<not> linked keep fs (k, e)"
    using that uniq by (auto simp: left_after_def bt_remove_def intro!: filter_cong)
  have rem: "size_of (bt_remove k xs) = size_of xs - ie_size_bytes e"
    if "distinct (map fst xs)" "(k, e) \<in> set xs" for xs
    using that
  proof (induction xs)
    case (Cons x xs)
    show ?case
    proof (cases "x = (k, e)")
      case True
      then have "bt_remove k xs = xs" using Cons(2) by (force simp: bt_remove_def filter_id_conv)
      then show ?thesis using True by (simp add: size_of_def bt_remove_def)
    next
      case False
      have "ie_size_bytes e \<in> set (map (\<lambda>(_, e). ie_size_bytes e) xs)" using Cons(3) False by force
      then have "ie_size_bytes e \<le> size_of xs" by (simp only: size_of_def member_le_sum_list)
      moreover have "fst x \<noteq> k" using Cons(2,3) False by (auto simp: rev_image_eqI)
      ultimately show ?thesis using Cons False by (auto simp: size_of_def bt_remove_def)
    qed
  qed simp
  have "distinct (map fst (left_after keep fs m d))" "(k, e) \<in> set (left_after keep fs m d)"
    using assms by (auto simp: left_after_def distinct_map inj_on_def)
  then show "size_of (left_after keep fs m (d @ [(k, e)])) = size_of (left_after keep fs m d) - ie_size_bytes e"
    if "\<not> linked keep fs (k, e)" using rem r [OF that] by simp
qed

text \<open>The collector's progress: it has gone through \<open>d\<close>, and had to.\<close>

definition gc_at ::
  "codec \<Rightarrow> bool \<Rightarrow> nat \<Rightarrow> 'a index_world_scheme \<Rightarrow> (index_key \<times> index_entry) list \<Rightarrow> nat \<Rightarrow>
   'a index_world_scheme \<Rightarrow> bool" where
  "gc_at c keep low w0 d tot w \<longleftrightarrow> live c w \<and> gc_inv keep w0 w \<and>
     ix_entries w = left_after keep (wd_fs w0) (ix_entries w0) d \<and> tot = size_of (ix_entries w) \<and>
     (\<forall>d'. strict_prefix d' d \<longrightarrow> low \<le> size_of (left_after keep (wd_fs w0) (ix_entries w0) d'))"

lemma gc_at_step:
  assumes "gc_at c keep low w0 d tot w" "low \<le> tot" "bt_wf (ix_entries w0)" "(k, e) \<in> set (ix_entries w0)"
    "(k, e) \<notin> set d" "live c w'" "gc_inv keep w0 w'"
    "ix_entries w' = (if linked keep (wd_fs w0) (k, e) then ix_entries w else bt_remove k (ix_entries w))"
  shows "gc_at c keep low w0 (d @ [(k, e)]) (if linked keep (wd_fs w0) (k, e) then tot else tot - ie_size_bytes e) w'"
proof -
  have "distinct (map fst (ix_entries w0))" using assms(3) by (simp add: bt_wf_def strict_sorted_iff)
  note step = left_after_step [OF this assms(4,5), of keep "wd_fs w0"]
  show ?thesis
    using assms(1,2,6-8) step unfolding gc_at_def
    by (auto simp: prefix_order.less_le prefix_snoc)
qed

lemma gc_linked_now:
  assumes "gc_inv keep w0 w" "keep"
  shows "im_get (wd_fs w) (path_for h) = None \<Longrightarrow> \<not> linked keep (wd_fs w0) (k, e\<lparr>ie_hash := h\<rparr>)"
    and "im_get (wd_fs w) (path_for h) \<noteq> None \<Longrightarrow>
      linked keep (wd_fs w0) (k, e\<lparr>ie_hash := h\<rparr>) \<longleftrightarrow> 2 \<le> fs_nlink (wd_fs w) (path_for h)"
proof -
  have "im_get (wd_fs w) (path_for h) = im_get (wd_fs w0) (path_for h) \<and>
      fs_nlink (wd_fs w) (path_for h) = fs_nlink (wd_fs w0) (path_for h) \<or>
      im_get (wd_fs w) (path_for h) = None \<and> fs_nlink (wd_fs w0) (path_for h) < 2"
    using assms object_not_index [of h] unfolding gc_inv_def by blast
  then show "im_get (wd_fs w) (path_for h) = None \<Longrightarrow> \<not> linked keep (wd_fs w0) (k, e\<lparr>ie_hash := h\<rparr>)"
    "im_get (wd_fs w) (path_for h) \<noteq> None \<Longrightarrow>
      linked keep (wd_fs w0) (k, e\<lparr>ie_hash := h\<rparr>) \<longleftrightarrow> 2 \<le> fs_nlink (wd_fs w) (path_for h)"
    using assms(2) by (auto simp: linked_def fs_nlink_def)
qed

lemma gc_inspect_live:
  assumes "gc_inv keep w0 w" "quiet w"
  shows "wp (gc_inspect keep (path_for (ie_hash e))) (\<lambda>v w'. (\<exists>n. w' = w\<lparr>wd_calls := n\<rparr>) \<and>
      (v = SkipLinked \<longleftrightarrow> linked keep (wd_fs w0) (k, e)) \<and>
      (v = DropRow \<longrightarrow> im_get (wd_fs w) (path_for (ie_hash e)) = None) \<and>
      (v = Evict \<and> keep \<longrightarrow> fs_nlink (wd_fs w) (path_for (ie_hash e)) < 2)) (\<lambda>_ _. False) w"
proof (cases keep)
  case True
  show ?thesis
    using gc_linked_now [OF assms(1) True, where h = "ie_hash e" and k = k and e = e] assms(2) True
    unfolding gc_inspect_def sys_nlink_def sys_pure_def
    by (auto simp: wp_simps split: option.split)
next
  case False
  then show ?thesis by (auto simp: gc_inspect_def wp_simps linked_def intro: exI [of _ "wd_calls w"])
qed

lemma live_calls [simp]: "live c (w\<lparr>wd_calls := n\<rparr>) = live c w"
  by (simp add: live_def in_sync_def)

text \<open>The removal of an unlinked entry's row, alone or after its blob.\<close>

lemma gc_remove_live:
  fixes w :: "'a index_world_scheme"
  assumes at: "gc_at c keep low w0 d tot w" and "encodes c (ix_entries w0)" "bt_wf (ix_entries w0)"
    and mem: "(k, e) \<in> set (ix_entries w0)" "(k, e) \<notin> set d" "\<not> linked keep (wd_fs w0) (k, e)"
    and v: "live c v" "gc_inv keep w0 v" "ix_entries v = ix_entries w" "im_get (wd_fs v) (path_for (ie_hash e)) = None"
    and low: "low \<le> tot"
  shows "wp (index_remove c k) (\<lambda>_. gc_at c keep low w0 (d @ [(k, e)]) (tot - ie_size_bytes e)) (\<lambda>_ _. False) v"
proof -
  have "distinct (map fst (ix_entries w0))" using assms(3) by (simp add: bt_wf_def strict_sorted_iff)
  then have "bt_remove k (ix_entries v) = left_after keep (wd_fs w0) (ix_entries w0) (d @ [(k, e)])"
    using at v(3) left_after_step(2) [OF _ mem] by (simp add: gc_at_def)
  then have "snapshot_codec_ok c (bt_remove k (ix_entries v))" "codec_ok c (JRemove k)"
    using assms(2) mem(1) by (auto simp: encodes_def left_after_def)
  then have "wp (index_remove c k) (\<lambda>_ w'. live c w' \<and> ix_entries w' = bt_remove k (ix_entries w)) (\<lambda>_ _. False) v"
    using index_remove_live [OF v(1)] v(3) by simp
  then show ?thesis
    using gc_inv_remove_row [where c = c, OF v(2) assms(3) mem(1) v(4)] gc_at_step [OF at low assms(3) mem(1,2)] mem(3)
    by (auto simp: wp_def split: prod.splits sum.splits)
qed

lemma gc_evict_live:
  fixes w :: "'a index_world_scheme"
  assumes at: "gc_at c keep low w0 d tot w" and "encodes c (ix_entries w0)" "bt_wf (ix_entries w0)"
    and mem: "(k, e) \<in> set (ix_entries w0)" "(k, e) \<notin> set d" "\<not> linked keep (wd_fs w0) (k, e)"
    and low: "low \<le> tot" and one: "keep \<Longrightarrow> fs_nlink (wd_fs w) (path_for (ie_hash e)) < 2"
  shows "wp (gc_evict c k (path_for (ie_hash e)))
    (\<lambda>_. gc_at c keep low w0 (d @ [(k, e)]) (tot - ie_size_bytes e)) (\<lambda>_ _. False) (w\<lparr>wd_calls := n\<rparr>)"
proof -
  let ?p = "path_for (ie_hash e)"
  have inv: "gc_inv keep w0 w" and lv: "live c w" and q: "quiet w" using at by (auto simp: gc_at_def live_def)
  note row = gc_remove_live [OF at assms(2,3) mem _ _ _ _ low]
  have lv': "live c (w\<lparr>wd_fs := fs_remove ?p (wd_fs w), wd_calls := n\<rparr>)" for n
    using lv by (auto simp: live_def in_sync_def snapshot_holds_def journal_holds_def)
  show ?thesis
    unfolding gc_evict_def sys_unlink_def
    using q inv lv lv' gc_inv_unlink [OF inv mem(1) one]
    by (auto simp: wp_simps wp_return_eta intro!: row split: option.split)
qed

lemma gc_loop_live:
  fixes w :: "'a index_world_scheme"
  assumes "encodes c (ix_entries w0)" "bt_wf (ix_entries w0)"
    "gc_at c keep low w0 d tot w" "distinct (d @ es)" "set es \<subseteq> set (ix_entries w0)"
  shows "wp (gc_loop c keep low es tot st)
    (\<lambda>(tot', st') w'. \<exists>d' r. d @ es = d' @ r \<and> gc_at c keep low w0 d' tot' w' \<and> (r \<noteq> [] \<longrightarrow> tot' < low) \<and>
       (reached_target st' \<longrightarrow> reached_target st \<or> tot' < low))
    (\<lambda>_ _. False) w"
  using assms(3-5)
proof (induction es arbitrary: d w tot st)
  case Nil
  then show ?case by (auto simp: wp_simps)
next
  case (Cons x es)
  obtain k e where x: "x = (k, e)" by fastforce
  have mem: "(k, e) \<in> set (ix_entries w0)" "(k, e) \<notin> set d" using Cons(3,4) x by auto
  let ?Q = "\<lambda>(tot', st') w'. \<exists>d' r. d @ x # es = d' @ r \<and> gc_at c keep low w0 d' tot' w' \<and> (r \<noteq> [] \<longrightarrow> tot' < low) \<and>
       (reached_target st' \<longrightarrow> reached_target st \<or> tot' < low)"
  have cont: "wp (gc_loop c keep low es tot1 st1) ?Q (\<lambda>_ _. False) w1"
    if "gc_at c keep low w0 (d @ [(k, e)]) tot1 w1" "reached_target st1 = reached_target st" for w1 tot1 st1
    using Cons(1) [OF that(1), of st1] Cons(3,4) that(2) x by simp
  show ?case
  proof (cases "tot < low")
    case True
    then show ?thesis using Cons(2) by (auto simp: x wp_simps Let_def)
  next
    case False
    then have low: "low \<le> tot" by simp
    note at = Cons(2)
    have inv: "gc_inv keep w0 w" and lv: "live c w" and q: "quiet w"
      using at by (auto simp: gc_at_def live_def)
    have "wp (gc_inspect keep (path_for (ie_hash e))) (\<lambda>v. wp (case v of
          SkipLinked \<Rightarrow> gc_loop c keep low es tot st1
        | DropRow \<Rightarrow> io_bind (io_map_err GcIndex (index_remove c k)) (\<lambda>_. gc_loop c keep low es (tot - ie_size_bytes e) st2)
        | Evict \<Rightarrow> io_bind (gc_evict c k (path_for (ie_hash e))) (\<lambda>_. gc_loop c keep low es (tot - ie_size_bytes e) st3))
        ?Q (\<lambda>_ _. False)) (\<lambda>_ _. False) w"
      if st: "reached_target st1 = reached_target st" "reached_target st2 = reached_target st"
        "reached_target st3 = reached_target st" for st1 st2 st3
    proof (rule wp_mono [OF gc_inspect_live [OF inv q, of e k]], goal_cases)
      case (1 v w')
      then obtain n where n: "w' = w\<lparr>wd_calls := n\<rparr>" by blast
      show ?case
      proof (cases v)
        case Evict
        have "wp (gc_evict c k (path_for (ie_hash e)))
            (\<lambda>_. gc_at c keep low w0 (d @ [(k, e)]) (tot - ie_size_bytes e)) (\<lambda>_ _. False) w'"
          unfolding n by (rule gc_evict_live [OF at assms(1,2) mem _ low]) (use 1 Evict in auto)
        from wp_mono [OF this] show ?thesis using st by (simp add: Evict wp_bind cont)
      next
        case SkipLinked
        then have "gc_at c keep low w0 (d @ [(k, e)]) tot w'"
          using gc_at_step [OF at low assms(2) mem, of w'] 1 inv lv n by simp
        then show ?thesis using st by (simp add: SkipLinked cont)
      next
        case DropRow
        have "wp (index_remove c k) (\<lambda>_. gc_at c keep low w0 (d @ [(k, e)]) (tot - ie_size_bytes e)) (\<lambda>_ _. False) w'"
          by (rule gc_remove_live [OF at assms(1,2) mem _ _ _ _ _ low]) (use 1 DropRow n inv lv in auto)
        from wp_mono [OF this] show ?thesis using st by (simp add: DropRow wp_bind wp_map_err cont)
      qed
    qed simp
    then show ?thesis using False by (simp add: x wp_simps Let_def)
  qed
qed

text \<open>C25. Without faults the collector does nothing below the high watermark; at or above it, it
  evicts the shortest run of entries in order of last use, passing over those whose blob has
  another hard link when these are kept, that brings the recorded total below the low
  watermark, or all of them, and reports whether it got there. The index stays in step with
  its files.\<close>

theorem gc_evicts_lru:
  fixes w :: "'a index_world_scheme"
  assumes "live c w" "fs_wf (wd_fs w)" "encodes c (ix_entries w)" "size_of (ix_entries w) < 2 ^ 64"
    "watermark_bytes (max_size_bytes cfg) (high_watermark cfg) \<le> size_of (ix_entries w)"
    "low = watermark_bytes (max_size_bytes cfg) (low_watermark cfg)"
  shows "\<exists>st w' d r. run_gc c cfg w = (Inr st, w') \<and> live c w' \<and>
    sort_key (\<lambda>(_, e). ie_atime_unix e) (ix_entries w) = d @ r \<and>
    ix_entries w' = left_after (keep_hardlinked cfg) (wd_fs w) (ix_entries w) d \<and>
    (reached_target st \<longleftrightarrow> size_of (ix_entries w') < low) \<and> (r \<noteq> [] \<longrightarrow> reached_target st) \<and>
    (\<forall>d'. strict_prefix d' d \<longrightarrow> low \<le> size_of (left_after (keep_hardlinked cfg) (wd_fs w) (ix_entries w) d'))"
proof -
  let ?keep = "keep_hardlinked cfg"
  let ?es = "sort_key (\<lambda>(_, e). ie_atime_unix e) (ix_entries w)"
  let ?st = "\<lparr>considered = 0, evicted = 0, skipped_hardlinked = 0, bytes_freed = 0, reached_target = False\<rparr>"
  have wf: "bt_wf (ix_entries w)" using live_wf [OF assms(1)] .
  then have "distinct (ix_entries w)" by (simp add: bt_wf_def strict_sorted_iff distinct_map)
  then have d: "distinct ([] @ ?es)" and sub: "set ?es \<subseteq> set (ix_entries w)" by simp_all
  have tot: "total_size (ix_entries w) = size_of (ix_entries w)"
    using assms(4) by (simp add: total_size_def size_of_def)
  have at: "gc_at c ?keep low w [] (size_of (ix_entries w)) w"
    using assms(1) gc_inv_refl [OF assms(2)] by (simp add: gc_at_def left_after_def)
  let ?Q = "\<lambda>st w'. \<exists>d r. ?es = d @ r \<and> gc_at c ?keep low w d (size_of (ix_entries w')) w' \<and>
      (reached_target st \<longleftrightarrow> size_of (ix_entries w') < low) \<and> (r \<noteq> [] \<longrightarrow> reached_target st)"
  have loop: "wp (gc_loop c ?keep low ?es (size_of (ix_entries w)) ?st)
      (\<lambda>x. wp (case x of (tot', st') \<Rightarrow> io_return (if tot' < low then st'\<lparr>reached_target := True\<rparr> else st'))
        ?Q (\<lambda>(_ :: gc_error) _. False)) (\<lambda>_ _. False) w"
  proof (rule wp_mono [OF gc_loop_live [OF assms(3) wf at d sub]], goal_cases)
    case (1 x w')
    obtain tot' st' where x: "x = (tot', st')" by fastforce
    with 1 obtain d r where dr: "?es = d @ r" "gc_at c ?keep low w d tot' w'" "r \<noteq> [] \<longrightarrow> tot' < low"
      "reached_target st' \<longrightarrow> tot' < low" by auto
    then have "tot' = size_of (ix_entries w')" by (simp add: gc_at_def)
    then show ?case using dr unfolding x by (auto simp: wp_simps)
  qed auto
  have "wp (run_gc c cfg) ?Q (\<lambda>_ _. False) w"
    unfolding run_gc_def Let_def wp_bind wp_get
    using assms(5) tot loop by (simp add: index_entries_def assms(6) [symmetric] wp_bind)
  then show ?thesis by (auto simp: wp_def gc_at_def split: prod.splits sum.splits)
qed

section \<open>What the recovery scan finds\<close>

definition has_blob :: "fs \<Rightarrow> index_key \<times> index_entry \<Rightarrow> bool" where
  "has_blob fs x \<longleftrightarrow> fs_read fs (path_for (ie_hash (snd x))) \<noteq> None"

text \<open>The files of the store whose names are digests.\<close>

definition objects :: "fs \<Rightarrow> (content_hash \<times> string) set" where
  "objects fs = {(h, p). p \<in> set (im_keys fs) \<and> (\<exists>s name. object_name p = Some (s, name) \<and> from_hex name = Inr h)}"

lemma object_name_not_index: "index_file p \<Longrightarrow> object_name p = None"
  by (auto simp: object_name_def index_file_def INDEX_DIR_def OBJECTS_DIR_def strip_prefix_def starts_with_def
      prefix_def split: if_splits)

lemma objects_outside: "outside_kept w w' \<Longrightarrow> objects (wd_fs w') = objects (wd_fs w)"
proof -
  have "p \<in> set (im_keys (other_files fs)) \<longleftrightarrow> p \<in> set (im_keys fs) \<and> \<not> index_file p" for p fs
    by (force simp: other_files_def im_keys_def)
  then have "objects fs = objects (other_files fs)" for fs
    using object_name_not_index by (auto simp: objects_def)
  then show "outside_kept w w' \<Longrightarrow> objects (wd_fs w') = objects (wd_fs w)" by (metis outside_kept_def)
qed

lemma list_shards_quiet:
  assumes "quiet w"
  shows "wp (list_shards ss) (\<lambda>items w'. (\<exists>n. w' = w\<lparr>wd_calls := n\<rparr>) \<and>
     (\<exists>hps. items = map Inr hps \<and> set hps = (\<Union>s \<in> set ss. set (shard_paths (wd_fs w) s)))) E w"
  using assms
proof (induction ss arbitrary: w)
  case Nil
  then show ?case by (auto simp: wp_simps intro: exI [of _ "wd_calls w"])
next
  case (Cons s ss)
  let ?w = "w\<lparr>wd_calls := Suc (wd_calls w)\<rparr>"
  have q: "quiet ?w" using Cons(2) by simp
  show ?case
    using Cons(2)
    by (auto simp: wp_simps wp_return_eta intro!: wp_mono [OF Cons(1) [OF q]])
      (metis (no_types, lifting) map_append set_append)
qed

lemma in_shard_paths:
  "(h, p) \<in> set (shard_paths fs s) \<longleftrightarrow>
     p \<in> set (im_keys fs) \<and> (\<exists>name. object_name p = Some (s, name) \<and> from_hex name = Inr h)"
  by (induction fs) (auto simp: shard_paths_def im_keys_def map_filter_simps split: option.splits sum.splits if_splits)

lemma in_shard_names:
  "s \<in> set (shard_names fs) \<longleftrightarrow> (\<exists>p \<in> set (im_keys fs). \<exists>name. object_name p = Some (s, name))"
  by (induction fs) (auto simp: shard_names_def im_keys_def map_filter_simps split: option.splits)

lemma shards_cover: "(\<Union>s \<in> set (shard_names fs). set (shard_paths fs s)) = objects fs"
  unfolding objects_def by (auto simp: in_shard_paths in_shard_names) blast

lemma cas_entries_quiet:
  assumes "quiet w"
  shows "wp cas_entries (\<lambda>items w'. (\<exists>n. w' = w\<lparr>wd_calls := n\<rparr>) \<and>
     (\<exists>hps. items = map Inr hps \<and> set hps = objects (wd_fs w))) E w"
proof -
  let ?w = "w\<lparr>wd_calls := Suc (wd_calls w)\<rparr>"
  have q: "quiet ?w" using assms by simp
  show ?thesis
    unfolding cas_entries_def using assms
    by (simp add: wp_simps) (rule wp_mono [OF list_shards_quiet [OF q]], auto simp: shards_cover)
qed

lemma find_orphans_quiet:
  assumes "quiet w"
  shows "wp (find_orphans hs (map Inr hps) rep) (\<lambda>rep' w'. (\<exists>n. w' = w\<lparr>wd_calls := n\<rparr>) \<and>
     rr_dangling_entries rep' = rr_dangling_entries rep \<and>
     map (\<lambda>(h, p, _). (h, p)) (rr_orphan_blobs rep') =
       map (\<lambda>(h, p, _). (h, p)) (rr_orphan_blobs rep) @ filter (\<lambda>(h, _). h \<notin> set hs) hps) E w"
  using assms
proof (induction hps arbitrary: rep w)
  case Nil
  then show ?case by (auto simp: wp_simps intro: exI [of _ "wd_calls w"])
next
  case (Cons hp hps)
  obtain h p where hp: "hp = (h, p)" by fastforce
  let ?w = "w\<lparr>wd_calls := Suc (wd_calls w)\<rparr>"
  have q: "quiet ?w" using Cons(2) by simp
  show ?case
  proof (cases "h \<in> set hs")
    case True
    then show ?thesis using Cons(1) [OF Cons(2)] by (simp add: hp)
  next
    case False
    show ?thesis
      using False Cons(2)
      by (auto simp: hp wp_simps sys_len_def Let_def split: option.split intro!: wp_mono [OF Cons(1) [OF q]])
  qed
qed

text \<open>The first pass, once it has gone through \<open>d\<close>.\<close>

definition scanned :: "codec \<Rightarrow> 'a index_world_scheme \<Rightarrow> (index_key \<times> index_entry) list \<Rightarrow>
    'a index_world_scheme \<Rightarrow> bool" where
  "scanned c w0 d w \<longleftrightarrow> live c w \<and> outside_kept w0 w \<and>
     ix_entries w = filter (\<lambda>x. x \<notin> set d \<or> has_blob (wd_fs w0) x) (ix_entries w0)"

lemma scanned_blob: "scanned c w0 d w \<Longrightarrow> fs_read (wd_fs w) (path_for h) = fs_read (wd_fs w0) (path_for h)"
  using outside_kept_get [of w0 w "path_for h"] by (simp add: scanned_def fs_read_def)

lemma scanned_keep: "scanned c w0 d w \<Longrightarrow> has_blob (wd_fs w0) x \<Longrightarrow> scanned c w0 (d @ [x]) w"
  by (auto simp: scanned_def intro!: filter_cong)

lemma scanned_drop:
  fixes w :: "'a index_world_scheme"
  assumes "scanned c w0 d w" "encodes c (ix_entries w0)" "bt_wf (ix_entries w0)"
    "(k, e) \<in> set (ix_entries w0)" "\<not> has_blob (wd_fs w0) (k, e)"
  shows "wp (index_remove c k) (\<lambda>_. scanned c w0 (d @ [(k, e)])) (\<lambda>_ _. False) w"
proof -
  have uniq: "e' = e" if "(k, e') \<in> set (ix_entries w0)" for e'
    using assms(3,4) that unfolding bt_wf_def by (metis eq_key_imp_eq_value strict_sorted_iff)
  have lv: "live c w" using assms(1) by (simp add: scanned_def)
  have r: "bt_remove k (ix_entries w) =
      filter (\<lambda>x. x \<notin> set (d @ [(k, e)]) \<or> has_blob (wd_fs w0) x) (ix_entries w0)"
    using assms(1,5) uniq by (auto simp: scanned_def bt_remove_def intro!: filter_cong)
  have "wp (index_remove c k) (\<lambda>_ w'. live c w' \<and> ix_entries w' = bt_remove k (ix_entries w)) (\<lambda>_ _. False) w"
    using assms(2,4) r by (intro index_remove_live [OF lv]) (auto simp: encodes_def)
  moreover have "wp (index_remove c k) (\<lambda>_. outside_kept w) (\<lambda>_. outside_kept w) w"
    using keeps_index(2) unfolding keeps_wp by blast
  ultimately show ?thesis
    using assms(1) r outside.frame_trans [of w0 w] by (auto simp: wp_def scanned_def split: prod.splits sum.splits)
qed

lemma check_entries_live:
  fixes w :: "'a index_world_scheme" and E :: "'e \<Rightarrow> 'a index_world_scheme \<Rightarrow> bool"
  assumes "encodes c (ix_entries w0)" "bt_wf (ix_entries w0)" "scanned c w0 d w" "set es \<subseteq> set (ix_entries w0)"
  shows "wp (check_entries c es hs n) (\<lambda>(hs', n') w'. scanned c w0 (d @ es) w' \<and>
     hs' = rev (map (\<lambda>x. ie_hash (snd x)) (filter (has_blob (wd_fs w0)) es)) @ hs \<and>
     n' = n + length (filter (\<lambda>x. \<not> has_blob (wd_fs w0) x) es)) E w"
  using assms(3,4)
proof (induction es arbitrary: d w hs n)
  case (Cons x es)
  obtain k e where x: "x = (k, e)" by fastforce
  have mem: "(k, e) \<in> set (ix_entries w0)" "set es \<subseteq> set (ix_entries w0)" using Cons(3) x by auto
  have q: "quiet w" using Cons(2) by (simp add: scanned_def live_def)
  let ?w = "ticked (wd_fs w) w"
  have s: "scanned c w0 d ?w" using Cons(2) by (simp add: scanned_def ticked_def outside_kept_def)
  have b: "fs_read (wd_fs w) (path_for (ie_hash e)) \<noteq> None \<longleftrightarrow> has_blob (wd_fs w0) (k, e)"
    using scanned_blob [OF Cons(2)] by (simp add: has_blob_def)
  show ?case
  proof (cases "has_blob (wd_fs w0) (k, e)")
    case True
    have "wp (check_entries c es (ie_hash e # hs) n) (\<lambda>(hs', n') w'. scanned c w0 (d @ x # es) w' \<and>
        hs' = rev (map (\<lambda>x. ie_hash (snd x)) (filter (has_blob (wd_fs w0)) (x # es))) @ hs \<and>
        n' = n + length (filter (\<lambda>x. \<not> has_blob (wd_fs w0) x) (x # es))) E ?w"
      using Cons(1) [OF scanned_keep [OF s True] mem(2), of "ie_hash e # hs" n] True by (simp add: x)
    then show ?thesis
      using True b q by (simp add: x cas_contains_def wp_bind wp_sys_exists)
  next
    case False
    have "wp (check_entries c es hs (Suc n)) (\<lambda>(hs', n') w'. scanned c w0 (d @ x # es) w' \<and>
        hs' = rev (map (\<lambda>x. ie_hash (snd x)) (filter (has_blob (wd_fs w0)) (x # es))) @ hs \<and>
        n' = n + length (filter (\<lambda>x. \<not> has_blob (wd_fs w0) x) (x # es))) E w'"
      if "scanned c w0 (d @ [(k, e)]) w'" for w'
      using Cons(1) [OF that mem(2), of hs "Suc n"] False by (simp add: x)
    from wp_mono [OF scanned_drop [OF s assms(1,2) mem(1) False] this] show ?thesis
      using False b q by (simp add: x cas_contains_def wp_bind wp_sys_exists wp_try)
  qed
qed (simp add: wp_simps)

text \<open>C26. The recovery scan without faults removes from the index exactly the rows whose blob is
  missing, on disk too, counts them, and reports as orphans exactly the digests in the store
  that no remaining row refers to.\<close>

theorem scan_recovers:
  fixes w :: "'a index_world_scheme"
  assumes "live c w" "encodes c (ix_entries w)"
  shows "\<exists>rep w'. scan_and_recover c w = (Inr rep, w') \<and> live c w' \<and>
    ix_entries w' = filter (has_blob (wd_fs w)) (ix_entries w) \<and>
    rr_dangling_entries rep = length (ix_entries w) - length (ix_entries w') \<and>
    (\<lambda>(h, p, _). (h, p)) ` set (rr_orphan_blobs rep) =
      {(h, p) \<in> objects (wd_fs w). h \<notin> (ie_hash \<circ> snd) ` set (ix_entries w')}"
proof -
  have wf: "bt_wf (ix_entries w)" using live_wf [OF assms(1)] .
  have s0: "scanned c w [] w" using assms(1) by (simp add: scanned_def outside.frame_refl)
  let ?m = "filter (has_blob (wd_fs w)) (ix_entries w)"
  let ?Q = "\<lambda>rep w'. live c w' \<and> ix_entries w' = ?m \<and>
      rr_dangling_entries rep = length (ix_entries w) - length ?m \<and>
      set (map (\<lambda>(h, p, _). (h, p)) (rr_orphan_blobs rep)) =
        {(h, p) \<in> objects (wd_fs w). h \<notin> (ie_hash \<circ> snd) ` set ?m}"
  have "wp (check_entries c (ix_entries w) [] 0) (\<lambda>(hs, n). wp (io_bind cas_entries (\<lambda>items.
      find_orphans hs items \<lparr>rr_journal_truncated = False, rr_journal_truncated_at = None, rr_orphan_blobs = [],
        rr_orphan_bytes = 0, rr_dangling_entries = n\<rparr>)) ?Q (\<lambda>_ _. False)) (\<lambda>_ _. False) w"
  proof (rule wp_mono [OF check_entries_live [OF assms(2) wf s0 order.refl, of "[]" 0]], goal_cases)
    case (1 x w1)
    obtain hs n where x: "x = (hs, n)" by fastforce
    have s1: "scanned c w (ix_entries w) w1" and hs: "set hs = (ie_hash \<circ> snd) ` set ?m"
      and n: "n = length (filter (\<lambda>x. \<not> has_blob (wd_fs w) x) (ix_entries w))" using 1 x by auto
    have q: "quiet w1" and o: "objects (wd_fs w1) = objects (wd_fs w)" and m: "ix_entries w1 = ?m" and lv: "live c w1"
      using s1 by (auto simp: scanned_def live_def objects_outside cong: filter_cong)
    have len: "n = length (ix_entries w) - length ?m"
      using sum_length_filter_compl [of "has_blob (wd_fs w)" "ix_entries w"] n by simp
    show ?case
      unfolding x prod.case wp_bind
    proof (rule wp_mono [OF cas_entries_quiet [OF q]], goal_cases)
      case (1 items w2)
      then obtain i hps where w2: "w2 = w1\<lparr>wd_calls := i\<rparr>" and items: "items = map Inr hps"
        and hps: "set hps = objects (wd_fs w)" using o by auto
      have q2: "quiet w2" using q w2 by simp
      show ?case
        unfolding items by (rule wp_mono [OF find_orphans_quiet [OF q2]]) (use lv m len hs hps w2 in auto)
    qed
  qed auto
  then have "wp (scan_and_recover c) ?Q (\<lambda>_ _. False) w"
    by (simp add: scan_and_recover_def wp_bind wp_get index_entries_def case_prod_beta')
  then show ?thesis by (auto simp: wp_def split: prod.splits sum.splits)
qed

section \<open>Concrete runs\<close>

definition demo_store :: "(nat \<Rightarrow> (io_error \<times> nat) option) \<Rightarrow> index_world" where
  "demo_store f =
     (let w = demo_world (records demo_codec [JPut demo_key demo_entry]) [(demo_key, demo_entry)] 1 f in
      w\<lparr>wd_fs := wd_fs w @ [(path_for (replicate 32 0), File 2 [1, 2, 3])]\<rparr>)"

definition demo_gc :: gc_config where
  "demo_gc = \<lparr>max_size_bytes = 2, high_watermark = (1, 0), low_watermark = (1, 1), keep_hardlinked = True\<rparr>"

lemma demo_store_simps:
  "wd_fs (demo_store f) = [(journal_path, File 1 (header_bytes JOURNAL_VERSION @ records demo_codec [JPut demo_key demo_entry])),
     (path_for (replicate 32 0), File 2 [1, 2, 3])]"
  "ix_entries (demo_store f) = [(demo_key, demo_entry)]" "wd_faults (demo_store f) = f"
  by (simp_all add: demo_store_def demo_world_def)

lemma demo_store_wf: "fs_wf (wd_fs (demo_store f))" "bt_wf (ix_entries (demo_store f))"
  unfolding demo_store_simps fs_wf_def im_keys_def bt_wf_def by simp_all

lemma demo_store_live: "live demo_codec (demo_store (\<lambda>_. None))"
proof -
  let ?e = "JPut demo_key demo_entry"
  have "snapshot_holds demo_codec (wd_fs (demo_store (\<lambda>_. None))) []"
    by (simp add: demo_store_simps snapshot_holds_def fs_read_def im_get_def)
  moreover have "journal_holds demo_codec (wd_fs (demo_store (\<lambda>_. None))) [?e] []"
    using demo_codec_ok by (simp add: demo_store_simps journal_holds_def torn_def fs_read_def im_get_def)
  ultimately have "in_sync demo_codec [] [?e] (demo_store (\<lambda>_. None))"
    by (simp add: in_sync_def) (simp add: demo_store_def demo_world_def)
  then show ?thesis by (auto simp: live_def quiet_def demo_store_simps)
qed

lemma demo_encodes: "encodes demo_codec [(demo_key, demo_entry)]"
  using demo_codec_ok by (simp add: encodes_def)

lemma demo_watermarks: "watermark_bytes 2 (1, 0) = 2" "watermark_bytes 2 (1, 1) = 1"
proof -
  have "bit_len 2 = 2" using bit_len.simps [of 2] bit_len.simps [of 1] bit_len.simps [of 0] by simp
  then show "watermark_bytes 2 (1, 0) = 2" "watermark_bytes 2 (1, 1) = 1"
    by (simp_all add: watermark_bytes_def round53_def)
qed

theorem gc_safe_witness:
  "index_get (snd (run_gc demo_codec demo_gc (demo_store (killed_at 2)))) demo_key = Some demo_entry \<or>
   im_get (wd_fs (snd (run_gc demo_codec demo_gc (demo_store (killed_at 2))))) (path_for (ie_hash demo_entry)) = None"
proof -
  let ?w' = "snd (run_gc demo_codec demo_gc (demo_store (killed_at 2)))"
  have h: "honest (demo_store (killed_at 2))" by (simp add: honest_def demo_store_simps killed_at_def)
  have "\<forall>(k, e) \<in> set (ix_entries (demo_store (killed_at 2))). index_get ?w' k = None \<longrightarrow>
      im_get (wd_fs ?w') (path_for (ie_hash e)) = None"
    using gc_safe [OF demo_store_wf h prod.collapse [symmetric]] by blast
  moreover have "index_get ?w' demo_key = None \<or> index_get ?w' demo_key = Some demo_entry"
  proof -
    have "set (ix_entries ?w') \<subseteq> {(demo_key, demo_entry)}"
      using run_gc_inv [OF demo_store_wf h, of demo_gc demo_codec] by (simp add: gc_inv_def demo_store_simps)
    then show ?thesis by (cases "index_get ?w' demo_key") (auto simp: index_get_def dest: map_of_SomeD)
  qed
  ultimately show ?thesis by (auto simp: demo_store_simps)
qed

theorem gc_evicts_lru_witness:
  "\<exists>st w' d r. run_gc demo_codec demo_gc (demo_store (\<lambda>_. None)) = (Inr st, w') \<and> live demo_codec w' \<and>
    [(demo_key, demo_entry)] = d @ r \<and>
    ix_entries w' = left_after True (wd_fs (demo_store (\<lambda>_. None))) [(demo_key, demo_entry)] d \<and>
    (reached_target st \<longleftrightarrow> size_of (ix_entries w') < 1) \<and> (r = [] \<or> reached_target st)"
proof -
  let ?w = "demo_store (\<lambda>_. None)"
  have e: "encodes demo_codec (ix_entries ?w)" by (simp add: demo_store_simps demo_encodes)
  have s: "size_of (ix_entries ?w) = 3" by (simp add: demo_store_simps size_of_def demo_entry_def)
  have h: "watermark_bytes (max_size_bytes demo_gc) (high_watermark demo_gc) \<le> size_of (ix_entries ?w)"
    and l: "1 = watermark_bytes (max_size_bytes demo_gc) (low_watermark demo_gc)"
    using s by (simp_all add: demo_gc_def demo_watermarks [simplified])
  have k: "keep_hardlinked demo_gc = True" by (simp add: demo_gc_def)
  have srt: "sort_key (\<lambda>(_, e). ie_atime_unix e) [(demo_key, demo_entry)] = [(demo_key, demo_entry)]" by simp
  have b: "size_of (ix_entries ?w) < 2 ^ 64" using s by simp
  obtain st w' d r where "run_gc demo_codec demo_gc ?w = (Inr st, w')" "live demo_codec w'"
    "[(demo_key, demo_entry)] = d @ r"
    "ix_entries w' = left_after True (wd_fs ?w) [(demo_key, demo_entry)] d"
    "reached_target st \<longleftrightarrow> size_of (ix_entries w') < 1" "r \<noteq> [] \<longrightarrow> reached_target st"
    using gc_evicts_lru [OF demo_store_live demo_store_wf(1) e b h l, unfolded k demo_store_simps(2) srt]
    by blast
  then show ?thesis by blast
qed

theorem scan_recovers_witness:
  "\<exists>rep w'. scan_and_recover demo_codec (demo_store (\<lambda>_. None)) = (Inr rep, w') \<and> live demo_codec w' \<and>
    ix_entries w' = [(demo_key, demo_entry)] \<and> rr_dangling_entries rep = 0"
proof -
  let ?w = "demo_store (\<lambda>_. None)"
  have e: "encodes demo_codec (ix_entries ?w)" by (simp add: demo_store_simps demo_encodes)
  have b: "has_blob (wd_fs ?w) (demo_key, demo_entry)"
    by (simp add: has_blob_def demo_store_simps fs_read_def im_get_def demo_entry_def)
  from scan_recovers [OF demo_store_live e] show ?thesis
    using b unfolding demo_store_simps(2) by auto
qed

end
