(* ===== verification/CacheFetch.thy ===== *)
theory CacheFetch
  imports RoasteryClient CacheLocks CacheGc
begin

text \<open>
  Downloads (\<open>crates/barista-cache/src/fetch.rs\<close>), their verification against checksum files
  (\<open>checksum.rs\<close>) and the mirror in the layout of a local Maven repository (\<open>m2.rs\<close>).

  The hash functions are parameters. The limit on simultaneous requests is not modelled: the
  requests of one operation are sent in the order in which they are first polled.
\<close>

section \<open>Checksums\<close>

datatype algorithm = Sha1 | Sha256

definition extension :: "algorithm \<Rightarrow> string" where
  "extension a = (case a of Sha1 \<Rightarrow> ''sha1'' | Sha256 \<Rightarrow> ''sha256'')"

definition hex_len :: "algorithm \<Rightarrow> nat" where
  "hex_len a = (case a of Sha1 \<Rightarrow> 40 | Sha256 \<Rightarrow> 64)"

definition algorithm_debug :: "algorithm \<Rightarrow> string" where
  "algorithm_debug a = (case a of Sha1 \<Rightarrow> ''Sha1'' | Sha256 \<Rightarrow> ''Sha256'')"

record checksum_expected =
  ce_algorithm :: algorithm
  ce_hex :: string

definition checksum_display :: "checksum_expected \<Rightarrow> string" where
  "checksum_display x = algorithm_debug (ce_algorithm x) @ ''='' @ ce_hex x"

datatype checksum_error = Format string | Mismatch checksum_expected string

text \<open>\<open>str::lines\<close>: the lines end in a newline, a carriage return before it is dropped, and an
  empty line at the very end is none.\<close>

definition cut_cr :: "string \<Rightarrow> string" where
  "cut_cr l = (if l \<noteq> [] \<and> byte_of (last l) = 13 then butlast l else l)"

definition str_lines :: "string \<Rightarrow> string list" where
  "str_lines s =
     (let pieces = split_on (\<lambda>c. byte_of c = 10) s in
      map cut_cr (butlast pieces) @ (if last pieces = [] then [] else [last pieces]))"

definition first_token :: "string \<Rightarrow> string" where
  "first_token s = takeWhile (\<lambda>c. \<not> is_ws c) (dropWhile is_ws s)"

definition is_ascii_hexdigit :: "char \<Rightarrow> bool" where
  "is_ascii_hexdigit c \<longleftrightarrow>
     (let b = byte_of c in 48 \<le> b \<and> b \<le> 57 \<or> 97 \<le> b \<and> b \<le> 102 \<or> 65 \<le> b \<and> b \<le> 70)"

fun checksum_lines :: "algorithm \<Rightarrow> string list \<Rightarrow> (checksum_expected, checksum_error) result" where
  "checksum_lines a [] = Inl (Format ''sidecar file contained no non-empty lines'')"
| "checksum_lines a (l # ls) =
     (let line = trim l in
      if line = [] \<or> starts_with line ''#'' then checksum_lines a ls
      else (let hex = first_token line in
        if length hex \<noteq> hex_len a
        then Inl (Format (algorithm_debug a @ '' sidecar expected '' @ show_nat (hex_len a) @ '' hex chars, got '' @
                          show_nat (length hex)))
        else if \<not> list_all is_ascii_hexdigit hex then Inl (Format ''sidecar contains non-hex characters'')
        else Inr \<lparr>ce_algorithm = a, ce_hex = lower hex\<rparr>))"

definition checksum_parse :: "algorithm \<Rightarrow> string \<Rightarrow> (checksum_expected, checksum_error) result" where
  "checksum_parse a raw = checksum_lines a (str_lines raw)"

datatype verification = Sha256Verified string | Sha1Verified string | Unverified

definition check_sidecar :: "algorithm \<Rightarrow> string \<Rightarrow> string option \<Rightarrow> (bool, checksum_error) result" where
  "check_sidecar a computed sidecar =
     (case sidecar of
        None \<Rightarrow> Inr False
      | Some raw \<Rightarrow> rbind (checksum_parse a raw) (\<lambda>expected.
          if ce_hex expected \<noteq> computed then Inl (Mismatch expected computed) else Inr True))"

definition verify ::
  "(bytes \<Rightarrow> bytes) \<Rightarrow> (bytes \<Rightarrow> bytes) \<Rightarrow> bytes \<Rightarrow> string option \<Rightarrow> string option \<Rightarrow> (verification, checksum_error) result" where
  "verify sha256 sha1 data sha256_sidecar sha1_sidecar =
     (let computed_sha256 = hex_encode (sha256 data); computed_sha1 = hex_encode (sha1 data) in
      rbind (check_sidecar Sha256 computed_sha256 sha256_sidecar) (\<lambda>sha256_ok.
      rbind (check_sidecar Sha1 computed_sha1 sha1_sidecar) (\<lambda>sha1_ok.
      Inr (if sha256_ok then Sha256Verified computed_sha256
           else if sha1_ok then Sha1Verified computed_sha1 else Unverified))))"

section \<open>Downloads\<close>

record fetch_config =
  fc_max_concurrent_connections :: nat
  fc_request_timeout :: nat
  fc_http2_enabled :: bool
  fc_user_agent :: string
  fc_default_upstream :: string

definition fetch_config_default :: fetch_config where
  "fetch_config_default =
     \<lparr>fc_max_concurrent_connections = 6, fc_request_timeout = 60, fc_http2_enabled = True,
      fc_user_agent = ''barista/0.1.0-alpha.2'', fc_default_upstream = ''https://repo.maven.apache.org/maven2''\<rparr>"

datatype fetch_error =
    FeTransport string http_error
  | FeStatus string nat
  | BodyTooLarge string nat
  | FeTimeout string nat
  | InvalidUrl string

datatype fetch_outcome =
    Fresh (fo_bytes: bytes) (fo_etag: "string option") (fo_last_modified: "string option") (fo_content_type: "string option")
  | NotModified

record conditional_headers =
  ch_etag :: "string option"
  ch_last_modified :: "string option"

definition no_conditions :: conditional_headers where
  "no_conditions = \<lparr>ch_etag = None, ch_last_modified = None\<rparr>"

definition fetch_failed :: "fetch_config \<Rightarrow> string \<Rightarrow> http_error \<Rightarrow> fetch_error" where
  "fetch_failed cfg url e = (case e of HttpTimeout _ \<Rightarrow> FeTimeout url (fc_request_timeout cfg) | _ \<Rightarrow> FeTransport url e)"

definition header_text :: "http_response \<Rightarrow> string \<Rightarrow> string option" where
  "header_text resp name = (case map_of (rp_headers resp) name of Some (Some t) \<Rightarrow> Some t | _ \<Rightarrow> None)"

definition conditional_request :: "'l http_lib_scheme \<Rightarrow> string \<Rightarrow> conditional_headers \<Rightarrow> http_request" where
  "conditional_request lib url cond =
     (let header = (\<lambda>name v. case v of Some t \<Rightarrow> if hl_header_ok lib t then [(name, t)] else [] | None \<Rightarrow> []) in
      \<lparr>rq_method = GET, rq_url = url,
       rq_headers = header ''if-none-match'' (ch_etag cond) @ header ''if-modified-since'' (ch_last_modified cond),
       rq_body = None\<rparr>)"

definition read_response :: "fetch_config \<Rightarrow> string \<Rightarrow> http_response \<Rightarrow> (fetch_outcome, fetch_error) result" where
  "read_response cfg url resp =
     (if rp_status resp = 304 then Inr NotModified
      else if \<not> is_success (rp_status resp) then Inl (FeStatus url (rp_status resp))
      else rbind (map_err (fetch_failed cfg url) (rp_body resp)) (\<lambda>bytes.
        Inr (Fresh bytes (header_text resp ''etag'') (header_text resp ''last-modified'') (header_text resp ''content-type''))))"

definition fetch ::
  "'l http_lib_scheme \<Rightarrow> fetch_config \<Rightarrow> string \<Rightarrow> conditional_headers \<Rightarrow> ('a net_world_scheme, fetch_outcome, fetch_error) io" where
  "fetch lib cfg url cond =
     io_bind (io_map_err (fetch_failed cfg url) (http_send lib (conditional_request lib url cond))) (\<lambda>resp.
     io_lift (read_response cfg url resp))"

definition trim_end_slashes :: "string \<Rightarrow> string" where
  "trim_end_slashes s = rev (dropWhile (\<lambda>c. c = CHR ''/'') (rev s))"

definition slashed :: "string \<Rightarrow> string" where
  "slashed g = map (\<lambda>c. if c = CHR ''.'' then CHR ''/'' else c) g"

definition upstream_base :: "fetch_config \<Rightarrow> string option \<Rightarrow> string" where
  "upstream_base cfg upstream =
     trim_end_slashes (case upstream of Some u \<Rightarrow> u | None \<Rightarrow> fc_default_upstream cfg)"

definition url_for_artifact ::
  "fetch_config \<Rightarrow> string option \<Rightarrow> string \<Rightarrow> string \<Rightarrow> string \<Rightarrow> string option \<Rightarrow> string \<Rightarrow> string" where
  "url_for_artifact cfg upstream grp artifact version classifier ext =
     (let suffix = (case classifier of Some c \<Rightarrow> ''-'' @ c | None \<Rightarrow> []) in
      upstream_base cfg upstream @ ''/'' @ slashed grp @ ''/'' @ artifact @ ''/'' @ version @ ''/'' @
      artifact @ ''-'' @ version @ suffix @ ''.'' @ ext)"

definition url_for_metadata :: "fetch_config \<Rightarrow> string option \<Rightarrow> string \<Rightarrow> string \<Rightarrow> string" where
  "url_for_metadata cfg upstream grp artifact =
     upstream_base cfg upstream @ ''/'' @ slashed grp @ ''/'' @ artifact @ ''/maven-metadata.xml''"

definition url_for_sidecar :: "string \<Rightarrow> string \<Rightarrow> string" where
  "url_for_sidecar artifact_url algorithm = artifact_url @ ''.'' @ algorithm"

section \<open>The Maven layout\<close>

datatype mirror_error = MiIo string io_error | CasMiss string

text \<open>\<open>Path::join\<close>: an absolute path replaces what it is joined to.\<close>

definition path_join :: "string \<Rightarrow> string \<Rightarrow> string" where
  "path_join p q =
     (if starts_with q ''/'' then q
      else if p = [] \<or> last p = CHR ''/'' then p @ q else p @ ''/'' @ q)"

definition m2_path :: "string \<Rightarrow> coords \<Rightarrow> string \<Rightarrow> string option \<Rightarrow> string \<Rightarrow> string" where
  "m2_path m2_root c version classifier ext =
     (let filename = (case classifier of
            Some cl \<Rightarrow> co_artifact c @ ''-'' @ version @ ''-'' @ cl @ ''.'' @ ext
          | None \<Rightarrow> co_artifact c @ ''-'' @ version @ ''.'' @ ext) in
      path_join (path_join (path_join (path_join m2_root (slashed (co_group c))) (co_artifact c)) version) filename)"

definition sys_ino :: "string \<Rightarrow> ('a world_scheme, nat, io_error) io" where
  "sys_ino p = sys_pure (\<lambda>fs. case im_get fs p of None \<Rightarrow> Inl io_error.NotFound | Some f \<Rightarrow> Inr (f_ino f))"

definition sys_copy :: "string \<Rightarrow> string \<Rightarrow> ('a world_scheme, unit, io_error) io" where
  "sys_copy p q =
     io_bind (sys_read_file p) (\<lambda>d. io_bind (sys_open_truncate q) (\<lambda>_. sys_write q d))"

definition cross_device_error :: "io_error \<Rightarrow> bool" where
  "cross_device_error e \<longleftrightarrow> e = CrossDevice"

definition link_or_copy :: "string \<Rightarrow> string \<Rightarrow> ('a world_scheme, string, mirror_error) io" where
  "link_or_copy cas_path dest =
     io_bind (io_try (sys_link cas_path dest)) (\<lambda>r.
     case r of
       Inr _ \<Rightarrow> io_return dest
     | Inl e \<Rightarrow> if cross_device_error e
               then io_bind (io_map_err (MiIo dest) (sys_copy cas_path dest)) (\<lambda>_. io_return dest)
               else io_fail (MiIo dest e))"

definition materialize ::
  "content_hash \<Rightarrow> string \<Rightarrow> coords \<Rightarrow> string \<Rightarrow> string option \<Rightarrow> string \<Rightarrow> ('a world_scheme, string, mirror_error) io" where
  "materialize h m2_root c version classifier ext =
     (let cas_path = path_for h; dest = m2_path m2_root c version classifier ext in
      io_bind (sys_exists cas_path) (\<lambda>present.
      if \<not> present then io_fail (CasMiss (to_hex h))
      else io_bind (io_map_err (MiIo (path_parent dest)) sys_nop) (\<lambda>_.
           io_bind (io_try (sys_ino dest)) (\<lambda>md.
           case md of
             Inl _ \<Rightarrow> link_or_copy cas_path dest
           | Inr ino \<Rightarrow>
               io_bind (io_try (sys_ino cas_path)) (\<lambda>src_md.
               if src_md = Inr ino then io_return dest
               else io_bind (io_try (sys_unlink dest)) (\<lambda>_. link_or_copy cas_path dest))))))"

section \<open>What verification means\<close>

text \<open>A sidecar that is there names the digest of the data.\<close>

definition confirms :: "algorithm \<Rightarrow> string option \<Rightarrow> string \<Rightarrow> bool" where
  "confirms a sidecar hex \<longleftrightarrow>
     (case sidecar of None \<Rightarrow> True | Some raw \<Rightarrow> checksum_parse a raw = Inr \<lparr>ce_algorithm = a, ce_hex = hex\<rparr>)"

lemma checksum_lines_algorithm: "checksum_lines a ls = Inr x \<Longrightarrow> ce_algorithm x = a"
  by (induction ls) (auto simp: Let_def split: if_splits)

lemma check_sidecar_iff:
  "check_sidecar a computed sidecar = Inr b \<longleftrightarrow> confirms a sidecar computed \<and> (b \<longleftrightarrow> sidecar \<noteq> None)"
proof (cases sidecar)
  case (Some raw)
  show ?thesis
  proof (cases "checksum_parse a raw")
    case (Inr x)
    then have "ce_algorithm x = a" by (auto simp: checksum_parse_def dest: checksum_lines_algorithm)
    then show ?thesis using Some Inr by (cases x) (auto simp: check_sidecar_def confirms_def)
  qed (simp add: Some check_sidecar_def confirms_def)
qed (auto simp: check_sidecar_def confirms_def)

lemma verify_Inr_iff:
  "verify sha256 sha1 data s256 s1 = Inr v \<longleftrightarrow>
     confirms Sha256 s256 (hex_encode (sha256 data)) \<and> confirms Sha1 s1 (hex_encode (sha1 data)) \<and>
     v = (if s256 \<noteq> None then Sha256Verified (hex_encode (sha256 data))
          else if s1 \<noteq> None then Sha1Verified (hex_encode (sha1 data)) else Unverified)"
  by (auto simp: verify_def Let_def rbind_Inr_iff check_sidecar_iff)

section \<open>Checksum files\<close>

lemma newline_iff: "byte_of c = 10 \<longleftrightarrow> c = CHR 0x0A"
  using byte_of_inj [of c "CHR 0x0A"] by (simp add: byte_of_def del: byte_of_inj)

lemma split_newline:
  "(\<forall>c \<in> set s. byte_of c \<noteq> 10) \<Longrightarrow> split_on (\<lambda>c. byte_of c = 10) (s @ CHR 0x0A # t) = s # split_on (\<lambda>c. byte_of c = 10) t"
  by (induction s) (auto simp: byte_of_def)

lemma hexdigit_facts:
  assumes "is_ascii_hexdigit c"
  shows "\<not> is_ws c" "byte_of c \<noteq> 10" "byte_of c \<noteq> 13" "c \<noteq> CHR ''#''"
  using assms by (auto simp: is_ascii_hexdigit_def is_ws_def byte_of_def)

lemma trim_front:
  assumes "list_all is_ascii_hexdigit hex" "hex \<noteq> []"
  shows "\<exists>t. trim (hex @ s) = hex @ t \<and> (s = [] \<or> is_ws (hd s) \<longrightarrow> t = [] \<or> is_ws (hd t))"
proof -
  have "trim_start (hex @ s) = hex @ s"
    using assms hexdigit_facts(1) by (cases hex) (auto simp: trim_start_def)
  moreover have "trim_end (hex @ s) = hex @ trim_end s"
  proof (cases "trim_end s = []")
    case True
    then have "\<forall>c \<in> set s. is_ws c" by (auto simp: trim_end_def dropWhile_eq_Nil_conv)
    then have "trim_end (hex @ s) = trim_end hex" by (simp add: trim_end_def dropWhile_append)
    moreover have "trim_end hex = hex"
      using assms hexdigit_facts(1) by (cases hex rule: rev_cases) (auto simp: trim_end_def)
    ultimately show ?thesis using True by simp
  next
    case False
    then show ?thesis by (auto simp: trim_end_def dropWhile_append dropWhile_eq_Nil_conv)
  qed
  moreover have "trim_end s = [] \<or> is_ws (hd (trim_end s))" if "s = [] \<or> is_ws (hd s)"
  proof -
    have "\<exists>r. s = trim_end s @ r"
      using takeWhile_dropWhile_id [of is_ws "rev s"] unfolding trim_end_def by (metis rev_append rev_rev_ident)
    then show ?thesis using that by (metis append_is_Nil_conv hd_append2)
  qed
  ultimately show ?thesis by (auto simp: trim_def)
qed

lemma str_lines_newline:
  "(\<forall>c \<in> set l. byte_of c \<noteq> 10) \<Longrightarrow> str_lines (l @ CHR 0x0A # t) = cut_cr l # str_lines t"
  by (simp add: str_lines_def split_newline Let_def)

lemma str_lines_single: "(\<forall>c \<in> set s. byte_of c \<noteq> 10) \<Longrightarrow> s \<noteq> [] \<Longrightarrow> str_lines s = [s]"
proof -
  have "(\<forall>c \<in> set s. byte_of c \<noteq> 10) \<Longrightarrow> split_on (\<lambda>c. byte_of c = 10) s = [s]"
    by (induction s) auto
  then show "(\<forall>c \<in> set s. byte_of c \<noteq> 10) \<Longrightarrow> s \<noteq> [] \<Longrightarrow> str_lines s = [s]"
    by (simp add: str_lines_def)
qed

lemma digest_line:
  assumes "length hex = hex_len a" "list_all is_ascii_hexdigit hex" "rest = [] \<or> is_ws (hd rest)"
  shows "checksum_lines a ((hex @ rest) # ls) = Inr \<lparr>ce_algorithm = a, ce_hex = lower hex\<rparr>"
proof -
  have ne: "hex \<noteq> []" using assms(1) by (auto simp: hex_len_def split: algorithm.splits)
  obtain t where t: "trim (hex @ rest) = hex @ t" "t = [] \<or> is_ws (hd t)"
    using trim_front [OF assms(2) ne, of rest] assms(3) by blast
  have "takeWhile (\<lambda>c. \<not> is_ws c) (hex @ t) = hex"
    using assms(2) t(2) hexdigit_facts(1) by (cases t) (auto simp: list_all_iff takeWhile_append)
  then have "first_token (hex @ t) = hex"
    using assms(2) ne hexdigit_facts(1) by (cases hex) (auto simp: first_token_def)
  moreover have "\<not> starts_with (hex @ t) ''#''"
    using assms(2) ne hexdigit_facts(4) by (cases hex) (auto simp: starts_with_def)
  ultimately show ?thesis using t ne assms(1,2) by (simp add: Let_def)
qed

lemma comment_line:
  assumes "starts_with l ''#''"
  shows "checksum_lines a (cut_cr l # ls) = checksum_lines a ls"
proof -
  obtain t where l: "l = CHR ''#'' # t" using assms by (cases l) (auto simp: starts_with_def)
  have "cut_cr l = CHR ''#'' # (if t \<noteq> [] \<and> byte_of (last t) = 13 then butlast t else t)"
    using l by (simp add: cut_cr_def byte_of_def)
  then obtain t' where c: "cut_cr l = CHR ''#'' # t'" by blast
  moreover have "\<exists>u. trim (CHR ''#'' # t') = CHR ''#'' # u"
  proof -
    have h: "\<not> is_ws (CHR ''#'')" by (simp add: is_ws_def byte_of_def)
    then have "trim (CHR ''#'' # t') = CHR ''#'' # rev (dropWhile is_ws (rev t'))"
      by (auto simp: trim_def trim_start_def trim_end_def dropWhile_append dropWhile_eq_Nil_conv)
    then show ?thesis by blast
  qed
  ultimately show ?thesis by (auto simp: starts_with_def Let_def)
qed

text \<open>A checksum file in any of the forms repositories publish (the digest in either case,
  alone or followed by a blank and the file's name, with or without a line end, behind comment
  lines) is read as the digest in lower case.\<close>

lemma sidecar_parsed:
  assumes "length hex = hex_len a" "list_all is_ascii_hexdigit hex" "rest = [] \<or> is_ws (hd rest)"
    "list_all (\<lambda>l. list_all (\<lambda>c. byte_of c \<noteq> 10) l \<and> starts_with l ''#'') comments"
  shows "checksum_parse a (concat (map (\<lambda>l. l @ [CHR 0x0A]) comments) @ hex @ rest) =
    Inr \<lparr>ce_algorithm = a, ce_hex = lower hex\<rparr>"
  using assms(4)
proof (induction comments)
  case Nil
  have ne: "hex \<noteq> []" using assms(1) by (auto simp: hex_len_def split: algorithm.splits)
  have hex: "\<forall>c \<in> set hex. byte_of c \<noteq> 10" using assms(2) hexdigit_facts(2) by (auto simp: list_all_iff)
  show ?case
  proof (cases "CHR 0x0A \<in> set rest")
    case False
    then have "\<forall>c \<in> set (hex @ rest). byte_of c \<noteq> 10" using hex by (auto simp: newline_iff)
    then show ?thesis
      using ne digest_line [OF assms(1-3), of "[]"] str_lines_single [of "hex @ rest"]
      by (simp add: checksum_parse_def del: checksum_lines.simps)
  next
    case True
    then obtain r1 r2 where r: "rest = r1 @ CHR 0x0A # r2" "CHR 0x0A \<notin> set r1" by (meson split_list_first)
    then have nl: "\<forall>c \<in> set (hex @ r1). byte_of c \<noteq> 10" using hex by (auto simp: newline_iff)
    have "r1 = [] \<or> is_ws (hd r1)" using assms(3) r by (cases r1) auto
    then have "\<exists>r. cut_cr (hex @ r1) = hex @ r \<and> (r = [] \<or> is_ws (hd r))"
      using ne hexdigit_facts(3) [of "last hex"] assms(2)
      by (cases r1 rule: rev_cases) (auto simp: cut_cr_def list_all_iff butlast_append hd_append split: if_splits)
    then obtain r where "cut_cr (hex @ r1) = hex @ r" "r = [] \<or> is_ws (hd r)" by blast
    then show ?thesis
      using r str_lines_newline [OF nl, of r2] digest_line [OF assms(1,2), of r "str_lines r2"]
      by (simp add: checksum_parse_def del: checksum_lines.simps)
  qed
next
  case (Cons l comments)
  then show ?case
    by (simp add: checksum_parse_def str_lines_newline list_all_iff comment_line del: checksum_lines.simps)
qed

section \<open>Mirrored blobs\<close>

text \<open>What mirroring changes: one file outside the index.\<close>

definition mirrored :: "string \<Rightarrow> 'a index_world_scheme \<Rightarrow> 'a index_world_scheme \<Rightarrow> bool" where
  "mirrored q w w' \<longleftrightarrow> (\<forall>r. r \<noteq> q \<longrightarrow> im_get (wd_fs w') r = im_get (wd_fs w) r) \<and> fs_wf (wd_fs w') \<and>
     wd_faults w' = wd_faults w \<and> ix_entries w' = ix_entries w"

definition one_device :: "'a world_scheme \<Rightarrow> bool" where
  "one_device w \<longleftrightarrow> (\<forall>n k. wd_faults w n \<noteq> Some (CrossDevice, k))"

lemma fs_wf_link:
  assumes "fs_wf fs" "im_get fs p = Some f" "\<not> index_file p" "\<not> index_file q"
  shows "fs_wf (im_insert q f fs)"
proof -
  have m: "(p, f) \<in> set fs" using assms(2) by (auto simp: im_get_def dest: map_of_SomeD)
  have "distinct (im_keys (im_insert q f fs))" using assms(1) by (simp add: fs_wf_def im_wf_insert)
  then show ?thesis
    using set_im_insert [of q f fs] assms m unfolding fs_wf_def by blast
qed

lemma link_or_copy_wp:
  assumes "im_get (wd_fs w) p = Some f" "fs_wf (wd_fs w)" "one_device w" "\<not> index_file p" "\<not> index_file q" "p \<noteq> q"
  shows "wp (link_or_copy p q) (\<lambda>d w'. d = q \<and> im_get (wd_fs w') q = Some f \<and> mirrored q w w') (\<lambda>_ _. True) w"
  using assms fs_wf_link [of "wd_fs w" p f q]
  by (auto simp: link_or_copy_def sys_link_def wp_simps mirrored_def one_device_def cross_device_error_def im.get_put
      split: option.split)

definition mirror_done :: "content_hash \<Rightarrow> string \<Rightarrow> 'a index_world_scheme \<Rightarrow> string \<Rightarrow> 'a index_world_scheme \<Rightarrow> bool" where
  "mirror_done h dest w d w' \<longleftrightarrow> d = dest \<and> mirrored dest w w' \<and>
     (\<exists>f. im_get (wd_fs w) (path_for h) = Some f \<and> (\<exists>g. im_get (wd_fs w') dest = Some g \<and> f_ino g = f_ino f))"

lemma link_mirrored:
  assumes "mirrored dest w w1" "im_get (wd_fs w) (path_for h) = Some f" "one_device w"
    "\<not> index_file dest" "dest \<noteq> path_for h"
  shows "wp (link_or_copy (path_for h) dest) (mirror_done h dest w) (\<lambda>_ _. True) w1"
proof -
  have "im_get (wd_fs w1) (path_for h) = Some f" "fs_wf (wd_fs w1)" "one_device w1"
    using assms by (auto simp: mirrored_def one_device_def)
  from link_or_copy_wp [OF this _ assms(4)] show ?thesis
    by (rule wp_mono) (use assms in \<open>auto simp: mirror_done_def mirrored_def\<close>)
qed

text \<open>The mirror is outside the cache.\<close>

lemma materialize_wp:
  fixes w :: "'a index_world_scheme"
  assumes "fs_wf (wd_fs w)" "one_device w" "\<not> index_file dest" "dest \<noteq> path_for h"
    "dest = m2_path root c version classifier ext"
  shows "wp (materialize h root c version classifier ext) (mirror_done h dest w) (\<lambda>_ _. True) w"
proof (cases "im_get (wd_fs w) (path_for h)")
  case None
  then show ?thesis
    by (simp add: materialize_def Let_def sys_exists_def sys_len_def sys_pure_def wp_simps fs_read_def split: option.split)
next
  case (Some f)
  note link = link_mirrored [OF _ Some assms(2-4)]
  show ?thesis
    using Some assms(1)
    by (auto simp: assms(5) [symmetric] materialize_def Let_def sys_exists_def sys_len_def sys_nop_def sys_ino_def sys_unlink_def sys_pure_def
        wp_simps fs_read_def mirror_done_def [of h dest w] mirrored_def
        split: option.split intro!: link)
qed

lemma nlink_two:
  assumes "im_get fs p = Some f" "im_get fs q = Some g" "f_ino g = f_ino f" "p \<noteq> q"
  shows "2 \<le> fs_nlink fs p"
proof -
  have "{(p, f), (q, g)} \<subseteq> set (filter (\<lambda>(_, x). f_ino x = f_ino f) fs)"
    using assms by (auto simp: im_get_def dest: map_of_SomeD)
  then have "card {(p, f), (q, g)} \<le> card (set (filter (\<lambda>(_, x). f_ino x = f_ino f) fs))"
    by (rule card_mono [rotated]) simp
  also have "\<dots> \<le> length (filter (\<lambda>(_, x). f_ino x = f_ino f) fs)" by (rule card_length)
  finally show ?thesis using assms by (simp add: fs_nlink_def)
qed

lemma gc_keeps_linked:
  assumes "fs_wf (wd_fs w)" "bt_wf (ix_entries w)" "honest w" "keep_hardlinked cfg"
    "\<not> index_file q" "2 \<le> fs_nlink (wd_fs w) q"
  shows "im_get (wd_fs (snd (run_gc codec cfg w))) q = im_get (wd_fs w) q"
  using run_gc_inv [OF assms(1-3), of cfg codec] assms(4-6) unfolding gc_inv_def
  by (metis not_less)

lemma gc_keeps_row:
  assumes "fs_wf (wd_fs w)" "bt_wf (ix_entries w)" "honest w" "(k, e) \<in> set (ix_entries w)"
    "im_get (wd_fs (snd (run_gc codec cfg w))) (path_for (ie_hash e)) \<noteq> None"
  shows "index_get (snd (run_gc codec cfg w)) k = Some e"
proof -
  let ?w = "snd (run_gc codec cfg w)"
  have inv: "gc_inv (keep_hardlinked cfg) w ?w" by (rule run_gc_inv [OF assms(1-3)])
  have "index_get ?w k \<noteq> None" using inv assms(4,5) by (auto simp: gc_inv_def index_get_def)
  then obtain e' where e': "index_get ?w k = Some e'" by blast
  then have "(k, e') \<in> set (ix_entries w)" using inv by (auto simp: gc_inv_def index_get_def dest: map_of_SomeD)
  with assms(2,4) have "e' = e" by (metis bt_wf_def map_of_is_SomeI option.inject strict_sorted_iff)
  with e' show ?thesis by simp
qed

text \<open>C35. An artifact that was mirrored into the local Maven repository stays in the cache, blob and
  row: when the mirror lies on the same file system as the cache and is not one of the cache's own
  files, it is a second name of the blob's file, and a collector that is configured to keep
  hard-linked blobs, interrupted or not, leaves the blob, the mirror and every row of the blob.\<close>

theorem mirrored_blob_survives_gc:
  fixes w :: "'a index_world_scheme"
  assumes "fs_wf (wd_fs w)" "bt_wf (ix_entries w)" "honest w" "one_device w"
    "dest = m2_path root c version classifier ext" "\<not> index_file dest" "dest \<noteq> path_for h"
    "materialize h root c version classifier ext w = (Inr d, w1)"
    "run_gc codec cfg w1 = (res, w2)" "keep_hardlinked cfg"
  shows "im_get (wd_fs w2) (path_for h) = im_get (wd_fs w) (path_for h) \<and> im_get (wd_fs w2) (path_for h) \<noteq> None \<and>
    (\<exists>f g. im_get (wd_fs w) (path_for h) = Some f \<and> im_get (wd_fs w2) dest = Some g \<and> f_ino g = f_ino f) \<and>
    (\<forall>(k, e) \<in> set (ix_entries w). ie_hash e = h \<longrightarrow> index_get w2 k = Some e)"
proof -
  obtain f g where m: "mirrored dest w w1" "im_get (wd_fs w) (path_for h) = Some f"
    "im_get (wd_fs w1) dest = Some g" "f_ino g = f_ino f"
    using wp_run [OF materialize_wp [OF assms(1,4,6,7,5)] assms(8)] by (auto simp: mirror_done_def)
  then have b: "im_get (wd_fs w1) (path_for h) = Some f" using assms(7) by (simp add: mirrored_def)
  have inv: "fs_wf (wd_fs w1)" "bt_wf (ix_entries w1)" "honest w1"
    using m(1) assms(2,3) by (auto simp: mirrored_def honest_def)
  have "2 \<le> fs_nlink (wd_fs w1) (path_for h)" "2 \<le> fs_nlink (wd_fs w1) dest"
    using nlink_two [OF b m(3,4)] nlink_two [OF m(3) b] m(4) assms(7) by auto
  then have "im_get (wd_fs w2) (path_for h) = Some f" "im_get (wd_fs w2) dest = Some g"
    using gc_keeps_linked [OF inv assms(10), of _ codec] assms(6,9) b m(3) by auto
  moreover from this(1) have "index_get w2 k = Some e" if "(k, e) \<in> set (ix_entries w)" "ie_hash e = h" for k e
    using gc_keeps_row [OF inv, of k e codec cfg] that m(1) assms(9) by (simp add: mirrored_def)
  ultimately show ?thesis using m by auto
qed

definition demo_dest :: string where
  "demo_dest = m2_path ''/home/u/.m2'' (Coords ''org.x'' ''a'') ''1'' None ''jar''"

lemma demo_dest: "demo_dest = ''/home/u/.m2/org/x/a/1/a-1.jar''" "\<not> index_file demo_dest" "demo_dest \<noteq> path_for h"
  by (simp_all add: demo_dest_def m2_path_def path_join_def starts_with_def slashed_def index_file_def path_for_def
      OBJECTS_DIR_def INDEX_DIR_def Let_def)

theorem mirrored_blob_survives_gc_witness:
  "\<exists>w1. materialize (replicate 32 0) ''/home/u/.m2'' (Coords ''org.x'' ''a'') ''1'' None ''jar'' (demo_store (\<lambda>_. None)) =
      (Inr demo_dest, w1) \<and>
    im_get (wd_fs (snd (run_gc demo_codec demo_gc w1))) (path_for (replicate 32 0)) = Some (File 2 [1, 2, 3]) \<and>
    index_get (snd (run_gc demo_codec demo_gc w1)) demo_key = Some demo_entry"
proof -
  let ?w = "demo_store (\<lambda>_. None)" and ?h = "replicate 32 0 :: content_hash"
  have b: "im_get (wd_fs ?w) (path_for ?h) = Some (File 2 [1, 2, 3])"
    by (simp add: demo_store_simps im_get_def object_path_distinct(1) [symmetric] del: object_path_distinct)
  have n: "im_get (wd_fs ?w) demo_dest = None"
    using demo_dest(3) demo_dest(2) index_paths by (auto simp: demo_store_simps im_get_def)
  have "wp (materialize ?h ''/home/u/.m2'' (Coords ''org.x'' ''a'') ''1'' None ''jar'') (\<lambda>d _. d = demo_dest) (\<lambda>_ _. False) ?w"
    using b n unfolding materialize_def demo_dest_def [symmetric] Let_def
    by (simp add: sys_exists_def sys_len_def sys_nop_def sys_ino_def sys_pure_def wp_simps fs_read_def demo_store_simps(3)
        link_or_copy_def sys_link_def)
  then obtain w1 where m: "materialize ?h ''/home/u/.m2'' (Coords ''org.x'' ''a'') ''1'' None ''jar'' ?w = (Inr demo_dest, w1)"
    by (auto simp: wp_def split: prod.splits sum.splits)
  have "honest ?w" "one_device ?w" by (simp_all add: honest_def one_device_def demo_store_simps)
  from mirrored_blob_survives_gc [OF demo_store_wf this demo_dest_def demo_dest(2,3) m prod.collapse [symmetric]]
  show ?thesis using m b by (auto simp: demo_gc_def demo_store_simps demo_entry_def)
qed

end
