(* ===== verification/Version.thy ===== *)
theory Version
  imports Prelude
begin

text \<open>
  Maven version parsing and ordering (\<open>crates/barista-version/src/lib.rs\<close>), a port of
  Maven's \<open>ComparableVersion\<close>.

  The tokenizer's \<open>start\<close>/\<open>i\<close> indices are the current token \<open>tok\<close> (the slice
  \<open>version[start..i]\<close>) and the unread rest of the input; its stack of partially built lists is
  kept with the deepest list at the head. \<open>normalize\<close>'s back-to-front loop with removals is a
  right fold. The case folding is ASCII (exact for ASCII version strings).
\<close>

section \<open>Qualifiers\<close>

definition QUALIFIERS :: "string list" where
  "QUALIFIERS = [''alpha'', ''beta'', ''milestone'', ''rc'', ''snapshot'', '''', ''sp'']"

definition RELEASE_QUALIFIERS :: "string list" where
  "RELEASE_QUALIFIERS = [''ga'', ''final'', ''release'']"

definition RELEASE_INDEX :: string where
  "RELEASE_INDEX = ''5''"

definition qual_alias :: "string \<Rightarrow> string" where
  "qual_alias q = (if q = ''cr'' then ''rc'' else q)"

fun position :: "'a \<Rightarrow> 'a list \<Rightarrow> nat option" where
  "position x [] = None"
| "position x (y # ys) = (if y = x then Some 0 else map_option Suc (position x ys))"

definition comparable_qualifier :: "string \<Rightarrow> string" where
  "comparable_qualifier q =
     (if q \<in> set RELEASE_QUALIFIERS then RELEASE_INDEX
      else case position q QUALIFIERS of
        Some idx \<Rightarrow> show_nat idx
      | None \<Rightarrow> show_nat (length QUALIFIERS) @ ''-'' @ q)"

section \<open>Items\<close>

datatype item =
    Integer string
  | Str string
  | Combination item item
  | IList "item list"

fun is_null :: "item \<Rightarrow> bool" where
  "is_null (Integer s) = (s = ''0'')"
| "is_null (Str s) = (s = [])"
| "is_null (Combination _ _) = False"
| "is_null (IList v) = (v = [])"

definition strip_leading_zeros :: "string \<Rightarrow> string" where
  "strip_leading_zeros buf =
     (if buf = [] then ''0''
      else let trimmed = dropWhile (\<lambda>c. c = CHR ''0'') buf in
        if trimmed = [] then ''0'' else trimmed)"

definition item_integer :: "string \<Rightarrow> item" where
  "item_integer buf = Integer (strip_leading_zeros buf)"

definition item_string :: "string \<Rightarrow> bool \<Rightarrow> item" where
  "item_string value1 followed_by_digit =
     (let v = (if followed_by_digit \<and> length value1 = 1
               then (if value1 = ''a'' then ''alpha''
                     else if value1 = ''b'' then ''beta''
                     else if value1 = ''m'' then ''milestone''
                     else value1)
               else value1)
      in Str (qual_alias v))"

definition item_combination :: "string \<Rightarrow> item" where
  "item_combination value1 =
     (let cleaned = filter (\<lambda>c. c \<noteq> CHR ''-'') value1;
          letters = takeWhile (\<lambda>c. \<not> is_ascii_digit c) cleaned;
          digits = dropWhile (\<lambda>c. \<not> is_ascii_digit c) cleaned
      in Combination (item_string letters True) (item_integer digits))"

definition parse_item :: "bool \<Rightarrow> bool \<Rightarrow> string \<Rightarrow> item" where
  "parse_item is_combination is_digit buf =
     (if is_combination then item_combination (filter (\<lambda>c. c \<noteq> CHR ''-'') buf)
      else if is_digit then item_integer buf
      else item_string buf False)"

section \<open>Comparison\<close>

definition cmp_numeric :: "string \<Rightarrow> string \<Rightarrow> ordering" where
  "cmp_numeric a b = then_with (cmp_of (length a) (length b)) (cmp_of a b)"

text \<open>\<open>compare_to(None)\<close>: the item against a missing one.\<close>

fun compare_pad :: "item \<Rightarrow> ordering"
  and compare_pad_list :: "item list \<Rightarrow> ordering" where
  "compare_pad (Integer s) = (if s = ''0'' then Equal else Greater)"
| "compare_pad (Str s) = cmp_of (comparable_qualifier s) RELEASE_INDEX"
| "compare_pad (Combination sp _) = compare_pad sp"
| "compare_pad (IList v) = compare_pad_list v"
| "compare_pad_list [] = Equal"
| "compare_pad_list (it # its) =
     (let r = compare_pad it in if r \<noteq> Equal then r else compare_pad_list its)"

text \<open>\<open>compare_to(Some(other))\<close> and \<open>compare_lists\<close>.\<close>

fun compare_item :: "item \<Rightarrow> item \<Rightarrow> ordering"
  and compare_lists :: "item list \<Rightarrow> item list \<Rightarrow> ordering" where
  "compare_item (Integer a) (Integer b) = cmp_numeric a b"
| "compare_item (Integer a) (Str _) = Greater"
| "compare_item (Integer a) (Combination _ _) = Greater"
| "compare_item (Integer a) (IList _) = Greater"
| "compare_item (Str a) (Integer _) = Less"
| "compare_item (Str a) (Str b) = cmp_of (comparable_qualifier a) (comparable_qualifier b)"
| "compare_item (Str a) (Combination other_str _) =
     (let result = compare_item (Str a) other_str in if result = Equal then Less else result)"
| "compare_item (Str a) (IList _) = Less"
| "compare_item (Combination sp dp) (Integer _) = Less"
| "compare_item (Combination sp dp) (Str b) =
     (let result = compare_item sp (Str b) in if result = Equal then Greater else result)"
| "compare_item (Combination sp dp) (IList _) = Less"
| "compare_item (Combination sp dp) (Combination other_str other_digit) =
     (let result = compare_item sp other_str
      in if result = Equal then compare_item dp other_digit else result)"
| "compare_item (IList items) (Integer _) = Less"
| "compare_item (IList items) (Str _) = Greater"
| "compare_item (IList items) (Combination _ _) = Greater"
| "compare_item (IList items) (IList other_items) = compare_lists items other_items"
| "compare_lists [] [] = Equal"
| "compare_lists (l # ls) [] =
     (let result = compare_pad l in if result \<noteq> Equal then result else compare_lists ls [])"
| "compare_lists [] (r # rs) =
     (let result = reverse_ord (compare_pad r)
      in if result \<noteq> Equal then result else compare_lists [] rs)"
| "compare_lists (l # ls) (r # rs) =
     (let result = compare_item l r in if result \<noteq> Equal then result else compare_lists ls rs)"

definition compare_to :: "item \<Rightarrow> item option \<Rightarrow> ordering" where
  "compare_to it other = (case other of None \<Rightarrow> compare_pad it | Some y \<Rightarrow> compare_item it y)"

section \<open>Normalization\<close>

definition opens_with_qualifier :: "item list \<Rightarrow> bool" where
  "opens_with_qualifier inner =
     (case inner of Combination _ _ # _ \<Rightarrow> True | Str _ # _ \<Rightarrow> True | _ \<Rightarrow> False)"

text \<open>Whether \<open>it\<close> is dropped when the items behind it have become \<open>rest\<close>.\<close>

definition norm_drop :: "item \<Rightarrow> item list \<Rightarrow> bool" where
  "norm_drop it rest =
     (is_null it \<and>
      (case rest of
         [] \<Rightarrow> True
       | Str _ # _ \<Rightarrow> True
       | IList inner # _ \<Rightarrow> opens_with_qualifier inner
       | _ \<Rightarrow> False))"

definition norm_step :: "item \<Rightarrow> item list \<Rightarrow> item list" where
  "norm_step it rest = (if norm_drop it rest then rest else it # rest)"

fun norm_item :: "item \<Rightarrow> item" where
  "norm_item (IList inner) = IList (foldr norm_step (map norm_item inner) [])"
| "norm_item (Integer s) = Integer s"
| "norm_item (Str s) = Str s"
| "norm_item (Combination a b) = Combination a b"

definition normalize :: "item list \<Rightarrow> item list" where
  "normalize items = foldr norm_step (map norm_item items) []"

section \<open>Tokenizer\<close>

definition utf8_step :: "char \<Rightarrow> nat" where
  "utf8_step b =
     (if byte_of b < 0x80 then 1
      else if byte_of b < 0xC0 then 1
      else if byte_of b < 0xE0 then 2
      else if byte_of b < 0xF0 then 3
      else 4)"

record tok_state =
  stack :: "item list list"
  tk_is_digit :: bool
  tk_is_combination :: bool
  tok :: string

definition top_list :: "item list list \<Rightarrow> item list" where
  "top_list st = (case st of [] \<Rightarrow> [] | tp # _ \<Rightarrow> tp)"

definition push_item :: "item list list \<Rightarrow> item \<Rightarrow> item list list" where
  "push_item st it = (case st of [] \<Rightarrow> [] | tp # rest \<Rightarrow> (tp @ [it]) # rest)"

text \<open>\<open>if !top_list(&stack).is_empty() { stack.push(Vec::new()); }\<close>\<close>

definition open_list :: "item list list \<Rightarrow> item list list" where
  "open_list st = (if top_list st \<noteq> [] then [] # st else st)"

definition flush :: "tok_state \<Rightarrow> item list list" where
  "flush s = push_item (stack s)
     (if tok s = [] then Integer ''0'' else parse_item (tk_is_combination s) (tk_is_digit s) (tok s))"

definition step_dot :: "tok_state \<Rightarrow> tok_state" where
  "step_dot s = s\<lparr>stack := flush s, tk_is_combination := False, tok := []\<rparr>"

definition step_dash :: "tok_state \<Rightarrow> string \<Rightarrow> tok_state" where
  "step_dash s rest =
     (if tok s \<noteq> [] \<and> \<not> tk_is_digit s \<and> rest \<noteq> [] \<and> is_ascii_digit (hd rest)
      then s\<lparr>tk_is_combination := True, tok := tok s @ ''-''\<rparr>
      else s\<lparr>stack := open_list (flush s), tk_is_combination := False, tok := []\<rparr>)"

definition step_digit :: "tok_state \<Rightarrow> char \<Rightarrow> tok_state" where
  "step_digit s c =
     (let s' = (if \<not> tk_is_digit s \<and> tok s \<noteq> []
                then s\<lparr>tk_is_combination := True, stack := open_list (stack s)\<rparr> else s)
      in s'\<lparr>tk_is_digit := True, tok := tok s @ [c]\<rparr>)"

definition step_other :: "tok_state \<Rightarrow> string \<Rightarrow> tok_state" where
  "step_other s bytes =
     (let s' = (if tk_is_digit s \<and> tok s \<noteq> []
                then s\<lparr>stack := [] # push_item (stack s) (parse_item (tk_is_combination s) True (tok s)),
                       tk_is_combination := False, tok := []\<rparr> else s)
      in s'\<lparr>tk_is_digit := False, tok := tok s' @ bytes\<rparr>)"

function parse_loop :: "tok_state \<Rightarrow> string \<Rightarrow> tok_state" where
  "parse_loop s [] = s"
| "parse_loop s (c # cs) =
     (if c = CHR ''.'' then parse_loop (step_dot s) cs
      else if c = CHR ''-'' then parse_loop (step_dash s cs) cs
      else if is_ascii_digit c then parse_loop (step_digit s c) cs
      else parse_loop (step_other s (c # take (utf8_step c - 1) cs)) (drop (utf8_step c - 1) cs))"
  by pat_completeness auto
termination
  by (relation "measure (\<lambda>(s, cs). length cs)") auto

definition parse_finish :: "tok_state \<Rightarrow> item list list" where
  "parse_finish s =
     (if tok s \<noteq> []
      then push_item (if \<not> tk_is_digit s then open_list (stack s) else stack s)
             (parse_item (tk_is_combination s) (tk_is_digit s) (tok s))
      else stack s)"

text \<open>\<open>while stack.len() > 1\<close>: close the open lists from the inside out.\<close>

fun collapse :: "item list list \<Rightarrow> item list" where
  "collapse [] = []"
| "collapse [root] = normalize root"
| "collapse (tp # parent # rest) = collapse ((parent @ [IList (normalize tp)]) # rest)"

definition tok_init :: tok_state where
  "tok_init = \<lparr>stack = [[]], tk_is_digit = False, tk_is_combination = False, tok = []\<rparr>"

definition parse :: "string \<Rightarrow> item list" where
  "parse version_in = collapse (parse_finish (parse_loop tok_init (lower version_in)))"

section \<open>Canonical form\<close>

fun is_list :: "item \<Rightarrow> bool" where
  "is_list (IList _) = True"
| "is_list _ = False"

fun item_display :: "item \<Rightarrow> string"
  and list_display_from :: "bool \<Rightarrow> item list \<Rightarrow> string" where
  "item_display (Integer s) = s"
| "item_display (Str s) = s"
| "item_display (Combination s d) = item_display s @ item_display d"
| "item_display (IList v) = list_display_from True v"
| "list_display_from first [] = []"
| "list_display_from first (it # its) =
     (if first then [] else if is_list it then ''-'' else ''.'')
     @ item_display it @ list_display_from False its"

definition list_display :: "item list \<Rightarrow> string" where
  "list_display items = list_display_from True items"

section \<open>Versions\<close>

record version =
  original :: string
  canonical :: string
  items :: "item list"

definition version_parse :: "string \<Rightarrow> version" where
  "version_parse s = (let its = parse s in \<lparr>original = s, canonical = list_display its, items = its\<rparr>)"

datatype version_error = VersionEmpty

definition version_parse_strict :: "string \<Rightarrow> (version, version_error) result" where
  "version_parse_strict s = (if s = [] then Inl VersionEmpty else Inr (version_parse s))"

definition is_snapshot :: "version \<Rightarrow> bool" where
  "is_snapshot v =
     (let s = original v; suffix = ''-SNAPSHOT'' in
      if length s < length suffix then False
      else list_all2 (\<lambda>a b. ascii_lower a = ascii_lower b) (drop (length s - length suffix) s) suffix)"

definition version_eq :: "version \<Rightarrow> version \<Rightarrow> bool" where
  "version_eq a b \<longleftrightarrow> canonical a = canonical b"

definition version_cmp :: "version \<Rightarrow> version \<Rightarrow> ordering" where
  "version_cmp a b = compare_lists (items a) (items b)"

abbreviation vcmp :: "string \<Rightarrow> string \<Rightarrow> ordering" where
  "vcmp a b \<equiv> version_cmp (version_parse a) (version_parse b)"

section \<open>Antisymmetry\<close>

lemma compare_swap:
  "compare_item a b = reverse_ord (compare_item b a)"
  "compare_lists l r = reverse_ord (compare_lists r l)"
proof (induction a b and l r rule: compare_item_compare_lists.induct)
  case (1 a b)
  show ?case by (simp add: cmp_numeric_def then_with_swap cmp_of_swap [of a b] cmp_of_swap [of "length a"])
next
  case (6 a b)
  show ?case by (simp add: cmp_of_swap [of "comparable_qualifier a"])
qed (simp_all add: Let_def)

lemma compare_refl: "compare_item a a = Equal" "compare_lists l l = Equal"
proof -
  have "c = Equal" if "c = reverse_ord c" for c using that by (cases c) auto
  then show "compare_item a a = Equal" "compare_lists l l = Equal"
    using compare_swap by blast+
qed

section \<open>Normalization\<close>

lemma norm_step_idem:
  "foldr norm_step (foldr norm_step xs []) [] = foldr norm_step xs []"
  by (induction xs) (auto simp: norm_step_def)

lemma foldr_norm_subset: "set (foldr norm_step xs []) \<subseteq> set xs"
  by (induction xs) (auto simp: norm_step_def)

lemma norm_item_idem: "norm_item (norm_item it) = norm_item it"
proof (induction it)
  case (IList inner)
  let ?xs = "foldr norm_step (map norm_item inner) []"
  have "norm_item x = x" if "x \<in> set ?xs" for x
    using that foldr_norm_subset [of "map norm_item inner"] IList by auto
  then have "map norm_item ?xs = ?xs" by (simp add: map_idI)
  then show ?case by (simp add: norm_step_idem)
qed simp_all

lemma normalize_idem: "normalize (normalize its) = normalize its"
  using norm_item_idem [of "IList its"] by (simp add: normalize_def)

lemma normalize_collapse: "st \<noteq> [] \<Longrightarrow> normalize (collapse st) = collapse st"
  by (induction st rule: collapse.induct) (simp_all add: normalize_idem)

lemma foldr_norm_not_null: "foldr norm_step xs [] \<noteq> [] \<Longrightarrow> \<not> is_null (last (foldr norm_step xs []))"
  by (induction xs) (auto simp: norm_step_def norm_drop_def split: if_splits list.splits)

section \<open>Dotted numbers with an optional qualifier\<close>

definition num_str :: "string \<Rightarrow> bool" where
  "num_str s \<longleftrightarrow> s \<noteq> [] \<and> list_all is_ascii_digit s"

definition is_letter :: "char \<Rightarrow> bool" where
  "is_letter c \<longleftrightarrow> (65 \<le> byte_of c \<and> byte_of c \<le> 90) \<or> (97 \<le> byte_of c \<and> byte_of c \<le> 122)"

lemma byte_of_char_of: "n < 256 \<Longrightarrow> byte_of (char_of n) = n"
  by (simp add: byte_of_def)

lemma ascii_lower_digit [simp]: "is_ascii_digit c \<Longrightarrow> ascii_lower c = c"
  by (simp add: is_ascii_digit_def ascii_lower_def)

lemma ascii_lower_letter:
  "is_letter c \<Longrightarrow> 97 \<le> byte_of (ascii_lower c) \<and> byte_of (ascii_lower c) \<le> 122"
  by (auto simp: is_letter_def ascii_lower_def byte_of_char_of)

lemma lower_append [simp]: "lower (a @ b) = lower a @ lower b"
  by (simp add: lower_def)

lemma lower_digits: "list_all is_ascii_digit s \<Longrightarrow> lower s = s"
  by (induction s) (auto simp: lower_def)

lemma digit_not_sep: "is_ascii_digit c \<Longrightarrow> c \<noteq> CHR ''.'' \<and> c \<noteq> CHR ''-''"
  by (auto simp: is_ascii_digit_def byte_of_def)

lemma low_letter_not_sep:
  assumes "97 \<le> byte_of c" "byte_of c \<le> 122"
  shows "c \<noteq> CHR ''.'' \<and> c \<noteq> CHR ''-'' \<and> \<not> is_ascii_digit c \<and> utf8_step c = 1"
  using assms by (auto simp: is_ascii_digit_def utf8_step_def byte_of_def)

lemma lower_join_digits:
  "list_all num_str ds \<Longrightarrow> lower (join ''.'' ds) = join ''.'' ds"
  by (induction "''.''" ds rule: join.induct)
     (auto simp: num_str_def lower_digits, simp_all add: lower_def ascii_lower_def byte_of_def)

lemma parse_loop_digits:
  "list_all is_ascii_digit ds \<Longrightarrow> tk_is_digit s \<or> tok s = [] \<Longrightarrow>
   parse_loop s (ds @ rest) =
     parse_loop (s\<lparr>tk_is_digit := tk_is_digit s \<or> ds \<noteq> [], tok := tok s @ ds\<rparr>) rest"
proof (induction ds arbitrary: s)
  case (Cons d ds)
  then show ?case using digit_not_sep [of d] by (auto simp: step_digit_def)
qed simp

lemma parse_loop_letters:
  "\<forall>c \<in> set q. 97 \<le> byte_of c \<and> byte_of c \<le> 122 \<Longrightarrow> \<not> tk_is_digit s \<or> tok s = [] \<Longrightarrow>
   parse_loop s (q @ rest) =
     parse_loop (s\<lparr>tk_is_digit := tk_is_digit s \<and> q = [], tok := tok s @ q\<rparr>) rest"
proof (induction q arbitrary: s)
  case (Cons c q)
  then show ?case using low_letter_not_sep [of c] by (auto simp: step_other_def)
qed simp

abbreviation num_state :: "bool \<Rightarrow> item list \<Rightarrow> string \<Rightarrow> tok_state" where
  "num_state b acc t \<equiv> \<lparr>stack = [acc], tk_is_digit = b, tk_is_combination = False, tok = t\<rparr>"

lemma parse_loop_join:
  "ds \<noteq> [] \<Longrightarrow> list_all num_str ds \<Longrightarrow>
   parse_loop (num_state b acc []) (join ''.'' ds @ rest) =
     parse_loop (num_state True (acc @ map item_integer (butlast ds)) (last ds)) rest"
proof (induction "''.''" ds arbitrary: acc b rule: join.induct)
  case (2 x)
  then show ?case by (simp add: num_str_def parse_loop_digits)
next
  case (3 x y zs)
  from "3.prems" have "parse_loop (num_state b acc []) (x @ CHR ''.'' # join ''.'' (y # zs) @ rest)
     = parse_loop (num_state True (acc @ [item_integer x]) []) (join ''.'' (y # zs) @ rest)"
    by (simp add: num_str_def parse_loop_digits step_dot_def flush_def push_item_def parse_item_def)
  with 3 show ?case by simp
qed simp

end
