(* ===== verification/VersionOrder.thy ===== *)
theory VersionOrder
  imports Version
begin

text \<open>
  The version order on the release shape \<open><numbers>[-<letters>]\<close>, compared with an
  independent reference: component-wise numeric comparison with zero padding, then the
  qualifier ranks. Facts about the order on all versions close the theory.
\<close>


text \<open>The qualifier tail of \<open><numbers>\<close> and \<open><numbers>-<letters>\<close>.\<close>

definition qual_item :: "string \<Rightarrow> string" where
  "qual_item q = qual_alias (lower q)"

definition qual_tail :: "string option \<Rightarrow> item list" where
  "qual_tail q = (case q of None \<Rightarrow> [] | Some q \<Rightarrow> [IList [Str (qual_item q)]])"

definition qual_ok :: "string option \<Rightarrow> bool" where
  "qual_ok q = (case q of None \<Rightarrow> True | Some q \<Rightarrow> q \<noteq> [] \<and> list_all is_letter q)"

definition dotted :: "string list \<Rightarrow> string option \<Rightarrow> string" where
  "dotted ds q = join ''.'' ds @ (case q of None \<Rightarrow> [] | Some q \<Rightarrow> CHR ''-'' # q)"

lemma lower_letters: "list_all is_letter q \<Longrightarrow> \<forall>c \<in> set (lower q). 97 \<le> byte_of c \<and> byte_of c \<le> 122"
  using ascii_lower_letter by (auto simp: lower_def list_all_iff)

lemma qual_item_nonempty: "q \<noteq> [] \<Longrightarrow> qual_item q \<noteq> []"
  by (auto simp: qual_item_def qual_alias_def lower_def)

lemma lower_Cons_dash: "lower (CHR ''-'' # q) = CHR ''-'' # lower q"
  by (simp add: lower_def ascii_lower_def byte_of_def)

lemma parse_dotted:
  assumes ds: "ds \<noteq> []" "list_all num_str ds" and q: "qual_ok q"
  shows "parse (dotted ds q) = normalize (map item_integer ds @ qual_tail q)"
proof -
  have last: "last ds \<noteq> []" using ds by (auto simp: num_str_def list_all_iff)
  have snoc: "map item_integer (butlast ds) @ [item_integer (last ds)] = map item_integer ds"
    using ds(1) by (metis append_butlast_last_id list.simps(8,9) map_append)
  show ?thesis
  proof (cases q)
    case None
    then show ?thesis
      using ds parse_loop_join [OF ds, where rest = "[]"] last snoc
      by (simp add: parse_def dotted_def lower_join_digits tok_init_def parse_finish_def
          push_item_def parse_item_def qual_tail_def)
  next
    case (Some r)
    let ?r = "lower r"
    have r: "r \<noteq> []" "\<forall>c \<in> set ?r. 97 \<le> byte_of c \<and> byte_of c \<le> 122"
      using q Some lower_letters by (auto simp: qual_ok_def)
    have "parse_loop tok_init (join ''.'' ds @ CHR ''-'' # ?r) =
        \<lparr>stack = [[], map item_integer ds], tk_is_digit = False, tk_is_combination = False, tok = ?r\<rparr>"
      using r parse_loop_letters [of ?r _ "[]"] last snoc ds
      by (simp add: tok_init_def parse_loop_join [OF ds] step_dash_def flush_def push_item_def
          parse_item_def open_list_def top_list_def) (simp add: lower_def)
    moreover have "?r \<noteq> []" using r by (simp add: lower_def)
    moreover have "normalize [Str (qual_item r)] = [Str (qual_item r)]"
      using qual_item_nonempty [OF r(1)] by (simp add: normalize_def norm_step_def norm_drop_def)
    ultimately show ?thesis
      using Some ds
      by (simp add: parse_def dotted_def lower_join_digits lower_Cons_dash parse_finish_def
          open_list_def top_list_def push_item_def parse_item_def item_string_def qual_tail_def
          flip: qual_item_def)
  qed
qed

section \<open>The comparison on such versions\<close>

text \<open>Reference order: component-wise on numbers, missing components are zero.\<close>

fun cmp_padded :: "nat list \<Rightarrow> nat list \<Rightarrow> ordering" where
  "cmp_padded [] [] = Equal"
| "cmp_padded (a # as) [] = then_with (cmp_of a 0) (cmp_padded as [])"
| "cmp_padded [] (b # bs) = then_with (cmp_of 0 b) (cmp_padded [] bs)"
| "cmp_padded (a # as) (b # bs) = then_with (cmp_of a b) (cmp_padded as bs)"

definition qual_rank :: "string option \<Rightarrow> string" where
  "qual_rank q = (case q of None \<Rightarrow> RELEASE_INDEX | Some q \<Rightarrow> comparable_qualifier (qual_item q))"

text \<open>Canonical digit strings.\<close>

definition canon_num :: "string \<Rightarrow> bool" where
  "canon_num s \<longleftrightarrow> num_str s \<and> (s = ''0'' \<or> hd s \<noteq> CHR ''0'')"

lemma strip_leading_zeros_canon:
  assumes "num_str s"
  shows "canon_num (strip_leading_zeros s)" "digits_val (strip_leading_zeros s) = digits_val s"
proof -
  let ?t = "dropWhile (\<lambda>c. c = CHR ''0'') s"
  have digs: "list_all is_ascii_digit ?t"
    using assms by (auto simp: num_str_def list_all_iff dest: set_dropWhileD)
  have z: "num_str ''0''" "digits_val ''0'' = 0"
    by (simp_all add: num_str_def is_ascii_digit_def byte_of_def digits_val_Cons digit_val_def)
  have "s \<noteq> []" using assms by (simp add: num_str_def)
  then have eq: "strip_leading_zeros s = (if ?t = [] then ''0'' else ?t)"
    by (simp add: strip_leading_zeros_def Let_def)
  show "canon_num (strip_leading_zeros s)"
  proof (cases "?t = []")
    case True
    then show ?thesis using z by (simp add: eq canon_num_def)
  next
    case False
    from hd_dropWhile [OF False] False digs show ?thesis
      by (auto simp: eq canon_num_def num_str_def)
  qed
  show "digits_val (strip_leading_zeros s) = digits_val s"
    using z(2) digits_val_strip [of s] by (cases "?t = []") (auto simp: eq)
qed

lemma canon_num_length_less:
  assumes "canon_num a" "canon_num b" "length a < length b"
  shows "digits_val a < digits_val b"
proof -
  have b: "hd b \<noteq> CHR ''0''" "is_ascii_digit (hd b)" "b \<noteq> []"
    using assms by (auto simp: canon_num_def num_str_def list_all_iff)
  have "digits_val a < 10 ^ length a"
    using assms by (intro digits_val_less) (simp add: canon_num_def num_str_def)
  also have "\<dots> \<le> 10 ^ (length b - 1)" using assms by (intro power_increasing) auto
  also have "\<dots> \<le> digits_val b" using digits_val_ge [OF b(3,2,1)] .
  finally show ?thesis .
qed

lemma cmp_numeric_canon:
  assumes "canon_num a" "canon_num b"
  shows "cmp_numeric a b = cmp_of (digits_val a) (digits_val b)"
proof -
  consider "length a < length b" | "length b < length a" | "length a = length b" by linarith
  then show ?thesis
  proof cases
    case 3
    then show ?thesis
      using assms cmp_of_digits by (simp add: cmp_numeric_def then_with_def canon_num_def num_str_def)
  qed (use assms canon_num_length_less [of a b] canon_num_length_less [of b a] in
       \<open>auto simp: cmp_numeric_def then_with_def cmp_of_def\<close>)
qed

lemma canon_num_zero:
  assumes "canon_num a"
  shows "a = ''0'' \<longleftrightarrow> digits_val a = 0"
proof -
  have z: "canon_num ''0''" "digits_val ''0'' = 0"
    by (simp_all add: canon_num_def num_str_def is_ascii_digit_def byte_of_def
        digits_val_Cons digit_val_def)
  have "a = ''0'' \<longleftrightarrow> cmp_numeric a ''0'' = Equal" by (auto simp: cmp_numeric_def)
  then show ?thesis using cmp_numeric_canon [OF assms z(1)] z(2) by simp
qed

lemma cmp_padded_swap: "cmp_padded xs ys = reverse_ord (cmp_padded ys xs)"
  by (induction xs ys rule: cmp_padded.induct) (simp_all add: then_with_swap cmp_of_swap [symmetric])

lemma cmp_padded_zeros: "\<forall>z \<in> set zs. z = 0 \<Longrightarrow> cmp_padded zs ys = cmp_padded [] ys"
proof (induction zs arbitrary: ys)
  case (Cons z zs)
  then show ?case by (cases ys) auto
qed simp

lemma cmp_padded_app_zeros:
  "\<forall>z \<in> set zs. z = 0 \<Longrightarrow> cmp_padded (xs @ zs) ys = cmp_padded xs ys"
proof (induction xs arbitrary: ys)
  case (Cons x xs)
  then show ?case by (cases ys) simp_all
qed (simp only: append_Nil cmp_padded_zeros [of zs])

text \<open>Normalization strips exactly the trailing zeros in front of the tail.\<close>

definition strip_zeros :: "string list \<Rightarrow> string list" where
  "strip_zeros ss = rev (dropWhile (\<lambda>s. s = ''0'') (rev ss))"

lemma strip_zeros_snoc:
  "strip_zeros (ss @ [s]) = (if s = ''0'' then strip_zeros ss else ss @ [s])"
  by (simp add: strip_zeros_def)

lemma strip_zeros_zeros: "\<exists>zs. ss = strip_zeros ss @ zs \<and> (\<forall>z \<in> set zs. z = ''0'')"
proof (induction ss rule: rev_induct)
  case (snoc s ss)
  then obtain zs where zs: "ss = strip_zeros ss @ zs" "\<forall>z \<in> set zs. z = ''0''" by blast
  show ?case
  proof (cases "s = ''0''")
    case True
    then have "ss @ [s] = strip_zeros (ss @ [s]) @ zs @ [s]"
      unfolding strip_zeros_snoc append_assoc [symmetric] using zs(1) by simp
    moreover have "\<forall>z \<in> set (zs @ [s]). z = ''0''" using zs(2) True by simp
    ultimately show ?thesis by blast
  qed (simp add: strip_zeros_snoc)
qed (simp add: strip_zeros_def)

lemma strip_zeros_last: "strip_zeros ss = [] \<or> last (strip_zeros ss) \<noteq> ''0''"
  by (induction ss rule: rev_induct) (auto simp: strip_zeros_snoc, simp add: strip_zeros_def)

lemma foldr_norm_ints:
  "foldr norm_step (map Integer ss) (qual_tail q) = map Integer (strip_zeros ss) @ qual_tail q"
proof (induction ss rule: rev_induct)
  case Nil
  show ?case by (simp add: strip_zeros_def)
next
  case (snoc s ss)
  have keep: "foldr norm_step (map Integer us) (Integer u # rest) = map Integer us @ Integer u # rest"
    for us u rest
    by (induction us arbitrary: u rest rule: rev_induct) (simp_all add: norm_step_def norm_drop_def)
  have "norm_step (Integer s) (qual_tail q) =
      (if s = ''0'' then qual_tail q else Integer s # qual_tail q)"
    by (auto simp: norm_step_def norm_drop_def qual_tail_def opens_with_qualifier_def split: option.splits)
  then show ?case using snoc keep by (simp add: strip_zeros_snoc)
qed

lemma cmp_padded_strip:
  assumes "\<And>s. s \<in> set ss \<Longrightarrow> canon_num s"
  shows "cmp_padded (map digits_val (strip_zeros ss)) ys = cmp_padded (map digits_val ss) ys"
proof -
  obtain zs where zs: "ss = strip_zeros ss @ zs" "\<forall>z \<in> set zs. z = ''0''"
    using strip_zeros_zeros by blast
  have "\<forall>v \<in> set (map digits_val zs). v = 0"
    using zs(2) by (auto simp: digits_val_Cons digit_val_def byte_of_def)
  then show ?thesis
    using cmp_padded_app_zeros zs(1) by (metis map_append)
qed

text \<open>Stripped canonical numbers with a qualifier tail.\<close>

lemma compare_ints_Nil:
  assumes "\<And>s. s \<in> set bs \<Longrightarrow> canon_num s" "bs \<noteq> []" "last bs \<noteq> ''0''"
  shows "compare_lists (qual_tail qa) (map Integer bs @ rest) = Less"
    "cmp_padded [] (map digits_val bs) = Less"
proof -
  have "compare_lists [] (map Integer bs @ rest) = Less \<and> cmp_padded [] (map digits_val bs) = Less"
    using assms
  proof (induction bs)
    case (Cons b bs)
    show ?case
    proof (cases "b = ''0''")
      case True
      then show ?thesis using Cons canon_num_zero [of b] by (cases bs) (auto simp: then_with_def)
    next
      case False
      then show ?thesis using Cons canon_num_zero [of b] by (auto simp: then_with_def cmp_of_def)
    qed
  qed simp
  then show "compare_lists (qual_tail qa) (map Integer bs @ rest) = Less"
    "cmp_padded [] (map digits_val bs) = Less"
    using assms(2) by (auto simp: qual_tail_def neq_Nil_conv split: option.splits)
qed

lemma compare_qual_tail:
  "compare_lists (qual_tail qa) (qual_tail qb) = cmp_of (qual_rank qa) (qual_rank qb)"
  by (auto simp: qual_tail_def qual_rank_def Let_def cmp_of_swap [of RELEASE_INDEX] split: option.splits)

lemma compare_stripped:
  assumes "\<And>s. s \<in> set as \<union> set bs \<Longrightarrow> canon_num s"
    "as = [] \<or> last as \<noteq> ''0''" "bs = [] \<or> last bs \<noteq> ''0''"
  shows "compare_lists (map Integer as @ qual_tail qa) (map Integer bs @ qual_tail qb) =
    then_with (cmp_padded (map digits_val as) (map digits_val bs)) (cmp_of (qual_rank qa) (qual_rank qb))"
  using assms
proof (induction as arbitrary: bs)
  case Nil
  then show ?case
    by (cases "bs = []") (simp_all add: compare_qual_tail then_with_def compare_ints_Nil)
next
  case (Cons a as)
  show ?case
  proof (cases bs)
    case Nil
    have "\<And>s. s \<in> set (a # as) \<Longrightarrow> canon_num s" "last (a # as) \<noteq> ''0''"
      using Cons.prems by auto
    note less = compare_ints_Nil [OF this(1) list.distinct(2) this(2)]
    have "compare_lists (qual_tail qb) (map Integer (a # as) @ qual_tail qa) = Less"
      "cmp_padded [] (map digits_val (a # as)) = Less"
      by (rule less; assumption)+
    then show ?thesis
      using Nil compare_swap(2) [of "map Integer (a # as) @ qual_tail qa" "qual_tail qb"]
        cmp_padded_swap [of "map digits_val (a # as)" "[]"]
      by (simp add: then_with_def)
  next
    case (Cons b bs')
    have "cmp_numeric a b = cmp_of (digits_val a) (digits_val b)"
      using Cons.prems Cons by (auto intro: cmp_numeric_canon)
    moreover have "compare_lists (map Integer as @ qual_tail qa) (map Integer bs' @ qual_tail qb) =
      then_with (cmp_padded (map digits_val as) (map digits_val bs')) (cmp_of (qual_rank qa) (qual_rank qb))"
      using Cons.prems Cons by (intro Cons.IH) (auto split: if_splits)
    ultimately show ?thesis using Cons by (simp add: then_with_def)
  qed
qed


lemma normalize_dotted:
  assumes "\<And>s. s \<in> set ds \<Longrightarrow> num_str s" "qual_ok q"
  shows "normalize (map item_integer ds @ qual_tail q) =
    map Integer (strip_zeros (map strip_leading_zeros ds)) @ qual_tail q"
proof -
  have "foldr norm_step (qual_tail q) [] = qual_tail q" "map norm_item (qual_tail q) = qual_tail q"
    using assms(2) qual_item_nonempty
    by (auto simp: qual_tail_def qual_ok_def norm_step_def norm_drop_def split: option.splits)
  moreover have "map norm_item (map item_integer ds) = map Integer (map strip_leading_zeros ds)"
    by (simp add: item_integer_def)
  ultimately show ?thesis
    by (simp add: normalize_def foldr_norm_ints del: map_map)
qed

lemma items_dotted:
  assumes "ds \<noteq> []" "list_all num_str ds" "qual_ok q"
  shows "items (version_parse (dotted ds q)) =
    map Integer (strip_zeros (map strip_leading_zeros ds)) @ qual_tail q"
  using assms normalize_dotted [of ds q]
  by (simp add: version_parse_def parse_dotted list_all_iff Let_def)

lemma strip_zeros_subset: "set (strip_zeros ss) \<subseteq> set ss"
  using strip_zeros_zeros [of ss] by (metis Un_upper1 set_append)

lemma canon_stripped:
  "list_all num_str ds \<Longrightarrow> s \<in> set (map strip_leading_zeros ds) \<Longrightarrow> canon_num s"
  by (auto simp: list_all_iff strip_leading_zeros_canon)

lemma digits_stripped:
  "list_all num_str ds \<Longrightarrow> map digits_val (map strip_leading_zeros ds) = map digits_val ds"
  by (auto simp: list_all_iff strip_leading_zeros_canon)

lemma cmp_padded_digits_strip:
  assumes "list_all num_str ds" "list_all num_str es"
  shows "cmp_padded (map digits_val (strip_zeros (map strip_leading_zeros ds)))
      (map digits_val (strip_zeros (map strip_leading_zeros es))) =
    cmp_padded (map digits_val ds) (map digits_val es)"
proof -
  let ?a = "map strip_leading_zeros ds" and ?b = "map strip_leading_zeros es"
  have "cmp_padded (map digits_val (strip_zeros ?a)) (map digits_val (strip_zeros ?b)) =
      cmp_padded (map digits_val ?a) (map digits_val (strip_zeros ?b))"
    using canon_stripped [OF assms(1)] by (rule cmp_padded_strip)
  also have "\<dots> = reverse_ord (cmp_padded (map digits_val (strip_zeros ?b)) (map digits_val ?a))"
    by (rule cmp_padded_swap)
  also have "cmp_padded (map digits_val (strip_zeros ?b)) (map digits_val ?a) =
      cmp_padded (map digits_val ?b) (map digits_val ?a)"
    using canon_stripped [OF assms(2)] by (rule cmp_padded_strip)
  also have "reverse_ord \<dots> = cmp_padded (map digits_val ?a) (map digits_val ?b)"
    by (rule cmp_padded_swap [symmetric])
  finally show ?thesis unfolding digits_stripped [OF assms(1)] digits_stripped [OF assms(2)] .
qed

lemma dotted_compare:
  assumes "ds \<noteq> []" "list_all num_str ds" "qual_ok q" "es \<noteq> []" "list_all num_str es" "qual_ok r"
  shows "vcmp (dotted ds q) (dotted es r) =
    then_with (cmp_padded (map digits_val ds) (map digits_val es)) (cmp_of (qual_rank q) (qual_rank r))"
proof -
  let ?a = "map strip_leading_zeros ds" and ?b = "map strip_leading_zeros es"
  have canon: "\<And>s. s \<in> set (strip_zeros ?a) \<union> set (strip_zeros ?b) \<Longrightarrow> canon_num s"
    using canon_stripped assms(2,5) strip_zeros_subset by blast
  show ?thesis
    unfolding version_cmp_def items_dotted [OF assms(1-3)] items_dotted [OF assms(4-6)]
      cmp_padded_digits_strip [OF assms(2,5), symmetric]
    by (rule compare_stripped [OF canon strip_zeros_last strip_zeros_last])
qed

text \<open>Padded comparison is lexicographic comparison of the padded lists.\<close>

definition pad :: "nat \<Rightarrow> nat list \<Rightarrow> nat list" where
  "pad n xs = xs @ replicate (n - length xs) 0"

lemma cmp_of_Cons: "cmp_of (x # xs) (y # ys) = then_with (cmp_of x y) (cmp_of xs ys)"
  by (auto simp: cmp_of_def then_with_def)

lemma cmp_padded_same_length: "length xs = length ys \<Longrightarrow> cmp_padded xs ys = cmp_of xs ys"
  by (induction xs ys rule: list_induct2) (simp_all add: cmp_of_Cons)

lemma cmp_padded_pad:
  assumes "length xs \<le> n" "length ys \<le> n"
  shows "cmp_padded xs ys = cmp_of (pad n xs) (pad n ys)"
proof -
  have "cmp_padded xs ys = cmp_padded (pad n xs) ys"
    unfolding pad_def by (subst cmp_padded_app_zeros) auto
  also have "\<dots> = cmp_padded (pad n xs) (pad n ys)"
    by (subst (1 2) cmp_padded_swap) (simp add: pad_def cmp_padded_app_zeros)
  also have "\<dots> = cmp_of (pad n xs) (pad n ys)"
    using assms by (simp add: pad_def cmp_padded_same_length)
  finally show ?thesis .
qed

interpretation padded: three_way cmp_padded
proof unfold_locales
  show "cmp_padded xs ys = reverse_ord (cmp_padded ys xs)" for xs ys
    by (rule cmp_padded_swap)
  fix xs ys zs
  assume *: "cmp_padded xs ys \<noteq> Greater" "cmp_padded ys zs \<noteq> Greater"
  let ?n = "max (length xs) (max (length ys) (length zs))"
  have "length xs \<le> ?n" "length ys \<le> ?n" "length zs \<le> ?n" by simp_all
  with * show "cmp_padded xs zs \<noteq> Greater"
    by (auto simp: cmp_padded_pad [where n = ?n])
qed

lemma three_way_qual: "three_way (\<lambda>q r. cmp_of (qual_rank q) (qual_rank r))"
  by (rule three_way_on) (rule three_way_cmp_of)

lemma three_way_release:
  "three_way (\<lambda>(ns, q) (ms, r). then_with (cmp_padded ns ms) (cmp_of (qual_rank q) (qual_rank r)))"
  using three_way_then_with [OF padded.three_way_axioms three_way_qual] by (simp add: case_prod_unfold)

interpretation release: three_way
  "\<lambda>(ns, q) (ms, r). then_with (cmp_padded ns ms) (cmp_of (qual_rank q) (qual_rank r))"
  by (rule three_way_release)


section \<open>Canonical strings\<close>

lemma display_ints_from:
  "list_display_from False (map Integer ss @ rest) =
     concat (map (\<lambda>s. CHR ''.'' # s) ss) @ list_display_from False rest"
  by (induction ss) simp_all

lemma display_dotted:
  "list_display (map Integer ss @ qual_tail q) =
     join ''.'' ss @ (case q of None \<Rightarrow> [] | Some r \<Rightarrow> (if ss = [] then [] else ''-'') @ qual_item r)"
proof (cases ss)
  case (Cons s ss')
  then show ?thesis
    using display_ints_from join_Cons [of "''.''" s ss'] by (auto simp: list_display_def qual_tail_def split: option.splits)
qed (auto simp: list_display_def qual_tail_def split: option.splits)

lemma join_dot_inj:
  assumes "join ''.'' as = join ''.'' bs" "\<And>s. s \<in> set as \<union> set bs \<Longrightarrow> num_str s"
  shows "as = bs"
proof -
  have split: "ss \<noteq> [] \<Longrightarrow> \<forall>s \<in> set ss. num_str s \<Longrightarrow> split_on (\<lambda>c. c = CHR ''.'') (join ''.'' ss) = ss" for ss
  proof (induction "''.''" ss rule: join.induct)
    case (2 x)
    then show ?case using digit_not_sep by (auto simp: num_str_def list_all_iff intro!: split_on_none)
  next
    case (3 x y zs)
    then have "\<forall>c \<in> set x. c \<noteq> CHR ''.''"
      using digit_not_sep by (auto simp: num_str_def list_all_iff)
    then show ?case using 3 split_on_app [of x "\<lambda>c. c = CHR ''.''" "CHR ''.''"] by simp
  qed simp
  have ne: "ss \<noteq> [] \<Longrightarrow> \<forall>s \<in> set ss. num_str s \<Longrightarrow> join ''.'' ss \<noteq> []" for ss
    by (induction "''.''" ss rule: join.induct) (auto simp: num_str_def)
  show ?thesis
  proof (cases "as = [] \<or> bs = []")
    case True
    then show ?thesis using ne [of as] ne [of bs] assms by (cases as; cases bs) auto
  next
    case False
    then show ?thesis using split [of as] split [of bs] assms by (metis Un_iff)
  qed
qed

lemma qual_item_letters:
  "q \<noteq> [] \<Longrightarrow> list_all is_letter q \<Longrightarrow> \<forall>c \<in> set (qual_item q). 97 \<le> byte_of c \<and> byte_of c \<le> 122"
  using lower_letters by (auto simp: qual_item_def qual_alias_def byte_of_def)

definition num_char :: "char \<Rightarrow> bool" where
  "num_char c \<longleftrightarrow> is_ascii_digit c \<or> c = CHR ''.''"

lemma num_char_join: "\<forall>s \<in> set ss. num_str s \<Longrightarrow> \<forall>c \<in> set (join ''.'' ss). num_char c"
  by (induction "''.''" ss rule: join.induct) (auto simp: num_str_def num_char_def list_all_iff)

lemma takeWhile_dropWhile_split:
  assumes "\<forall>c \<in> set a. P c" "b = [] \<or> \<not> P (hd b)"
  shows "takeWhile P (a @ b) = a" "dropWhile P (a @ b) = b"
  using assms by (induction a; cases b; auto)+

lemma display_dotted_inj:
  assumes "list_display (map Integer as @ qual_tail q) = list_display (map Integer bs @ qual_tail r)"
    "\<And>s. s \<in> set as \<union> set bs \<Longrightarrow> num_str s" "qual_ok q" "qual_ok r"
  shows "as = bs \<and> map_option qual_item q = map_option qual_item r"
proof -
  define tl where "tl ss q = (case q of None \<Rightarrow> [] |
      Some r \<Rightarrow> (if ss = [] then [] else ''-'') @ qual_item r)" for ss :: "string list" and q
  have hd: "tl ss q = [] \<or> \<not> num_char (hd (tl ss q))" if "qual_ok q" for ss q
  proof (cases q)
    case (Some w)
    then have "qual_item w \<noteq> []" "\<not> num_char (hd (qual_item w))"
      using that qual_item_nonempty qual_item_letters [of w] low_letter_not_sep
      by (auto simp: qual_ok_def num_char_def)
    then show ?thesis
      using Some by (auto simp: tl_def num_char_def is_ascii_digit_def byte_of_def)
  qed (simp add: tl_def)
  have eq: "join ''.'' as @ tl as q = join ''.'' bs @ tl bs r"
    using assms(1) by (simp add: display_dotted tl_def)
  note split = takeWhile_dropWhile_split [where P = num_char, OF num_char_join hd]
  have "join ''.'' as = join ''.'' bs" "tl as q = tl bs r"
    using split(1) [of as q as] split(1) [of bs r bs] split(2) [of as q as] split(2) [of bs r bs] eq assms(2-4)
    by auto
  then have "as = bs" using join_dot_inj assms(2) by blast
  moreover from this \<open>tl as q = tl bs r\<close> have "map_option qual_item q = map_option qual_item r"
    using assms(3,4) qual_item_nonempty
    by (auto simp: tl_def qual_ok_def split: option.splits if_splits)
  ultimately show ?thesis by blast
qed


lemma cmp_padded_stripped_Equal:
  assumes "\<And>s. s \<in> set as \<union> set bs \<Longrightarrow> canon_num s"
    "as = [] \<or> last as \<noteq> ''0''" "bs = [] \<or> last bs \<noteq> ''0''"
    "cmp_padded (map digits_val as) (map digits_val bs) = Equal"
  shows "as = bs"
  using assms
proof (induction as arbitrary: bs)
  case Nil
  then show ?case using compare_ints_Nil(2) [of bs] by (cases "bs = []") auto
next
  case (Cons a as)
  show ?case
  proof (cases bs)
    case Nil
    have "\<And>s. s \<in> set (a # as) \<Longrightarrow> canon_num s" "last (a # as) \<noteq> ''0''"
      using Cons.prems by auto
    from compare_ints_Nil(2) [OF this(1) list.distinct(2) this(2)] show ?thesis
      using Nil Cons.prems(4) cmp_padded_swap [of "[]" "map digits_val (a # as)"]
      by (simp del: cmp_padded.simps)
  next
    case (Cons b bs')
    have "cmp_numeric a b = Equal"
      using Cons.prems Cons by (subst cmp_numeric_canon) auto
    then have "a = b" by (simp add: cmp_numeric_def)
    moreover have "as = bs'"
      using Cons.prems Cons by (intro Cons.IH) (auto split: if_splits)
    ultimately show ?thesis using Cons by simp
  qed
qed

lemma dotted_version_eq:
  assumes "ds \<noteq> []" "list_all num_str ds" "qual_ok q" "es \<noteq> []" "list_all num_str es" "qual_ok r"
  shows "version_eq (version_parse (dotted ds q)) (version_parse (dotted es r)) \<longleftrightarrow>
    cmp_padded (map digits_val ds) (map digits_val es) = Equal \<and>
    map_option qual_item q = map_option qual_item r"
proof -
  let ?a = "strip_zeros (map strip_leading_zeros ds)" and ?b = "strip_zeros (map strip_leading_zeros es)"
  have canon: "\<And>s. s \<in> set ?a \<union> set ?b \<Longrightarrow> canon_num s"
    using canon_stripped assms(2,5) strip_zeros_subset by blast
  then have num: "\<And>s. s \<in> set ?a \<union> set ?b \<Longrightarrow> num_str s" by (simp add: canon_num_def)
  have can: "canonical (version_parse s) = list_display (items (version_parse s))" for s
    by (simp add: version_parse_def Let_def)
  have "cmp_padded (map digits_val ds) (map digits_val es) = Equal \<longleftrightarrow> ?a = ?b"
    using cmp_padded_stripped_Equal [OF canon strip_zeros_last strip_zeros_last] padded.cmp_self
    unfolding cmp_padded_digits_strip [OF assms(2,5), symmetric] by auto
  moreover have "qual_tail q = qual_tail r" if "map_option qual_item q = map_option qual_item r"
    using that by (cases q; cases r) (auto simp: qual_tail_def)
  ultimately show ?thesis
    unfolding version_eq_def can items_dotted [OF assms(1-3)] items_dotted [OF assms(4-6)]
    using display_dotted_inj [OF _ num assms(3,6)] by metis
qed

section \<open>Properties\<close>

text \<open>\<open>Ord for Version\<close> is antisymmetric: comparing two versions the other way round
  gives exactly the reversed answer, for all version strings, and a version compares equal
  to itself.\<close>

lemma version_cmp_antisym:
  "vcmp a b = reverse_ord (vcmp b a) \<and> vcmp a a = Equal"
  unfolding version_cmp_def by (rule conjI [OF compare_swap(2) compare_refl(2)])

text \<open>C9. On versions of the shape \<open><n>.<n>...[-<letters>]\<close> the token-level comparison is
  the intended one: numbers component by component with missing components read as zero
  (leading zeros ignored, numbers of any size), and on equal numbers by qualifier rank.\<close>

theorem dotted_cmp:
  assumes "ds \<noteq> []" "list_all num_str ds" "qual_ok q" "es \<noteq> []" "list_all num_str es" "qual_ok r"
  shows "version_cmp (version_parse (dotted ds q)) (version_parse (dotted es r)) =
    then_with (cmp_padded (map digits_val ds) (map digits_val es)) (cmp_of (qual_rank q) (qual_rank r))"
  using dotted_compare [OF assms] .

theorem dotted_cmp_witness:
  "version_cmp (version_parse ''1.02-RC'') (version_parse ''1.2.0'') = Less"
proof -
  have "version_cmp (version_parse (dotted [''1'', ''02''] (Some ''RC'')))
      (version_parse (dotted [''1'', ''2'', ''0''] None)) =
    then_with (cmp_padded (map digits_val [''1'', ''02'']) (map digits_val [''1'', ''2'', ''0'']))
      (cmp_of (qual_rank (Some ''RC'')) (qual_rank None))"
    by (rule dotted_cmp; code_simp)
  also have "\<dots> = Less" by code_simp
  finally show ?thesis by (simp add: dotted_def)
qed

text \<open>On that shape the order is transitive.\<close>

theorem dotted_cmp_trans:
  assumes "\<forall>(ds, q) \<in> set [x, y, z]. ds \<noteq> [] \<and> list_all num_str ds \<and> qual_ok q"
    "vcmp (case_prod dotted x) (case_prod dotted y) \<noteq> Greater"
    "vcmp (case_prod dotted y) (case_prod dotted z) \<noteq> Greater"
  shows "vcmp (case_prod dotted x) (case_prod dotted z) \<noteq> Greater"
proof -
  obtain ds q es r fs s where *: "x = (ds, q)" "y = (es, r)" "z = (fs, s)"
    by (metis surj_pair)
  have ok: "ds \<noteq> []" "list_all num_str ds" "qual_ok q" "es \<noteq> []" "list_all num_str es" "qual_ok r"
    "fs \<noteq> []" "list_all num_str fs" "qual_ok s"
    using assms(1) by (simp_all add: *)
  note cmp = dotted_compare [OF ok(1-6)] dotted_compare [OF ok(4-9)] dotted_compare [OF ok(1-3,7-9)]
  show ?thesis
    using assms(2,3) release.cmp_trans [of "(map digits_val ds, q)" "(map digits_val es, r)" "(map digits_val fs, s)"]
    by (simp add: * cmp)
qed

text \<open>\<open>Version\<close> equality on that shape: equal exactly when the padded numbers agree and the
  case-folded, alias-resolved qualifiers are the same.\<close>

lemma dotted_eq_iff:
  assumes "ds \<noteq> []" "list_all num_str ds" "qual_ok q" "es \<noteq> []" "list_all num_str es" "qual_ok r"
  shows "version_eq (version_parse (dotted ds q)) (version_parse (dotted es r)) \<longleftrightarrow>
    cmp_padded (map digits_val ds) (map digits_val es) = Equal \<and>
    map_option qual_item q = map_option qual_item r"
  using dotted_version_eq [OF assms] .

lemma unknown_rank:
  assumes "qual_item u \<notin> set QUALIFIERS" "qual_item u \<notin> set RELEASE_QUALIFIERS"
  shows "qual_rank (Some u) = CHR ''7'' # CHR ''-'' # qual_item u"
proof -
  have "x \<notin> set ys \<Longrightarrow> position x ys = None" for x and ys :: "string list"
    by (induction ys) auto
  with assms(1) have "position (qual_item u) QUALIFIERS = None" by blast
  moreover have "show_nat (length QUALIFIERS) = ''7''" by code_simp
  ultimately show ?thesis
    using assms by (simp add: qual_rank_def comparable_qualifier_def)
qed

text \<open>The qualifier ladder: for every base number, pre-releases come in the order alpha,
  beta, milestone, rc, snapshot, then the release, then sp, then any other qualifier.\<close>

lemma qualifier_ladder:
  assumes "ds \<noteq> []" "list_all num_str ds" "qual_ok (Some u)"
    "qual_item u \<notin> set QUALIFIERS" "qual_item u \<notin> set RELEASE_QUALIFIERS"
  shows "sorted_wrt (\<lambda>q r. version_cmp (version_parse (dotted ds q)) (version_parse (dotted ds r)) = Less)
    [Some ''alpha'', Some ''beta'', Some ''milestone'', Some ''rc'', Some ''snapshot'', None, Some ''sp'', Some u]"
proof -
  let ?qs = "[Some ''alpha'', Some ''beta'', Some ''milestone'', Some ''rc'', Some ''snapshot'', None, Some ''sp'', Some u]"
  have ok: "qual_ok q" if "q \<in> set ?qs" for q
  proof -
    have "list_all qual_ok [Some ''alpha'', Some ''beta'', Some ''milestone'', Some ''rc'', Some ''snapshot'', None, Some ''sp'']"
      by code_simp
    then show ?thesis using that assms(3) by auto
  qed
  have ranks: "map qual_rank [Some ''alpha'', Some ''beta'', Some ''milestone'', Some ''rc'', Some ''snapshot'', None, Some ''sp''] =
      [''0'', ''1'', ''2'', ''3'', ''4'', ''5'', ''6'']"
    by code_simp
  have "sorted_wrt (\<lambda>q r. qual_rank q < qual_rank r) ?qs"
    using ranks unknown_rank [OF assms(4,5)] by (simp add: less_char_def)
  moreover have "version_cmp (version_parse (dotted ds q)) (version_parse (dotted ds r)) = Less"
    if "q \<in> set ?qs" "r \<in> set ?qs" "qual_rank q < qual_rank r" for q r
    unfolding dotted_compare [OF assms(1,2) ok [OF that(1)] assms(1,2) ok [OF that(2)]]
    using that(3) by (simp add: padded.cmp_self then_with_def)
  ultimately show ?thesis by (rule sorted_wrt_mono_rel [rotated])
qed

text \<open>The comparison of \<open>Version\<close> is not transitive, so it is not the total order the
  \<open>Ord\<close> trait requires: three versions that are each smaller than the next, in a cycle.\<close>

lemma version_cmp_cycle:
  "version_cmp (version_parse ''1'') (version_parse ''1.sp.1'') = Less \<and>
   version_cmp (version_parse ''1.sp.1'') (version_parse ''1-alpha'') = Less \<and>
   version_cmp (version_parse ''1-alpha'') (version_parse ''1'') = Less"
  by (intro conjI; code_simp)

text \<open>\<open>Eq\<close> and \<open>Ord\<close> disagree in both directions: two versions with different token lists
  are equal because their canonical strings coincide, although one compares greater; and two
  versions that compare equal are not equal.\<close>

theorem version_eq_ord_disagree:
  "version_eq (version_parse ''-a'') (version_parse ''a'') \<and>
   items (version_parse ''-a'') \<noteq> items (version_parse ''a'') \<and>
   version_cmp (version_parse ''-a'') (version_parse ''a'') = Greater \<and>
   version_cmp (version_parse ''1ga'') (version_parse ''1'') = Equal \<and>
   \<not> version_eq (version_parse ''1ga'') (version_parse ''1'')"
  by (intro conjI; code_simp)

lemma collapse_not_null: "st \<noteq> [] \<Longrightarrow> collapse st = [] \<or> \<not> is_null (last (collapse st))"
  by (induction st rule: collapse.induct) (auto simp: normalize_def dest: foldr_norm_not_null)

lemma push_item_nonempty [simp]: "push_item st it = [] \<longleftrightarrow> st = []"
  by (simp add: push_item_def split: list.splits)

lemma open_list_nonempty [simp]: "open_list st = [] \<longleftrightarrow> st = []"
  by (auto simp: open_list_def top_list_def)

lemma parse_loop_stack: "stack s \<noteq> [] \<Longrightarrow> stack (parse_loop s cs) \<noteq> []"
  by (induction s cs rule: parse_loop.induct)
     (auto simp: step_dot_def step_dash_def step_digit_def step_other_def flush_def Let_def)

lemma parse_finish_nonempty: "parse_finish (parse_loop tok_init cs) \<noteq> []"
  using parse_loop_stack [of tok_init cs] by (simp add: parse_finish_def tok_init_def)

text \<open>Parsing is total and always ends in normal form: normalizing the token list again
  changes nothing, and it never ends in a null item (a zero, an empty qualifier or an empty
  list).\<close>

theorem parse_normal:
  "normalize (parse s) = parse s \<and> (case rev (parse s) of [] \<Rightarrow> True | it # _ \<Rightarrow> \<not> is_null it)"
proof -
  have "parse s = [] \<or> \<not> is_null (last (parse s))"
    unfolding parse_def by (rule collapse_not_null) (rule parse_finish_nonempty)
  then have "case rev (parse s) of [] \<Rightarrow> True | it # _ \<Rightarrow> \<not> is_null it"
    by (cases "parse s" rule: rev_cases) auto
  then show ?thesis
    using normalize_collapse [OF parse_finish_nonempty] by (simp add: parse_def)
qed

text \<open>\<open>is_snapshot\<close> holds exactly for strings ending in \<open>-SNAPSHOT\<close> up to ASCII case.\<close>

theorem is_snapshot_iff:
  "is_snapshot (version_parse s) \<longleftrightarrow> (\<exists>p t. s = p @ t \<and> eq_ignore_ascii_case t ''-SNAPSHOT'')"
proof -
  have all2: "list_all2 (\<lambda>a b. ascii_lower a = ascii_lower b) t u \<longleftrightarrow> eq_ignore_ascii_case t u" for t u
    unfolding eq_ignore_ascii_case_def lower_def by (auto simp: list_all2_conv_all_nth list_eq_iff_nth_eq)
  have len: "eq_ignore_ascii_case t u \<Longrightarrow> length t = length u" for t u
    unfolding eq_ignore_ascii_case_def lower_def by (metis length_map)
  show ?thesis
  proof
    assume "is_snapshot (version_parse s)"
    then have "eq_ignore_ascii_case (drop (length s - length ''-SNAPSHOT'') s) ''-SNAPSHOT''"
      by (simp add: is_snapshot_def version_parse_def Let_def all2 split: if_splits)
    then show "\<exists>p t. s = p @ t \<and> eq_ignore_ascii_case t ''-SNAPSHOT''"
      by (metis append_take_drop_id)
  next
    assume "\<exists>p t. s = p @ t \<and> eq_ignore_ascii_case t ''-SNAPSHOT''"
    then obtain p t where "s = p @ t" "eq_ignore_ascii_case t ''-SNAPSHOT''" by blast
    moreover from this len have "length t = 9" by fastforce
    ultimately show "is_snapshot (version_parse s)"
      by (simp add: is_snapshot_def version_parse_def Let_def all2)
  qed
qed

end
