(* ===== verification/VersionSpec.thy ===== *)
theory VersionSpec
  imports VersionOrder
begin

text \<open>
  Version requirements (\<open>crates/barista-resolver/src/version_spec.rs\<close>): soft versions, hard
  ranges (unions of intervals) and the meta-versions. The index loop of \<open>parse_hard\<close> is a
  recursion on the unread rest of the input that carries the index for the error message.
\<close>

section \<open>Types\<close>

datatype bound = Unbounded | Included version | Excluded version

record interval =
  iv_lower :: bound
  iv_upper :: bound

datatype version_spec = Soft string | Hard "interval list" | Latest | Release

datatype spec_error =
    SpecEmpty
  | UnmatchedBracket string
  | MissingComma string
  | InvalidBound string string

datatype spec_warning =
    LatestUsed string string
  | ReleaseUsed string string
  | SoftRangeNarrowing string string string

text \<open>The derived \<open>PartialEq\<close>: versions are compared by their canonical form.\<close>

fun bound_eq :: "bound \<Rightarrow> bound \<Rightarrow> bool" where
  "bound_eq Unbounded Unbounded = True"
| "bound_eq (Included a) (Included b) = version_eq a b"
| "bound_eq (Excluded a) (Excluded b) = version_eq a b"
| "bound_eq _ _ = False"

definition interval_eq :: "interval \<Rightarrow> interval \<Rightarrow> bool" where
  "interval_eq a b \<longleftrightarrow> bound_eq (iv_lower a) (iv_lower b) \<and> bound_eq (iv_upper a) (iv_upper b)"

fun spec_eq :: "version_spec \<Rightarrow> version_spec \<Rightarrow> bool" where
  "spec_eq (Soft a) (Soft b) = (a = b)"
| "spec_eq (Hard a) (Hard b) = list_all2 interval_eq a b"
| "spec_eq Latest Latest = True"
| "spec_eq Release Release = True"
| "spec_eq _ _ = False"

section \<open>Parsing\<close>

definition is_ascii_whitespace :: "char \<Rightarrow> bool" where
  "is_ascii_whitespace c \<longleftrightarrow> byte_of c \<in> {32, 9, 10, 12, 13}"

definition parse_version_token :: "string \<Rightarrow> string \<Rightarrow> (version, spec_error) result" where
  "parse_version_token full t =
     map_err (\<lambda>e. case e of VersionEmpty \<Rightarrow>
         InvalidBound full ''invalid version \"\": empty version string'')
       (version_parse_strict t)"

definition parse_interval :: "string \<Rightarrow> string \<Rightarrow> char \<Rightarrow> char \<Rightarrow> (interval, spec_error) result" where
  "parse_interval full inner0 opn cls =
     (let inner = trim inner0 in
      case split_once (CHR '','') inner of
        None \<Rightarrow>
          if opn \<noteq> CHR ''['' \<or> cls \<noteq> CHR '']'' then Inl (MissingComma full)
          else if inner = [] then Inl (InvalidBound full ''empty exact-match interval'')
          else rbind (parse_version_token full inner) (\<lambda>v.
               Inr \<lparr>iv_lower = Included v, iv_upper = Included v\<rparr>)
      | Some (lo0, hi0) \<Rightarrow>
          let lo_str = trim lo0; hi_str = trim hi0 in
          rbind (if lo_str = [] then Inr Unbounded
                 else if opn = CHR ''['' then rbind (parse_version_token full lo_str) (\<lambda>v. Inr (Included v))
                 else rbind (parse_version_token full lo_str) (\<lambda>v. Inr (Excluded v))) (\<lambda>lower.
          rbind (if hi_str = [] then Inr Unbounded
                 else if cls = CHR '']'' then rbind (parse_version_token full hi_str) (\<lambda>v. Inr (Included v))
                 else rbind (parse_version_token full hi_str) (\<lambda>v. Inr (Excluded v))) (\<lambda>upper.
          Inr \<lparr>iv_lower = lower, iv_upper = upper\<rparr>)))"

definition is_open :: "char \<Rightarrow> bool" where
  "is_open c \<longleftrightarrow> c = CHR ''['' \<or> c = CHR ''(''"

definition is_close :: "char \<Rightarrow> bool" where
  "is_close c \<longleftrightarrow> c = CHR '']'' \<or> c = CHR '')''"

definition is_sep :: "char \<Rightarrow> bool" where
  "is_sep c \<longleftrightarrow> is_ascii_whitespace c \<or> c = CHR '',''"

lemma dropWhile_ConsD: "dropWhile P cs = x # r \<Longrightarrow> length r < length cs"
  by (metis Suc_le_eq length_Cons length_dropWhile_le)

function parse_hard_loop ::
    "string \<Rightarrow> nat \<Rightarrow> string \<Rightarrow> interval list \<Rightarrow> (interval list, spec_error) result" where
  "parse_hard_loop full i cs acc =
     (let i' = i + length (takeWhile is_sep cs) in
      case dropWhile is_sep cs of
        [] \<Rightarrow> Inr acc
      | opn # r \<Rightarrow>
          if \<not> is_open opn
          then Inl (InvalidBound full
                 (''expected '' @ [CHR 0x27, CHR ''['', CHR 0x27] @ '' or '' @ [CHR 0x27, CHR ''('', CHR 0x27]
                  @ '' at position '' @ show_nat i'))
          else let inner = takeWhile (\<lambda>c. \<not> is_close c) r in
            case dropWhile (\<lambda>c. \<not> is_close c) r of
              [] \<Rightarrow> Inl (UnmatchedBracket full)
            | cls # r' \<Rightarrow>
                rbind (parse_interval full inner opn cls) (\<lambda>iv.
                parse_hard_loop full (i' + 1 + length inner + 1) r' (acc @ [iv])))"
  by pat_completeness auto
termination
  by (relation "measure (\<lambda>(full, i, cs, acc). length cs)") (auto dest!: dropWhile_ConsD)

declare parse_hard_loop.simps [simp del]

definition parse_hard :: "string \<Rightarrow> (interval list, spec_error) result" where
  "parse_hard s = rbind (parse_hard_loop s 0 s []) (\<lambda>intervals.
     if intervals = [] then Inl (InvalidBound s ''no intervals found'') else Inr intervals)"

definition spec_parse :: "string \<Rightarrow> (version_spec, spec_error) result" where
  "spec_parse raw =
     (let trimmed1 = trim raw in
      if trimmed1 = [] then Inl SpecEmpty
      else if eq_ignore_ascii_case trimmed1 ''LATEST'' then Inr Latest
      else if eq_ignore_ascii_case trimmed1 ''RELEASE'' then Inr Release
      else if starts_with trimmed1 ''['' \<or> starts_with trimmed1 ''(''
           then rbind (parse_hard trimmed1) (\<lambda>ivs. Inr (Hard ivs))
      else Inr (Soft trimmed1))"

section \<open>Satisfaction and printing\<close>

definition interval_contains :: "interval \<Rightarrow> version \<Rightarrow> bool" where
  "interval_contains i v \<longleftrightarrow>
     (case iv_lower i of
        Unbounded \<Rightarrow> True
      | Included b \<Rightarrow> version_cmp v b \<in> {Greater, Equal}
      | Excluded b \<Rightarrow> version_cmp v b = Greater) \<and>
     (case iv_upper i of
        Unbounded \<Rightarrow> True
      | Included b \<Rightarrow> version_cmp v b \<in> {Less, Equal}
      | Excluded b \<Rightarrow> version_cmp v b = Less)"

definition satisfies :: "version_spec \<Rightarrow> version \<Rightarrow> bool" where
  "satisfies s v = (case s of Hard ivs \<Rightarrow> list_ex (\<lambda>i. interval_contains i v) ivs | _ \<Rightarrow> True)"

definition bound_text :: "bound \<Rightarrow> string" where
  "bound_text b = (case b of Unbounded \<Rightarrow> [] | Included v \<Rightarrow> original v | Excluded v \<Rightarrow> original v)"

definition interval_to_string :: "interval \<Rightarrow> string" where
  "interval_to_string i =
     (let range = (case iv_lower i of Included _ \<Rightarrow> ''['' | _ \<Rightarrow> ''('') @ bound_text (iv_lower i) @ '',''
                  @ bound_text (iv_upper i) @ (case iv_upper i of Included _ \<Rightarrow> '']'' | _ \<Rightarrow> '')'')
      in case (iv_lower i, iv_upper i) of
           (Included lo, Included hi) \<Rightarrow> if version_eq lo hi then ''['' @ original lo @ '']'' else range
         | _ \<Rightarrow> range)"

definition to_string_canonical :: "version_spec \<Rightarrow> string" where
  "to_string_canonical s =
     (case s of
        Soft t \<Rightarrow> t
      | Latest \<Rightarrow> ''LATEST''
      | Release \<Rightarrow> ''RELEASE''
      | Hard ivs \<Rightarrow> join '','' (map interval_to_string ivs))"

definition spec_warning_display :: "spec_warning \<Rightarrow> string" where
  "spec_warning_display w =
     (case w of
        LatestUsed c r \<Rightarrow> c @ '': LATEST is deprecated; resolved to '' @ r
          @ ''. Pin a concrete version in your POM or lockfile.''
      | ReleaseUsed c r \<Rightarrow> c @ '': RELEASE is deprecated; resolved to '' @ r
          @ ''. Pin a concrete version in your POM or lockfile.''
      | SoftRangeNarrowing c d r \<Rightarrow> c @ '': soft requirement '' @ d @ '' resolved to '' @ r
          @ '' due to a conflicting requirement on another graph path.'')"


section \<open>Round trip\<close>

definition no_close :: "string \<Rightarrow> bool" where
  "no_close s \<longleftrightarrow> list_all (\<lambda>c. \<not> is_close c) s"

text \<open>The texts that interval bounds can have after parsing.\<close>

definition token_ok :: "string \<Rightarrow> bool" where
  "token_ok t \<longleftrightarrow> t \<noteq> [] \<and> trimmed t \<and> no_close t"

fun bound_ok :: "bound \<Rightarrow> bool" where
  "bound_ok Unbounded = True"
| "bound_ok (Included v) = (v = version_parse (original v) \<and> token_ok (original v))"
| "bound_ok (Excluded v) = (v = version_parse (original v) \<and> token_ok (original v))"

definition interval_ok :: "interval \<Rightarrow> bool" where
  "interval_ok i \<longleftrightarrow> bound_ok (iv_lower i) \<and> bound_ok (iv_upper i) \<and> CHR '','' \<notin> set (bound_text (iv_lower i))"

lemma original_parse [simp]: "original (version_parse s) = s"
  by (simp add: version_parse_def Let_def)

lemma parse_version_token_ok [simp]: "t \<noteq> [] \<Longrightarrow> parse_version_token full t = Inr (version_parse t)"
  by (simp add: parse_version_token_def version_parse_strict_def)

lemma version_eq_refl [simp]: "version_eq v v"
  by (simp add: version_eq_def)

lemma no_close_trim: "no_close s \<Longrightarrow> no_close (trim s)"
  using set_trim [of s] by (auto simp: no_close_def list_all_iff)

lemma token_ok_trim: "no_close s \<Longrightarrow> trim s \<noteq> [] \<Longrightarrow> token_ok (trim s)"
  by (simp add: token_ok_def no_close_trim trimmed_trim)

lemma parse_interval_ok:
  assumes "parse_interval full inner opn cls = Inr iv" "no_close inner"
  shows "interval_ok iv"
proof (cases "split_once (CHR '','') (trim inner)")
  case None
  then have "CHR '','' \<notin> set (trim inner)" by (simp add: split_once_None_iff)
  with None show ?thesis
    using assms by (auto simp: parse_interval_def Let_def interval_ok_def bound_text_def token_ok_trim
        split: if_splits)
next
  case (Some p)
  obtain lo hi where p: "p = (lo, hi)" by (cases p)
  have s: "trim inner = lo @ CHR '','' # hi" "CHR '','' \<notin> set lo"
    using Some split_once_Some by (auto simp: p)
  have "no_close (trim inner)" using assms(2) by (rule no_close_trim)
  then have nc: "no_close lo" "no_close hi" by (auto simp: s no_close_def)
  have "CHR '','' \<notin> set (trim lo)" using s(2) set_trim by blast
  then show ?thesis
    using assms(1) Some nc
    by (auto simp: p parse_interval_def Let_def interval_ok_def bound_text_def token_ok_trim
        split: if_splits)
qed

lemma parse_hard_loop_end: "dropWhile is_sep cs = [] \<Longrightarrow> parse_hard_loop full i cs acc = Inr acc"
  by (subst parse_hard_loop.simps) (simp del: dropWhile_eq_Nil_conv)

lemma parse_hard_loop_open:
  assumes "dropWhile is_sep cs = opn # inner @ cls # r" "is_open opn" "no_close inner" "is_close cls"
  shows "parse_hard_loop full i cs acc = rbind (parse_interval full inner opn cls) (\<lambda>iv.
    parse_hard_loop full (i + length (takeWhile is_sep cs) + 1 + length inner + 1) r (acc @ [iv]))"
proof -
  have "takeWhile (\<lambda>c. \<not> is_close c) (inner @ cls # r) = inner"
    "dropWhile (\<lambda>c. \<not> is_close c) (inner @ cls # r) = cls # r"
    using takeWhile_dropWhile_split [of inner "\<lambda>c. \<not> is_close c" "cls # r"] assms(3,4)
    by (auto simp: no_close_def list_all_iff)
  then show ?thesis
    by (subst parse_hard_loop.simps) (simp add: assms Let_def)
qed

lemma parse_hard_loop_InrD:
  assumes "parse_hard_loop full i cs acc = Inr ivs"
  obtains "dropWhile is_sep cs = []" "ivs = acc"
  | opn inner cls r where "dropWhile is_sep cs = opn # inner @ cls # r" "is_open opn"
      "no_close inner" "is_close cls"
proof (cases "dropWhile is_sep cs")
  case Nil
  then show ?thesis using assms that(1) by (simp add: parse_hard_loop_end)
next
  case (Cons opn r)
  have op: "is_open opn"
    using assms Cons unfolding parse_hard_loop.simps [of full i cs acc] Let_def
    by (simp split: if_splits)
  moreover have ne: "dropWhile (\<lambda>c. \<not> is_close c) r \<noteq> []"
    using assms Cons op unfolding parse_hard_loop.simps [of full i cs acc] Let_def
    by (simp split: list.splits del: dropWhile_eq_Nil_conv)
  moreover from ne obtain cls r' where r: "dropWhile (\<lambda>c. \<not> is_close c) r = cls # r'"
    by (meson neq_Nil_conv)
  moreover have "r = takeWhile (\<lambda>c. \<not> is_close c) r @ cls # r'"
    using takeWhile_dropWhile_id [of "\<lambda>c. \<not> is_close c" r] r by simp
  moreover have "is_close cls" using r hd_dropWhile [of "\<lambda>c. \<not> is_close c" r] by auto
  moreover have "no_close (takeWhile (\<lambda>c. \<not> is_close c) r)"
    by (auto simp: no_close_def list_all_iff dest: set_takeWhileD)
  ultimately show ?thesis using that(2) [of opn _ cls r'] Cons by simp
qed

lemma parse_hard_loop_ok:
  "parse_hard_loop full i cs acc = Inr ivs \<Longrightarrow> list_all interval_ok acc \<Longrightarrow> list_all interval_ok ivs"
proof (induction "length cs" arbitrary: i cs acc rule: less_induct)
  case less
  from less.prems(1) show ?case
  proof (cases rule: parse_hard_loop_InrD)
    case 1
    then show ?thesis using less.prems by simp
  next
    case (2 opn inner cls r)
    with less.prems obtain iv where iv: "parse_interval full inner opn cls = Inr iv"
      and rec: "parse_hard_loop full (i + length (takeWhile is_sep cs) + 1 + length inner + 1) r (acc @ [iv]) = Inr ivs"
      by (auto simp: parse_hard_loop_open [OF 2])
    have "length r < length cs" using dropWhile_ConsD [OF 2(1)] by simp
    with less.hyps [OF this rec] parse_interval_ok [OF iv 2(3)] less.prems(2) show ?thesis by simp
  qed
qed

text \<open>A printed interval is one bracket pair around text without closing brackets, and parses
  back to an equal interval that prints the same.\<close>

lemma trim_app_token: "token_ok t \<Longrightarrow> trim t = t"
  by (simp add: token_ok_def trim_trimmed_id)

lemma is_bracket_simps [simp]:
  "is_open (CHR ''['')" "is_open (CHR ''('')" "is_close (CHR '']'')" "is_close (CHR '')'')"
  by (simp_all add: is_open_def is_close_def)

lemma not_ws_comma [simp]: "\<not> is_ws (CHR '','')"
  by (simp add: is_ws_def byte_of_def)

lemma trim_range:
  assumes "a = [] \<or> token_ok a" "b = [] \<or> token_ok b"
  shows "trim (a @ CHR '','' # b) = a @ CHR '','' # b"
proof (rule trim_trimmed_id)
  show "trimmed (a @ CHR '','' # b)"
    using assms by (cases a; cases b rule: rev_cases) (auto simp: trimmed_def token_ok_def)
qed

lemma parse_interval_exact:
  "token_ok t \<Longrightarrow> CHR '','' \<notin> set t \<Longrightarrow> parse_interval full t (CHR ''['') (CHR '']'') =
     Inr \<lparr>iv_lower = Included (version_parse t), iv_upper = Included (version_parse t)\<rparr>"
  using split_once_None_iff [of "CHR '',''" t]
  by (simp add: parse_interval_def trim_app_token) (simp add: token_ok_def)

lemma parse_interval_range:
  assumes "bound_ok lo" "bound_ok hi" "CHR '','' \<notin> set (bound_text lo)"
  shows "parse_interval full (bound_text lo @ CHR '','' # bound_text hi)
      (case lo of Included _ \<Rightarrow> CHR ''['' | _ \<Rightarrow> CHR ''('')
      (case hi of Included _ \<Rightarrow> CHR '']'' | _ \<Rightarrow> CHR '')'') =
    Inr \<lparr>iv_lower = lo, iv_upper = hi\<rparr>"
proof -
  have tok: "bound_text b = [] \<or> token_ok (bound_text b)" if "bound_ok b" for b
    using that by (cases b) (auto simp: bound_text_def)
  have "trim (bound_text lo @ CHR '','' # bound_text hi) = bound_text lo @ CHR '','' # bound_text hi"
    using tok assms by (intro trim_range) auto
  moreover have "split_once (CHR '','') (bound_text lo @ CHR '','' # bound_text hi) =
      Some (bound_text lo, bound_text hi)"
    using assms(3) by (rule split_once_app)
  moreover have "trim (bound_text lo) = bound_text lo" "trim (bound_text hi) = bound_text hi"
    using tok assms trim_app_token by fastforce+
  ultimately show ?thesis
    using assms(1,2)
    by (cases lo; cases hi) (auto simp: parse_interval_def bound_text_def token_ok_def)
qed


lemma interval_print:
  assumes "interval_ok iv"
  obtains opn inner cls iv' where "interval_to_string iv = opn # inner @ [cls]"
    "is_open opn" "no_close inner" "is_close cls"
    "\<And>full. parse_interval full inner opn cls = Inr iv'"
    "interval_eq iv' iv" "interval_to_string iv' = interval_to_string iv"
proof (cases "\<exists>lo hi. iv_lower iv = Included lo \<and> iv_upper iv = Included hi \<and> version_eq lo hi")
  case True
  then obtain lo hi where b: "iv_lower iv = Included lo" "iv_upper iv = Included hi" "version_eq lo hi"
    by blast
  have lo: "lo = version_parse (original lo)" "token_ok (original lo)" "CHR '','' \<notin> set (original lo)"
    using assms b by (auto simp: interval_ok_def bound_text_def)
  have str: "interval_to_string iv = CHR ''['' # original lo @ [CHR '']'']"
    by (simp add: interval_to_string_def b)
  have "parse_interval full (original lo) (CHR ''['') (CHR '']'') =
      Inr \<lparr>iv_lower = Included lo, iv_upper = Included lo\<rparr>" for full
    using parse_interval_exact [OF lo(2,3)] lo(1) by simp
  then show ?thesis
    using str lo(2) b(3)
    by (intro that [OF str]) (auto simp: token_ok_def interval_eq_def b interval_to_string_def)
next
  case False
  let ?opn = "case iv_lower iv of Included _ \<Rightarrow> CHR ''['' | _ \<Rightarrow> CHR ''(''"
  let ?cls = "case iv_upper iv of Included _ \<Rightarrow> CHR '']'' | _ \<Rightarrow> CHR '')''"
  let ?inner = "bound_text (iv_lower iv) @ CHR '','' # bound_text (iv_upper iv)"
  have str: "interval_to_string iv = ?opn # ?inner @ [?cls]"
    using False by (auto simp: interval_to_string_def Let_def split: bound.splits)
  have nc: "no_close (bound_text b)" if "bound_ok b" for b
    using that by (cases b) (auto simp: bound_text_def token_ok_def no_close_def)
  have "no_close ?inner"
    using nc [of "iv_lower iv"] nc [of "iv_upper iv"] assms
    by (auto simp: interval_ok_def no_close_def is_close_def)
  moreover have "parse_interval full ?inner ?opn ?cls = Inr iv" for full
    using parse_interval_range [of "iv_lower iv" "iv_upper iv"] assms by (simp add: interval_ok_def)
  moreover have "bound_eq b b" for b by (cases b) auto
  ultimately show ?thesis
    by (intro that [OF str]) (auto simp: interval_eq_def split: bound.splits)
qed

lemma parse_hard_loop_one:
  assumes "interval_ok iv" "pre \<in> {[], '',''}"
  obtains iv' where "interval_eq iv' iv" "interval_to_string iv' = interval_to_string iv"
    "\<And>full i rest acc. \<exists>j. parse_hard_loop full i (pre @ interval_to_string iv @ rest) acc =
       parse_hard_loop full j rest (acc @ [iv'])"
proof -
  obtain opn inner cls iv' where iv: "interval_to_string iv = opn # inner @ [cls]"
    "is_open opn" "no_close inner" "is_close cls"
    "\<And>full. parse_interval full inner opn cls = Inr iv'"
    "interval_eq iv' iv" "interval_to_string iv' = interval_to_string iv"
    using interval_print [OF assms(1)] by blast
  have "\<not> is_sep opn" "is_sep (CHR '','')"
    using iv(2) by (auto simp: is_open_def is_sep_def is_ascii_whitespace_def byte_of_def)
  then have "dropWhile is_sep (pre @ interval_to_string iv @ rest) = opn # inner @ cls # rest" for rest
    using assms(2) by (auto simp: iv(1))
  from parse_hard_loop_open [OF this iv(2-4)] iv(5)
  have "\<exists>j. parse_hard_loop full i (pre @ interval_to_string iv @ rest) acc =
       parse_hard_loop full j rest (acc @ [iv'])" for full i rest acc
    by auto
  with iv(6,7) show ?thesis by (rule that)
qed

lemma parse_hard_loop_tail:
  "list_all interval_ok ivs \<Longrightarrow> \<exists>ivs'. list_all2 interval_eq ivs' ivs \<and>
     map interval_to_string ivs' = map interval_to_string ivs \<and>
     (\<forall>full i acc. parse_hard_loop full i (concat (map (\<lambda>iv. CHR '','' # interval_to_string iv) ivs)) acc =
        Inr (acc @ ivs'))"
proof (induction ivs)
  case Nil
  then show ?case by (simp add: parse_hard_loop_end)
next
  case (Cons iv ivs)
  then obtain ivs' where tl: "list_all2 interval_eq ivs' ivs"
    "map interval_to_string ivs' = map interval_to_string ivs"
    "\<And>full i acc. parse_hard_loop full i (concat (map (\<lambda>iv. CHR '','' # interval_to_string iv) ivs)) acc =
        Inr (acc @ ivs')" by auto
  from Cons.prems have "interval_ok iv" by simp
  then obtain iv' where hd: "interval_eq iv' iv" "interval_to_string iv' = interval_to_string iv"
    "\<And>full i rest acc. \<exists>j. parse_hard_loop full i ('','' @ interval_to_string iv @ rest) acc =
       parse_hard_loop full j rest (acc @ [iv'])"
    by (rule parse_hard_loop_one [where pre = "'',''"]) auto
  have "parse_hard_loop full i (concat (map (\<lambda>iv. CHR '','' # interval_to_string iv) (iv # ivs))) acc =
      Inr (acc @ iv' # ivs')" for full i acc
    using hd(3) [of full i "concat (map (\<lambda>iv. CHR '','' # interval_to_string iv) ivs)" acc] tl(3) by auto
  with tl(1,2) hd(1,2) show ?case by (intro exI [of _ "iv' # ivs'"]) simp
qed

lemma parse_hard_print:
  assumes "list_all interval_ok ivs" "ivs \<noteq> []"
  obtains ivs' where "list_all2 interval_eq ivs' ivs"
    "map interval_to_string ivs' = map interval_to_string ivs"
    "parse_hard (join '','' (map interval_to_string ivs)) = Inr ivs'"
proof -
  obtain iv rest where ivs: "ivs = iv # rest" using assms(2) by (cases ivs) auto
  with assms(1) have "interval_ok iv" "list_all interval_ok rest" by auto
  from this(1) obtain iv' where hd: "interval_eq iv' iv" "interval_to_string iv' = interval_to_string iv"
    "\<And>full i r acc. \<exists>j. parse_hard_loop full i ([] @ interval_to_string iv @ r) acc =
       parse_hard_loop full j r (acc @ [iv'])"
    by (rule parse_hard_loop_one [where pre = "[]"]) auto
  obtain rest' where tl: "list_all2 interval_eq rest' rest"
    "map interval_to_string rest' = map interval_to_string rest"
    "\<And>full i acc. parse_hard_loop full i (concat (map (\<lambda>iv. CHR '','' # interval_to_string iv) rest)) acc =
        Inr (acc @ rest')"
    using parse_hard_loop_tail [OF \<open>list_all interval_ok rest\<close>] by blast
  let ?s = "join '','' (map interval_to_string ivs)"
  have s: "?s = interval_to_string iv @ concat (map (\<lambda>iv. CHR '','' # interval_to_string iv) rest)"
    by (simp add: ivs join_Cons comp_def)
  have "parse_hard_loop ?s 0 ?s [] = Inr (iv' # rest')"
    using hd(3) [of ?s 0 "concat (map (\<lambda>iv. CHR '','' # interval_to_string iv) rest)" "[]"] tl(3) s
    by auto
  then show ?thesis
    using hd tl by (intro that [of "iv' # rest'"]) (simp_all add: ivs parse_hard_def)
qed


lemma parse_hard_InrD:
  "parse_hard s = Inr ivs \<Longrightarrow> list_all interval_ok ivs \<and> ivs \<noteq> []"
  by (auto simp: parse_hard_def dest: parse_hard_loop_ok split: if_splits)

definition bracketed :: "string \<Rightarrow> bool" where
  "bracketed s \<longleftrightarrow> s \<noteq> [] \<and> is_open (hd s) \<and> is_close (last s)"

lemma bracketed_join: "xs \<noteq> [] \<Longrightarrow> \<forall>x \<in> set xs. bracketed x \<Longrightarrow> bracketed (join '','' xs)"
  by (induction "'',''" xs rule: join.induct) (simp_all add: bracketed_def)

lemma bracketed_interval: "interval_ok iv \<Longrightarrow> bracketed (interval_to_string iv)"
  by (erule interval_print) (simp add: bracketed_def)

lemma spec_parse_hard:
  assumes "bracketed s"
  shows "spec_parse s = rbind (parse_hard s) (\<lambda>ivs. Inr (Hard ivs))"
proof -
  obtain c cs where s: "s = c # cs" "is_open c" using assms by (cases s) (auto simp: bracketed_def)
  have opn: "hd (lower s) = CHR ''['' \<or> hd (lower s) = CHR ''(''"
    using s by (auto simp: lower_def is_open_def ascii_lower_def byte_of_def)
  have low: "hd (lower ''LATEST'') = CHR ''l''" "hd (lower ''RELEASE'') = CHR ''r''"
    by code_simp+
  have "trimmed s"
    using assms by (auto simp: bracketed_def trimmed_def is_open_def is_close_def is_ws_def byte_of_def)
  then have "trim s = s" by (rule trim_trimmed_id)
  moreover have "\<not> eq_ignore_ascii_case s ''LATEST''" "\<not> eq_ignore_ascii_case s ''RELEASE''"
    using opn low by (auto simp: eq_ignore_ascii_case_def)
  moreover have "starts_with s ''['' \<or> starts_with s ''(''"
    using s by (auto simp: starts_with_def is_open_def)
  ultimately show ?thesis
    using s(1) by (simp add: spec_parse_def)
qed

text \<open>C14. Requirements round-trip: what \<open>VersionSpec::parse\<close> accepts is printed by
  \<open>to_string_canonical\<close> to a text that parses to an equal requirement, and printing is
  stable from then on.\<close>

theorem spec_roundtrip:
  assumes "spec_parse raw = Inr s"
  shows "\<exists>s'. spec_parse (to_string_canonical s) = Inr s' \<and> spec_eq s' s \<and>
    to_string_canonical s' = to_string_canonical s"
proof (cases s)
  case (Hard ivs)
  with assms obtain t where "parse_hard t = Inr ivs"
    by (auto simp: spec_parse_def Let_def split: if_splits)
  then have ok: "list_all interval_ok ivs" "ivs \<noteq> []" using parse_hard_InrD by auto
  obtain ivs' where ivs': "list_all2 interval_eq ivs' ivs"
    "map interval_to_string ivs' = map interval_to_string ivs"
    "parse_hard (join '','' (map interval_to_string ivs)) = Inr ivs'"
    using parse_hard_print [OF ok] by blast
  have "bracketed (join '','' (map interval_to_string ivs))"
    using ok by (intro bracketed_join) (auto simp: list_all_iff bracketed_interval)
  from spec_parse_hard [OF this] ivs' show ?thesis
    by (intro exI [of _ "Hard ivs'"]) (simp add: Hard to_string_canonical_def)
next
  case (Soft t)
  with assms have "t = trim raw" by (auto simp: spec_parse_def Let_def split: if_splits)
  with assms Soft show ?thesis
    by (intro exI [of _ s]) (simp add: spec_parse_def to_string_canonical_def)
next
  case Latest
  have "spec_parse ''LATEST'' = Inr Latest" by code_simp
  then show ?thesis by (simp add: Latest to_string_canonical_def)
next
  case Release
  have "spec_parse ''RELEASE'' = Inr Release" by code_simp
  then show ?thesis by (simp add: Release to_string_canonical_def)
qed

theorem spec_roundtrip_witness:
  "\<exists>s'. spec_parse (to_string_canonical (projr (spec_parse '' [1.0,2.0) , [3,) ''))) = Inr s' \<and>
     spec_eq s' (projr (spec_parse '' [1.0,2.0) , [3,) '')) \<and>
     to_string_canonical s' = to_string_canonical (projr (spec_parse '' [1.0,2.0) , [3,) ''))"
proof (rule spec_roundtrip)
  have "\<not> isl (spec_parse '' [1.0,2.0) , [3,) '')" by code_simp
  then show "spec_parse '' [1.0,2.0) , [3,) '' = Inr (projr (spec_parse '' [1.0,2.0) , [3,) ''))"
    by simp
qed

text \<open>Ranges between release-shaped versions.\<close>

definition release_cmp :: "string list \<times> string option \<Rightarrow> string list \<times> string option \<Rightarrow> ordering" where
  "release_cmp x y = then_with (cmp_padded (map digits_val (fst x)) (map digits_val (fst y)))
     (cmp_of (qual_rank (snd x)) (qual_rank (snd y)))"

definition release_ok :: "string list \<times> string option \<Rightarrow> bool" where
  "release_ok x \<longleftrightarrow> fst x \<noteq> [] \<and> list_all num_str (fst x) \<and> qual_ok (snd x)"

abbreviation release_str :: "string list \<times> string option \<Rightarrow> string" where
  "release_str x \<equiv> dotted (fst x) (snd x)"

lemma release_chars:
  assumes "release_ok x"
  shows "\<forall>c \<in> set (release_str x). num_char c \<or> is_letter c \<or> c = CHR ''-''" "release_str x \<noteq> []"
proof -
  have n: "\<forall>s \<in> set (fst x). num_str s" using assms by (simp add: release_ok_def list_all_iff)
  show "\<forall>c \<in> set (release_str x). num_char c \<or> is_letter c \<or> c = CHR ''-''"
    using num_char_join [OF n] assms
    by (auto simp: dotted_def release_ok_def qual_ok_def list_all_iff split: option.splits)
  obtain d ds where "fst x = d # ds" using assms by (cases "fst x") (auto simp: release_ok_def)
  with n show "release_str x \<noteq> []" by (simp add: dotted_def join_Cons num_str_def)
qed

lemma release_char_ok:
  "num_char c \<or> is_letter c \<or> c = CHR ''-'' \<Longrightarrow> \<not> is_ws c \<and> \<not> is_close c \<and> c \<noteq> CHR '',''"
  by (auto simp: num_char_def is_ascii_digit_def is_letter_def is_ws_def is_close_def byte_of_def)

lemma release_token_ok:
  assumes "release_ok x"
  shows "token_ok (release_str x)" "CHR '','' \<notin> set (release_str x)"
proof -
  have c: "\<not> is_ws c \<and> \<not> is_close c \<and> c \<noteq> CHR '',''" if "c \<in> set (release_str x)" for c
    using release_chars(1) [OF assms] release_char_ok that by blast
  then show "CHR '','' \<notin> set (release_str x)" by blast
  show "token_ok (release_str x)"
    using c release_chars(2) [OF assms]
    by (auto simp: token_ok_def no_close_def list_all_iff trimmed_def)
qed

text \<open>C15. Half-open ranges between release-shaped versions mean what Maven says:
  \<open>[lo,hi)\<close> parses, and a release-shaped version satisfies it exactly when it is not below
  \<open>lo\<close> and below \<open>hi\<close> in the reference order.\<close>

theorem range_satisfies:
  assumes "release_ok lo" "release_ok hi"
  shows "\<exists>s. spec_parse (''['' @ release_str lo @ '','' @ release_str hi @ '')'') = Inr s \<and>
    (\<forall>v. release_ok v \<longrightarrow> (satisfies s (version_parse (release_str v)) \<longleftrightarrow>
       release_cmp v lo \<noteq> Less \<and> release_cmp v hi = Less))"
proof -
  let ?iv = "\<lparr>iv_lower = Included (version_parse (release_str lo)), iv_upper = Excluded (version_parse (release_str hi))\<rparr>"
  let ?s = "''['' @ release_str lo @ '','' @ release_str hi @ '')''"
  note lo = release_token_ok [OF assms(1)] and hi = release_token_ok [OF assms(2)]
  let ?inner = "release_str lo @ CHR '','' # release_str hi"
  have pi: "parse_interval full ?inner (CHR ''['') (CHR '')'') = Inr ?iv" for full
    using parse_interval_range [of "iv_lower ?iv" "iv_upper ?iv"] lo hi by (simp add: bound_text_def)
  have "no_close ?inner" using lo hi by (simp add: token_ok_def no_close_def is_close_def)
  moreover have "dropWhile is_sep ?s = CHR ''['' # ?inner @ CHR '')'' # []"
    by (simp add: is_sep_def is_ascii_whitespace_def byte_of_def)
  ultimately have "parse_hard_loop ?s 0 ?s [] = Inr [?iv]"
    using pi parse_hard_loop_open [of ?s "CHR ''[''" ?inner "CHR '')''" "[]" ?s 0 "[]"]
    by (simp only: is_bracket_simps rbind_simps simp_thms) (simp add: parse_hard_loop_end)
  then have "parse_hard ?s = Inr [?iv]" by (simp add: parse_hard_def)
  then have parse: "spec_parse ?s = Inr (Hard [?iv])"
    using spec_parse_hard [of ?s] by (simp add: bracketed_def)
  have cmp: "vcmp (release_str x) (release_str y) = release_cmp x y" if "release_ok x" "release_ok y" for x y
    using that dotted_compare by (simp add: release_ok_def release_cmp_def)
  have "satisfies (Hard [?iv]) (version_parse (release_str v)) \<longleftrightarrow>
      release_cmp v lo \<noteq> Less \<and> release_cmp v hi = Less" if "release_ok v" for v
    using cmp [OF that assms(1)] cmp [OF that assms(2)]
    by (cases "release_cmp v lo") (simp_all add: satisfies_def interval_contains_def)
  with parse show ?thesis by blast
qed

theorem range_satisfies_witness:
  "\<exists>s. spec_parse ''[1.0,2-rc)'' = Inr s \<and> satisfies s (version_parse ''2-beta'') \<and>
     \<not> satisfies s (version_parse ''2'')"
proof -
  let ?lo = "([''1'', ''0''], None)" and ?hi = "([''2''], Some ''rc'')"
  have ok: "release_ok ?lo" "release_ok ?hi" "release_ok ([''2''], Some ''beta'')" "release_ok ([''2''], None)"
    by code_simp+
  have cmp: "release_cmp ([''2''], Some ''beta'') ?lo \<noteq> Less \<and> release_cmp ([''2''], Some ''beta'') ?hi = Less"
    "\<not> (release_cmp ([''2''], None) ?lo \<noteq> Less \<and> release_cmp ([''2''], None) ?hi = Less)"
    by code_simp+
  from range_satisfies [OF ok(1,2)] obtain s where
    "spec_parse (''['' @ release_str ?lo @ '','' @ release_str ?hi @ '')'') = Inr s"
    "\<And>v. release_ok v \<Longrightarrow> (satisfies s (version_parse (release_str v)) \<longleftrightarrow>
       release_cmp v ?lo \<noteq> Less \<and> release_cmp v ?hi = Less)" by blast
  with this(2) [OF ok(3)] this(2) [OF ok(4)] cmp show ?thesis
    by (intro exI [of _ s]) (simp add: dotted_def)
qed

end
