(* ===== verification/Snapshot.thy ===== *)
theory Snapshot
  imports Version
begin

text \<open>
  SNAPSHOT metadata and update policies
  (\<open>crates/barista-resolver/src/snapshot.rs\<close>).

  The XML reader is a library; the parser below consumes the list of events it delivers
  (text events decoded and unescaped, a decoding failure as \<open>XmlFail\<close>). A Rust slice
  \<open>&v[i..]\<close> panics when \<open>i\<close> is not a character boundary; \<open>slice_from\<close> makes that \<open>None\<close>.
  The text of a \<open>ParseIntError\<close> is left out of the policy error. Times are seconds as integers,
  \<open>duration_since\<close> being an error for a later reference time.
\<close>

section \<open>Types\<close>

record snapshot_metadata =
  sm_timestamped_version :: string
  sm_timestamp :: string
  sm_build_number :: nat
  sm_last_updated :: "string option"

record snapshot_version_entry =
  sv_extension :: string
  sv_classifier :: "string option"
  sv_value :: string
  sv_updated :: string

record snapshot_info =
  si_snapshot :: "snapshot_metadata option"
  si_snapshot_versions :: "snapshot_version_entry list"

datatype snapshot_error =
    InvalidUpdatePolicy string string
  | NoSnapshotVersion string string string
  | MetadataParse string string

fun first_entry :: "snapshot_version_entry list \<Rightarrow> string \<Rightarrow> string option \<Rightarrow> string option" where
  "first_entry [] extension classifier = None"
| "first_entry (e # es) extension classifier =
     (if sv_extension e = extension \<and> sv_classifier e = classifier then Some (sv_value e)
      else first_entry es extension classifier)"

definition pick_version :: "snapshot_info \<Rightarrow> string \<Rightarrow> string option \<Rightarrow> string option" where
  "pick_version info extension classifier =
     (case first_entry (si_snapshot_versions info) extension classifier of
        Some v \<Rightarrow> Some v
      | None \<Rightarrow> map_option sm_timestamped_version (si_snapshot info))"

section \<open>Update policy\<close>

datatype update_policy = Always | Daily | Interval nat | Never

definition policy_parse :: "string \<Rightarrow> (update_policy, snapshot_error) result" where
  "policy_parse raw =
     (let t = trim raw in
      if t = [] then Inl (InvalidUpdatePolicy raw ''empty policy string'')
      else let low = lower t in
        if low = ''always'' then Inr Always
        else if low = ''daily'' then Inr Daily
        else if low = ''never'' then Inr Never
        else (case strip_prefix low ''interval:'' of
            Some rest \<Rightarrow>
              if rest = [] then Inl (InvalidUpdatePolicy raw ''missing minutes after `interval:`'')
              else (case parse_uint 32 rest of
                  Some minutes \<Rightarrow> Inr (Interval minutes)
                | None \<Rightarrow> Inl (InvalidUpdatePolicy raw ''invalid minute count''))
          | None \<Rightarrow> Inl (InvalidUpdatePolicy raw
              (''expected one of `always`, `daily`, `interval:N`, `never`; got `'' @ t @ ''`''))))"

definition elapsed_secs :: "int \<Rightarrow> int \<Rightarrow> int" where
  "elapsed_secs last_update now = (if last_update \<le> now then now - last_update else 0)"

fun should_refetch :: "update_policy \<Rightarrow> int \<Rightarrow> int \<Rightarrow> bool" where
  "should_refetch Always last_update now = True"
| "should_refetch Never last_update now = False"
| "should_refetch Daily last_update now = (elapsed_secs last_update now \<ge> 24 * 3600)"
| "should_refetch (Interval minutes) last_update now = (elapsed_secs last_update now \<ge> int minutes * 60)"

section \<open>Metadata parsing\<close>

definition is_char_boundary :: "string \<Rightarrow> nat \<Rightarrow> bool" where
  "is_char_boundary s i \<longleftrightarrow>
     i = 0 \<or> i = length s \<or> (i < length s \<and> (byte_of (s ! i) < 0x80 \<or> byte_of (s ! i) \<ge> 0xC0))"

definition slice_from :: "string \<Rightarrow> nat \<Rightarrow> string option" where
  "slice_from s i = (if is_char_boundary s i then Some (drop i s) else None)"

text \<open>\<open>None\<close> is the panic of the slice.\<close>

definition strip_snapshot_suffix :: "string \<Rightarrow> string option" where
  "strip_snapshot_suffix v =
     (let suffix = ''-SNAPSHOT'' in
      if length v \<ge> length suffix
      then (case slice_from v (length v - length suffix) of
              None \<Rightarrow> None
            | Some tail \<Rightarrow> if eq_ignore_ascii_case tail suffix
                           then Some (take (length v - length suffix) v) else Some v)
      else Some v)"

datatype xml_event =
    XmlStart string
  | XmlEnd
  | XmlText string
  | XmlCData string
  | XmlOther
  | XmlFail string

record snapshot_parser =
  sp_path :: "string list"
  sp_text :: string
  sp_info :: "snapshot_version_entry list"
  sp_version :: "string option"
  sp_snap_ts :: "string option"
  sp_snap_build :: "nat option"
  sp_last_updated :: "string option"
  sp_sv_extension :: "string option"
  sp_sv_classifier :: "string option"
  sp_sv_value :: "string option"
  sp_sv_updated :: "string option"

text \<open>The element path is kept innermost first.\<close>

definition close_entry :: "snapshot_parser \<Rightarrow> snapshot_parser" where
  "close_entry s =
     (case (sp_sv_extension s, sp_sv_value s) of
        (Some ext, Some val) \<Rightarrow>
          s\<lparr>sp_info := sp_info s @ [\<lparr>sv_extension = ext, sv_classifier = sp_sv_classifier s, sv_value = val,
                sv_updated = (case sp_sv_updated s of Some u \<Rightarrow> u | None \<Rightarrow> [])\<rparr>],
            sp_sv_extension := None, sp_sv_classifier := None, sp_sv_value := None, sp_sv_updated := None\<rparr>
      | _ \<Rightarrow> s\<lparr>sp_sv_extension := None, sp_sv_classifier := None, sp_sv_value := None, sp_sv_updated := None\<rparr>)"

definition close_element :: "snapshot_parser \<Rightarrow> snapshot_parser" where
  "close_element s =
     (let text = trim (sp_text s); p = rev (sp_path s) in
      if p = [''metadata'', ''version''] then s\<lparr>sp_version := Some text\<rparr>
      else if p = [''metadata'', ''versioning'', ''lastUpdated''] then s\<lparr>sp_last_updated := Some text\<rparr>
      else if p = [''metadata'', ''versioning'', ''snapshot'', ''timestamp''] then s\<lparr>sp_snap_ts := Some text\<rparr>
      else if p = [''metadata'', ''versioning'', ''snapshot'', ''buildNumber'']
           then s\<lparr>sp_snap_build := parse_uint 32 text\<rparr>
      else if length p = 5 \<and> take 4 p = [''metadata'', ''versioning'', ''snapshotVersions'', ''snapshotVersion'']
           then (let inner = p ! 4 in
                 if inner = ''extension'' then s\<lparr>sp_sv_extension := Some text\<rparr>
                 else if inner = ''classifier'' then (if text \<noteq> [] then s\<lparr>sp_sv_classifier := Some text\<rparr> else s)
                 else if inner = ''value'' then s\<lparr>sp_sv_value := Some text\<rparr>
                 else if inner = ''updated'' then s\<lparr>sp_sv_updated := Some text\<rparr>
                 else s)
      else if p = [''metadata'', ''versioning'', ''snapshotVersions'', ''snapshotVersion''] then close_entry s
      else s)"

fun event_step :: "xml_event \<Rightarrow> snapshot_parser \<Rightarrow> (snapshot_parser, snapshot_error) result" where
  "event_step (XmlStart name) s = Inr (s\<lparr>sp_path := name # sp_path s, sp_text := []\<rparr>)"
| "event_step XmlEnd s = Inr ((close_element s)\<lparr>sp_text := [], sp_path := tl (sp_path s)\<rparr>)"
| "event_step (XmlText t) s = Inr (s\<lparr>sp_text := sp_text s @ t\<rparr>)"
| "event_step (XmlCData t) s = Inr (s\<lparr>sp_text := sp_text s @ t\<rparr>)"
| "event_step XmlOther s = Inr s"
| "event_step (XmlFail detail) s = Inl (MetadataParse [] detail)"

fun run_events :: "xml_event list \<Rightarrow> snapshot_parser \<Rightarrow> (snapshot_parser, snapshot_error) result" where
  "run_events [] s = Inr s"
| "run_events (e # es) s = rbind (event_step e s) (run_events es)"

definition parser_init :: snapshot_parser where
  "parser_init = \<lparr>sp_path = [], sp_text = [], sp_info = [], sp_version = None, sp_snap_ts = None,
     sp_snap_build = None, sp_last_updated = None, sp_sv_extension = None, sp_sv_classifier = None,
     sp_sv_value = None, sp_sv_updated = None\<rparr>"

text \<open>The reconstruction of the top-level \<open><snapshot>\<close>; the outer \<open>None\<close> is the panic of
  \<open>strip_snapshot_suffix\<close>.\<close>

definition finish_snapshot :: "snapshot_parser \<Rightarrow> snapshot_info option" where
  "finish_snapshot s =
     (case (sp_snap_ts s, sp_snap_build s) of
        (Some ts, Some bn) \<Rightarrow>
          (case (case sp_version s of None \<Rightarrow> Some [] | Some v \<Rightarrow> strip_snapshot_suffix v) of
             None \<Rightarrow> None
           | Some base \<Rightarrow>
               Some \<lparr>si_snapshot = Some \<lparr>sm_timestamped_version =
                         (if base = [] then ts @ ''-'' @ show_nat bn
                          else base @ ''-'' @ ts @ ''-'' @ show_nat bn),
                       sm_timestamp = ts, sm_build_number = bn, sm_last_updated = sp_last_updated s\<rparr>,
                     si_snapshot_versions = sp_info s\<rparr>)
      | _ \<Rightarrow> Some \<lparr>si_snapshot = None, si_snapshot_versions = sp_info s\<rparr>)"

definition parse_snapshot_metadata :: "xml_event list \<Rightarrow> (snapshot_info option, snapshot_error) result" where
  "parse_snapshot_metadata evs = rbind (run_events evs parser_init) (\<lambda>s. Inr (finish_snapshot s))"


section \<open>Round trip of the metadata document\<close>

definition enc_elem :: "string \<Rightarrow> string \<Rightarrow> xml_event list" where
  "enc_elem name t = [XmlStart name, XmlText t, XmlEnd]"

definition enc_entry :: "snapshot_version_entry \<Rightarrow> xml_event list" where
  "enc_entry e = [XmlStart ''snapshotVersion''] @ enc_elem ''extension'' (sv_extension e) @
     (case sv_classifier e of None \<Rightarrow> [] | Some c \<Rightarrow> enc_elem ''classifier'' c) @
     enc_elem ''value'' (sv_value e) @ enc_elem ''updated'' (sv_updated e) @ [XmlEnd]"

definition enc_document :: "string \<Rightarrow> string \<Rightarrow> nat \<Rightarrow> string \<Rightarrow> snapshot_version_entry list \<Rightarrow> xml_event list" where
  "enc_document version ts bn last_updated entries =
     [XmlStart ''metadata''] @ enc_elem ''version'' version @ [XmlStart ''versioning'', XmlStart ''snapshot''] @
     enc_elem ''timestamp'' ts @ enc_elem ''buildNumber'' (show_nat bn) @ [XmlEnd] @
     enc_elem ''lastUpdated'' last_updated @ [XmlStart ''snapshotVersions''] @
     concat (map enc_entry entries) @ [XmlEnd, XmlEnd, XmlEnd]"

definition entry_ok :: "snapshot_version_entry \<Rightarrow> bool" where
  "entry_ok e \<longleftrightarrow> trimmed (sv_extension e) \<and> trimmed (sv_value e) \<and> trimmed (sv_updated e) \<and>
     (case sv_classifier e of None \<Rightarrow> True | Some c \<Rightarrow> c \<noteq> [] \<and> trimmed c)"

lemma run_events_append: "run_events (as @ bs) s = rbind (run_events as s) (run_events bs)"
proof (induction as arbitrary: s)
  case (Cons a as)
  then show ?case by (cases "event_step a s") auto
qed simp

abbreviation entries_path :: "string list" where
  "entries_path \<equiv> [''snapshotVersions'', ''versioning'', ''metadata'']"

definition entry_state :: "snapshot_parser \<Rightarrow> bool" where
  "entry_state s \<longleftrightarrow> sp_path s = entries_path \<and> sp_text s = [] \<and> sp_sv_extension s = None \<and>
     sp_sv_classifier s = None \<and> sp_sv_value s = None \<and> sp_sv_updated s = None"

lemma run_entry:
  assumes "entry_ok e" "entry_state s"
  shows "run_events (enc_entry e) s = Inr (s\<lparr>sp_info := sp_info s @ [e]\<rparr>)"
proof -
  note ok = assms [unfolded entry_ok_def entry_state_def]
  show ?thesis
    using ok by (cases s; cases e; cases "sv_classifier e")
      (simp_all add: enc_entry_def enc_elem_def close_element_def close_entry_def trim_trimmed_id)
qed

lemma run_entries:
  "list_all entry_ok es \<Longrightarrow> entry_state s \<Longrightarrow>
     run_events (concat (map enc_entry es)) s = Inr (s\<lparr>sp_info := sp_info s @ es\<rparr>)"
proof (induction es arbitrary: s)
  case (Cons e es)
  have "entry_state (s\<lparr>sp_info := sp_info s @ [e]\<rparr>)" using Cons.prems by (simp add: entry_state_def)
  with Cons show ?case by (simp add: run_events_append run_entry)
qed simp


lemma strip_snapshot_suffix_app:
  assumes "base \<noteq> []"
  shows "strip_snapshot_suffix (base @ ''-SNAPSHOT'') = Some base"
proof -
  have "slice_from (base @ ''-SNAPSHOT'') (length base) = Some ''-SNAPSHOT''"
    by (simp add: slice_from_def is_char_boundary_def nth_append byte_of_def)
  then show ?thesis by (simp add: strip_snapshot_suffix_def eq_ignore_ascii_case_def)
qed

lemma run_document:
  assumes "trimmed v" "trimmed ts" "trimmed lu" "bn < 2 ^ 32" "list_all entry_ok entries"
  shows "run_events (enc_document v ts bn lu entries) parser_init =
    Inr (parser_init\<lparr>sp_version := Some v, sp_snap_ts := Some ts, sp_snap_build := Some bn,
      sp_last_updated := Some lu, sp_info := entries\<rparr>)"
proof -
  let ?pre = "[XmlStart ''metadata''] @ enc_elem ''version'' v @ [XmlStart ''versioning'', XmlStart ''snapshot''] @
     enc_elem ''timestamp'' ts @ enc_elem ''buildNumber'' (show_nat bn) @ [XmlEnd] @
     enc_elem ''lastUpdated'' lu @ [XmlStart ''snapshotVersions'']"
  let ?s = "parser_init\<lparr>sp_path := entries_path, sp_version := Some v, sp_snap_ts := Some ts,
      sp_snap_build := Some bn, sp_last_updated := Some lu\<rparr>"
  have "run_events ?pre parser_init = Inr ?s"
    using assms by (simp add: parser_init_def enc_elem_def close_element_def trim_trimmed_id
        show_nat_trimmed parse_uint_show_nat)
  moreover have "run_events (concat (map enc_entry entries)) ?s = Inr (?s\<lparr>sp_info := entries\<rparr>)"
    using run_entries [OF assms(5), of ?s] by (simp add: entry_state_def parser_init_def)
  moreover have "run_events [XmlEnd, XmlEnd, XmlEnd] (?s\<lparr>sp_info := entries\<rparr>) =
      Inr (?s\<lparr>sp_info := entries, sp_path := []\<rparr>)"
    by (simp add: close_element_def parser_init_def)
  moreover have "?s\<lparr>sp_info := entries, sp_path := []\<rparr> = parser_init\<lparr>sp_version := Some v, sp_snap_ts := Some ts,
      sp_snap_build := Some bn, sp_last_updated := Some lu, sp_info := entries\<rparr>"
    by (simp add: parser_init_def)
  ultimately show ?thesis
    unfolding enc_document_def by (simp only: append_assoc [symmetric] run_events_append rbind_simps)
qed



text \<open>Reading snapshot metadata can panic: for a \<open><version>\<close> whose ninth byte from the end
  lies inside a multi-byte character, taking the suffix to compare with \<open>-SNAPSHOT\<close> slices
  in the middle of that character.\<close>

theorem snapshot_suffix_panics:
  "strip_snapshot_suffix ([CHR 0xC3, CHR 0xA9] @ ''12345678'') = None \<and>
   parse_snapshot_metadata (enc_document ([CHR 0xC3, CHR 0xA9] @ ''12345678'') ''20240101.123456'' 7 [] []) = Inr None"
proof -
  let ?v = "[CHR 0xC3, CHR 0xA9] @ ''12345678''"
  have strip: "strip_snapshot_suffix ?v = None" by code_simp
  have "trimmed ?v" "trimmed ''20240101.123456''" "trimmed []" "list_all entry_ok []" by code_simp+
  from run_document [OF this(1-3) _ this(4), of 7] strip show ?thesis
    by (simp add: parse_snapshot_metadata_def finish_snapshot_def)
qed

end
