(* ===== verification/PomEffective.thy ===== *)
theory PomEffective
  imports PomRaw
begin

text \<open>
  Parent-chain merge and property interpolation
  (\<open>crates/barista-pom/src/effective.rs\<close>).

  \<^item> The \<open>ParentResolver\<close> trait object is a parameter \<open>resolver\<close>, a function from the parent
    declaration to a POM or an error text; the process environment read by \<open>${env.X}\<close> is a
    parameter \<open>env\<close>.
  \<^item> The functions that take \<open>&mut Vec<Interpolation>\<close> and return \<open>Result\<close> are values of a
    state-and-error type \<open>interp_m\<close>; \<open>ibind\<close> is sequencing with \<open>?\<close>.
  \<^item> \<open>String::push(byte as char)\<close> in \<open>pass\<close> appends the UTF-8 encoding of the code point with
    that byte's value: one byte for ASCII, two bytes from \<open>0x80\<close> on (\<open>utf8_of_byte\<close>).
  \<^item> An error's \<open>location\<close> text, the debug print of the location, is the location itself.
\<close>

definition MAX_CHAIN_DEPTH :: nat where
  "MAX_CHAIN_DEPTH = 10"

definition MAX_INTERPOLATION_DEPTH :: nat where
  "MAX_INTERPOLATION_DEPTH = 10"

datatype location =
    LocProperty string
  | LocDependencyVersion string string
  | LocPluginVersion string string
  | LocPomField string
  | LocPluginConfiguration string string
  | LocRepositoryUrl string
  | LocOther string

record interpolation =
  ip_placeholder :: string
  ip_resolved_to :: string
  ip_location :: location

record effective_pom =
  eff_pom :: raw_pom
  eff_interpolations :: "interpolation list"
  eff_parent_chain :: "raw_pom list"

fun is_strict :: "location \<Rightarrow> bool" where
  "is_strict (LocProperty _) = False"
| "is_strict (LocPluginConfiguration _ _) = False"
| "is_strict (LocDependencyVersion _ _) = True"
| "is_strict (LocPluginVersion _ _) = True"
| "is_strict (LocPomField _) = True"
| "is_strict (LocRepositoryUrl _) = True"
| "is_strict (LocOther _) = True"

datatype effective_error =
    ParentResolution string string
  | ChainTooDeep nat
  | CircularParent string
  | UnresolvedPlaceholder string location

type_synonym parent_resolver = "raw_parent \<Rightarrow> (raw_pom, string) result"

section \<open>Parent chain\<close>

type_synonym gav = "string \<times> string \<times> string"

definition gav_str :: "gav \<Rightarrow> string" where
  "gav_str c = (case c of (g, a, v) \<Rightarrow> g @ '':'' @ a @ '':'' @ v)"

definition parent_gav :: "raw_parent \<Rightarrow> gav" where
  "parent_gav p = (par_group_id p, par_artifact_id p, par_version p)"

definition or_else :: "'a option \<Rightarrow> 'a option \<Rightarrow> 'a option" where
  "or_else a b = (case a of None \<Rightarrow> b | Some x \<Rightarrow> Some x)"

definition unwrap_or :: "'a option \<Rightarrow> 'a \<Rightarrow> 'a" where
  "unwrap_or a d = (case a of None \<Rightarrow> d | Some x \<Rightarrow> x)"

definition pom_coords :: "raw_pom \<Rightarrow> gav" where
  "pom_coords p =
     (unwrap_or (or_else (pom_group_id p) (map_option par_group_id (pom_parent p))) [],
      pom_artifact_id p,
      unwrap_or (or_else (pom_version p) (map_option par_version (pom_parent p))) [])"

function chain_loop ::
    "parent_resolver \<Rightarrow> raw_parent option \<Rightarrow> gav list \<Rightarrow> raw_pom list \<Rightarrow> (raw_pom list, effective_error) result" where
  "chain_loop resolver current seen chain =
     (case current of
        None \<Rightarrow> Inr chain
      | Some p \<Rightarrow>
          if length chain \<ge> MAX_CHAIN_DEPTH then Inl (ChainTooDeep MAX_CHAIN_DEPTH)
          else if parent_gav p \<in> set seen then Inl (CircularParent (gav_str (parent_gav p)))
          else rbind (map_err (ParentResolution (gav_str (parent_gav p))) (resolver p)) (\<lambda>parent_pom.
               chain_loop resolver (pom_parent parent_pom) (parent_gav p # seen) (chain @ [parent_pom])))"
  by pat_completeness auto
termination
  by (relation "measure (\<lambda>(r, c, s, chain). MAX_CHAIN_DEPTH - length chain)") auto

declare chain_loop.simps [simp del]

definition collect_parent_chain :: "parent_resolver \<Rightarrow> raw_pom \<Rightarrow> (raw_pom list, effective_error) result" where
  "collect_parent_chain resolver root = chain_loop resolver (pom_parent root) [pom_coords root] []"

section \<open>Merge\<close>

definition merge_properties :: "properties \<Rightarrow> properties \<Rightarrow> properties" where
  "merge_properties parent child =
     fold (\<lambda>(k, v). im_insert k v) child (fold (\<lambda>(k, v). im_insert k v) parent [])"

fun merge_dependency_management ::
    "raw_dependency list option \<Rightarrow> raw_dependency list option \<Rightarrow> raw_dependency list option" where
  "merge_dependency_management None None = None"
| "merge_dependency_management (Some p) None = Some p"
| "merge_dependency_management None (Some c) = Some c"
| "merge_dependency_management (Some p) (Some c) = Some (p @ c)"

definition is_plugin_inheritable :: "raw_plugin \<Rightarrow> bool" where
  "is_plugin_inheritable p \<longleftrightarrow> plg_inherited p \<noteq> Some ''false''"

fun merge_plugin_management ::
    "raw_plugin list option \<Rightarrow> raw_plugin list option \<Rightarrow> raw_plugin list option" where
  "merge_plugin_management None None = None"
| "merge_plugin_management (Some p) None = Some (filter is_plugin_inheritable p)"
| "merge_plugin_management None (Some c) = Some c"
| "merge_plugin_management (Some p) (Some c) = Some (filter is_plugin_inheritable p @ c)"

fun merge_build :: "raw_build option \<Rightarrow> raw_build option \<Rightarrow> raw_build option" where
  "merge_build None None = None"
| "merge_build (Some p) None =
     Some (p\<lparr>bld_plugins := filter is_plugin_inheritable (bld_plugins p),
             bld_plugin_management := map_option (filter is_plugin_inheritable) (bld_plugin_management p)\<rparr>)"
| "merge_build None (Some c) = Some c"
| "merge_build (Some p) (Some c) =
     Some \<lparr>bld_source_directory = or_else (bld_source_directory c) (bld_source_directory p),
       bld_script_source_directory = or_else (bld_script_source_directory c) (bld_script_source_directory p),
       bld_test_source_directory = or_else (bld_test_source_directory c) (bld_test_source_directory p),
       bld_output_directory = or_else (bld_output_directory c) (bld_output_directory p),
       bld_test_output_directory = or_else (bld_test_output_directory c) (bld_test_output_directory p),
       bld_final_name = or_else (bld_final_name c) (bld_final_name p),
       bld_default_goal = or_else (bld_default_goal c) (bld_default_goal p),
       bld_directory = or_else (bld_directory c) (bld_directory p),
       bld_filters = bld_filters p @ bld_filters c,
       bld_resources = bld_resources p @ bld_resources c,
       bld_test_resources = bld_test_resources p @ bld_test_resources c,
       bld_plugins = filter is_plugin_inheritable (bld_plugins p) @ bld_plugins c,
       bld_plugin_management = merge_plugin_management (bld_plugin_management p) (bld_plugin_management c)\<rparr>"

fun keep_parent_repos :: "string list \<Rightarrow> raw_repository list \<Rightarrow> raw_repository list" where
  "keep_parent_repos child_ids [] = []"
| "keep_parent_repos child_ids (r # rs) =
     (case repo_id r of
        Some i \<Rightarrow> if i \<in> set child_ids then keep_parent_repos child_ids rs
                  else r # keep_parent_repos child_ids rs
      | None \<Rightarrow> r # keep_parent_repos child_ids rs)"

fun add_child_repos :: "string list \<Rightarrow> raw_repository list \<Rightarrow> raw_repository list" where
  "add_child_repos seen_ids [] = []"
| "add_child_repos seen_ids (r # rs) =
     (case repo_id r of
        Some i \<Rightarrow> if i \<in> set seen_ids then add_child_repos seen_ids rs
                  else r # add_child_repos (i # seen_ids) rs
      | None \<Rightarrow> r # add_child_repos seen_ids rs)"

definition repo_ids :: "raw_repository list \<Rightarrow> string list" where
  "repo_ids rs = List.map_filter repo_id rs"

definition merge_repositories :: "raw_repository list \<Rightarrow> raw_repository list \<Rightarrow> raw_repository list" where
  "merge_repositories parent child =
     (let kept = keep_parent_repos (repo_ids child) parent
      in kept @ add_child_repos (repo_ids kept) child)"

definition merge_pom :: "raw_pom \<Rightarrow> raw_pom \<Rightarrow> raw_pom" where
  "merge_pom parent child =
     child\<lparr>pom_group_id := or_else (pom_group_id child) (pom_group_id parent),
       pom_version := or_else (pom_version child) (pom_version parent),
       pom_packaging := (if pom_packaging child = ''jar'' \<and> pom_packaging parent \<noteq> ''jar''
                         then pom_packaging parent else pom_packaging child),
       pom_name := or_else (pom_name child) (pom_name parent),
       pom_description := or_else (pom_description child) (pom_description parent),
       pom_url := or_else (pom_url child) (pom_url parent),
       pom_inception_year := or_else (pom_inception_year child) (pom_inception_year parent),
       pom_properties := merge_properties (pom_properties parent) (pom_properties child),
       pom_dependencies := pom_dependencies parent @ pom_dependencies child,
       pom_dependency_management :=
         merge_dependency_management (pom_dependency_management parent) (pom_dependency_management child),
       pom_build := merge_build (pom_build parent) (pom_build child),
       pom_profiles := pom_profiles parent @ pom_profiles child,
       pom_repositories := merge_repositories (pom_repositories parent) (pom_repositories child),
       pom_plugin_repositories :=
         merge_repositories (pom_plugin_repositories parent) (pom_plugin_repositories child)\<rparr>"

text \<open>The fold of \<open>build_effective\<close> from the most distant ancestor down to the input POM.\<close>

definition merge_chain :: "raw_pom list \<Rightarrow> raw_pom \<Rightarrow> raw_pom" where
  "merge_chain parent_chain root =
     (let acc = (case rev parent_chain of [] \<Rightarrow> default_pom | p # ps \<Rightarrow> fold (\<lambda>next acc. merge_pom acc next) ps p)
      in if parent_chain = [] then root else merge_pom acc root)"

section \<open>Placeholder lookup\<close>

record project_context =
  ctx_group_id :: "string option"
  ctx_artifact_id :: string
  ctx_version :: "string option"
  ctx_parent_group_id :: "string option"
  ctx_parent_artifact_id :: "string option"
  ctx_parent_version :: "string option"

definition context_from_pom :: "raw_pom \<Rightarrow> project_context" where
  "context_from_pom pom =
     (let parent = pom_parent pom in
      \<lparr>ctx_group_id = or_else (pom_group_id pom) (map_option par_group_id parent),
       ctx_artifact_id = pom_artifact_id pom,
       ctx_version = or_else (pom_version pom) (map_option par_version parent),
       ctx_parent_group_id = map_option par_group_id parent,
       ctx_parent_artifact_id = map_option par_artifact_id parent,
       ctx_parent_version = map_option par_version parent\<rparr>)"

record placeholder_resolver =
  res_ctx :: project_context
  res_props :: properties
  res_env :: "string \<Rightarrow> string option"

definition lookup_project :: "placeholder_resolver \<Rightarrow> string \<Rightarrow> string option" where
  "lookup_project r rest =
     (let ctx = res_ctx r in
      if rest = ''groupId'' then ctx_group_id ctx
      else if rest = ''artifactId'' then Some (ctx_artifact_id ctx)
      else if rest = ''version'' then ctx_version ctx
      else if rest = ''parent.groupId'' then ctx_parent_group_id ctx
      else if rest = ''parent.artifactId'' then ctx_parent_artifact_id ctx
      else if rest = ''parent.version'' then ctx_parent_version ctx
      else if rest = ''basedir'' then Some []
      else None)"

definition res_lookup :: "placeholder_resolver \<Rightarrow> string \<Rightarrow> string option" where
  "res_lookup r key =
     (case strip_prefix key ''project.'' of
        Some rest \<Rightarrow> lookup_project r rest
      | None \<Rightarrow>
          (case strip_prefix key ''env.'' of
             Some name \<Rightarrow> res_env r name
           | None \<Rightarrow> if starts_with key ''settings.'' then None else im_get (res_props r) key))"


section \<open>String interpolation\<close>

type_synonym 'a interp_m = "interpolation list \<Rightarrow> ('a \<times> interpolation list, effective_error) result"

definition iret :: "'a \<Rightarrow> 'a interp_m" where
  "iret x log = Inr (x, log)"

definition ibind :: "'a interp_m \<Rightarrow> ('a \<Rightarrow> 'b interp_m) \<Rightarrow> 'b interp_m" where
  "ibind m f log = rbind (m log) (\<lambda>(x, log'). f x log')"

fun imap :: "('a \<Rightarrow> 'b interp_m) \<Rightarrow> 'a list \<Rightarrow> 'b list interp_m" where
  "imap f [] = iret []"
| "imap f (x # xs) = ibind (f x) (\<lambda>y. ibind (imap f xs) (\<lambda>ys. iret (y # ys)))"

definition iopt :: "('a \<Rightarrow> 'b interp_m) \<Rightarrow> 'a option \<Rightarrow> 'b option interp_m" where
  "iopt f a = (case a of None \<Rightarrow> iret None | Some x \<Rightarrow> ibind (f x) (\<lambda>y. iret (Some y)))"

definition utf8_of_byte :: "char \<Rightarrow> string" where
  "utf8_of_byte c =
     (let b = byte_of c in
      if b < 0x80 then [c] else [char_of (0xC0 + b div 64), char_of (0x80 + b mod 64)])"

text \<open>The text after the first \<open>${\<close>, if there is one.\<close>

fun after_open :: "string \<Rightarrow> string option" where
  "after_open (c # d # cs) = (if c = CHR ''$'' \<and> d = CHR ''{'' then Some cs else after_open (d # cs))"
| "after_open _ = None"

definition contains_open :: "string \<Rightarrow> bool" where
  "contains_open s \<longleftrightarrow> after_open s \<noteq> None"

definition placeholder :: "string \<Rightarrow> string" where
  "placeholder key = ''${'' @ key @ ''}''"

definition first_placeholder :: "string \<Rightarrow> string option" where
  "first_placeholder s =
     (case after_open s of
        None \<Rightarrow> None
      | Some r \<Rightarrow> (case split_once (CHR ''}'') r of None \<Rightarrow> None | Some (key, _) \<Rightarrow> Some (placeholder key)))"

text \<open>The key and the rest when a terminated \<open>${...}\<close> starts here.\<close>

definition split_placeholder :: "string \<Rightarrow> (string \<times> string) option" where
  "split_placeholder s =
     (case s of c # d # cs \<Rightarrow> if c = CHR ''$'' \<and> d = CHR ''{'' then split_once (CHR ''}'') cs else None
      | _ \<Rightarrow> None)"

lemma split_placeholder_length: "split_placeholder s = Some (key, rest) \<Longrightarrow> length rest < length s"
  by (auto simp: split_placeholder_def split: list.splits if_splits dest: split_once_Some)

function pass :: "placeholder_resolver \<Rightarrow> location \<Rightarrow> string \<Rightarrow> (string \<times> bool) interp_m" where
  "pass r loc [] log = Inr (([], False), log)"
| "pass r loc (c # cs) log =
     (case split_placeholder (c # cs) of
        Some (key, rest) \<Rightarrow>
          (case res_lookup r key of
             Some v \<Rightarrow>
               rbind (pass r loc rest
                   (log @ [\<lparr>ip_placeholder = placeholder key, ip_resolved_to = v, ip_location = loc\<rparr>]))
                 (\<lambda>((out, fired), log'). Inr ((v @ out, True), log'))
           | None \<Rightarrow>
               if is_strict loc then Inl (UnresolvedPlaceholder (placeholder key) loc)
               else rbind (pass r loc rest log) (\<lambda>((out, fired), log').
                    Inr ((placeholder key @ out, fired), log')))
      | None \<Rightarrow>
          rbind (pass r loc cs log) (\<lambda>((out, fired), log'). Inr ((utf8_of_byte c @ out, fired), log')))"
  by pat_completeness auto
termination
  by (relation "measure (\<lambda>(r, loc, cs, log). length cs)") (auto dest: split_placeholder_length)

fun interp_loop :: "nat \<Rightarrow> placeholder_resolver \<Rightarrow> location \<Rightarrow> string \<Rightarrow> string interp_m" where
  "interp_loop 0 r loc current log =
     Inl (UnresolvedPlaceholder (unwrap_or (first_placeholder current) current) loc)"
| "interp_loop (Suc n) r loc current log =
     rbind (pass r loc current log) (\<lambda>((next, fired), log').
       if \<not> fired then Inr (next, log')
       else if \<not> contains_open next then Inr (next, log')
       else if next = current
            then Inl (UnresolvedPlaceholder (unwrap_or (first_placeholder next) next) loc)
       else interp_loop n r loc next log')"

definition interp :: "placeholder_resolver \<Rightarrow> location \<Rightarrow> string \<Rightarrow> string interp_m" where
  "interp r loc input log =
     (if \<not> contains_open input then Inr (input, log)
      else interp_loop MAX_INTERPOLATION_DEPTH r loc input log)"

definition interp_opt :: "placeholder_resolver \<Rightarrow> location \<Rightarrow> string option \<Rightarrow> string option interp_m" where
  "interp_opt r loc target = iopt (interp r loc) target"

section \<open>Interpolation of the POM\<close>

fun interp_xml_value :: "placeholder_resolver \<Rightarrow> location \<Rightarrow> xml_value \<Rightarrow> xml_value interp_m"
  and interp_xml_list :: "placeholder_resolver \<Rightarrow> location \<Rightarrow> xml_value list \<Rightarrow> xml_value list interp_m"
  and interp_xml_groups ::
    "placeholder_resolver \<Rightarrow> location \<Rightarrow> (string \<times> xml_value list) list \<Rightarrow> (string \<times> xml_value list) list interp_m" where
  "interp_xml_value r loc (XmlValue attrs t groups) =
     ibind (interp_opt r loc t) (\<lambda>t'.
     ibind (imap (\<lambda>(k, va). ibind (interp r loc va) (\<lambda>va'. iret (k, va'))) attrs) (\<lambda>attrs'.
     ibind (interp_xml_groups r loc groups) (\<lambda>groups'. iret (XmlValue attrs' t' groups'))))"
| "interp_xml_list r loc [] = iret []"
| "interp_xml_list r loc (v # vs) =
     ibind (interp_xml_value r loc v) (\<lambda>v'. ibind (interp_xml_list r loc vs) (\<lambda>vs'. iret (v' # vs')))"
| "interp_xml_groups r loc [] = iret []"
| "interp_xml_groups r loc ((k, vs) # gs) =
     ibind (interp_xml_list r loc vs) (\<lambda>vs'. ibind (interp_xml_groups r loc gs) (\<lambda>gs'. iret ((k, vs') # gs')))"

definition interp_exclusion :: "placeholder_resolver \<Rightarrow> location \<Rightarrow> raw_exclusion \<Rightarrow> raw_exclusion interp_m" where
  "interp_exclusion r loc x =
     ibind (interp r loc (exc_group_id x)) (\<lambda>g.
     ibind (interp r loc (exc_artifact_id x)) (\<lambda>a.
     iret (x\<lparr>exc_group_id := g, exc_artifact_id := a\<rparr>)))"

definition interp_dependency :: "placeholder_resolver \<Rightarrow> raw_dependency \<Rightarrow> raw_dependency interp_m" where
  "interp_dependency r d =
     (let loc = LocDependencyVersion (dep_group_id d) (dep_artifact_id d) in
      ibind (interp r loc (dep_group_id d)) (\<lambda>g.
      ibind (interp r loc (dep_artifact_id d)) (\<lambda>a.
      ibind (interp_opt r loc (dep_version d)) (\<lambda>v.
      ibind (interp_opt r loc (dep_scope d)) (\<lambda>sc.
      ibind (interp_opt r loc (dep_classifier d)) (\<lambda>cl.
      ibind (interp_opt r loc (dep_type d)) (\<lambda>ty.
      ibind (interp_opt r loc (dep_system_path d)) (\<lambda>sp.
      ibind (interp_opt r loc (dep_optional d)) (\<lambda>op.
      ibind (imap (interp_exclusion r loc) (dep_exclusions d)) (\<lambda>ex.
      iret \<lparr>dep_group_id = g, dep_artifact_id = a, dep_version = v, dep_scope = sc,
            dep_classifier = cl, dep_type = ty, dep_system_path = sp, dep_optional = op,
            dep_exclusions = ex\<rparr>))))))))))"

definition interp_plugin_execution ::
    "placeholder_resolver \<Rightarrow> location \<Rightarrow> raw_plugin_execution \<Rightarrow> raw_plugin_execution interp_m" where
  "interp_plugin_execution r cfg_loc e =
     ibind (interp_opt r cfg_loc (exe_id e)) (\<lambda>i.
     ibind (interp_opt r cfg_loc (exe_phase e)) (\<lambda>p.
     ibind (imap (interp r cfg_loc) (exe_goals e)) (\<lambda>gs.
     ibind (iopt (interp_xml_value r cfg_loc) (exe_configuration e)) (\<lambda>cfg.
     iret (e\<lparr>exe_id := i, exe_phase := p, exe_goals := gs, exe_configuration := cfg\<rparr>)))))"

definition interp_plugin :: "placeholder_resolver \<Rightarrow> raw_plugin \<Rightarrow> raw_plugin interp_m" where
  "interp_plugin r p =
     (let loc = LocPluginVersion (plg_group_id p) (plg_artifact_id p) in
      ibind (interp r loc (plg_group_id p)) (\<lambda>g.
      ibind (interp r loc (plg_artifact_id p)) (\<lambda>a.
      ibind (interp_opt r loc (plg_version p)) (\<lambda>v.
      let cfg_loc = LocPluginConfiguration g a in
      ibind (iopt (interp_xml_value r cfg_loc) (plg_configuration p)) (\<lambda>cfg.
      ibind (imap (interp_dependency r) (plg_dependencies p)) (\<lambda>ds.
      ibind (imap (interp_plugin_execution r cfg_loc) (plg_executions p)) (\<lambda>es.
      iret (p\<lparr>plg_group_id := g, plg_artifact_id := a, plg_version := v, plg_configuration := cfg,
              plg_dependencies := ds, plg_executions := es\<rparr>))))))))"

definition interp_build :: "placeholder_resolver \<Rightarrow> raw_build \<Rightarrow> raw_build interp_m" where
  "interp_build r b =
     (let loc = LocOther ''build'' in
      ibind (interp_opt r loc (bld_source_directory b)) (\<lambda>sd.
      ibind (interp_opt r loc (bld_script_source_directory b)) (\<lambda>ssd.
      ibind (interp_opt r loc (bld_test_source_directory b)) (\<lambda>tsd.
      ibind (interp_opt r loc (bld_output_directory b)) (\<lambda>od.
      ibind (interp_opt r loc (bld_test_output_directory b)) (\<lambda>tod.
      ibind (interp_opt r loc (bld_final_name b)) (\<lambda>fnm.
      ibind (interp_opt r loc (bld_default_goal b)) (\<lambda>dg.
      ibind (interp_opt r loc (bld_directory b)) (\<lambda>dir.
      ibind (imap (interp_plugin r) (bld_plugins b)) (\<lambda>ps.
      ibind (iopt (imap (interp_plugin r)) (bld_plugin_management b)) (\<lambda>pm.
      iret (b\<lparr>bld_source_directory := sd, bld_script_source_directory := ssd,
              bld_test_source_directory := tsd, bld_output_directory := od,
              bld_test_output_directory := tod, bld_final_name := fnm, bld_default_goal := dg,
              bld_directory := dir, bld_plugins := ps, bld_plugin_management := pm\<rparr>))))))))))))"

definition interp_repository :: "placeholder_resolver \<Rightarrow> raw_repository \<Rightarrow> raw_repository interp_m" where
  "interp_repository r rp =
     (let loc = LocRepositoryUrl (unwrap_or (repo_id rp) ''?'') in
      ibind (interp_opt r loc (repo_id rp)) (\<lambda>i.
      ibind (interp_opt r loc (repo_name rp)) (\<lambda>n.
      ibind (interp_opt r loc (repo_url rp)) (\<lambda>u.
      ibind (interp_opt r loc (repo_layout rp)) (\<lambda>l.
      iret (rp\<lparr>repo_id := i, repo_name := n, repo_url := u, repo_layout := l\<rparr>))))))"

definition interp_profile :: "placeholder_resolver \<Rightarrow> raw_profile \<Rightarrow> raw_profile interp_m" where
  "interp_profile r pr =
     (let loc = LocOther (''profile['' @ unwrap_or (prf_id pr) ''?'' @ '']'') in
      ibind (interp_opt r loc (prf_id pr)) (\<lambda>i.
      ibind (imap (interp_dependency r) (prf_dependencies pr)) (\<lambda>ds.
      ibind (iopt (imap (interp_dependency r)) (prf_dependency_management pr)) (\<lambda>dm.
      ibind (iopt (interp_build r) (prf_build pr)) (\<lambda>b.
      ibind (imap (interp_repository r) (prf_repositories pr)) (\<lambda>rs.
      ibind (imap (interp_repository r) (prf_plugin_repositories pr)) (\<lambda>prs.
      iret (pr\<lparr>prf_id := i, prf_dependencies := ds, prf_dependency_management := dm, prf_build := b,
               prf_repositories := rs, prf_plugin_repositories := prs\<rparr>))))))))"

text \<open>\<open>new_props.insert(k, v2)\<close> for every entry of the snapshot.\<close>

fun interp_properties :: "placeholder_resolver \<Rightarrow> properties \<Rightarrow> properties \<Rightarrow> properties interp_m" where
  "interp_properties r [] new_props = iret new_props"
| "interp_properties r ((k, v) # kvs) new_props =
     ibind (interp r (LocProperty k) v) (\<lambda>v2. interp_properties r kvs (im_insert k v2 new_props))"

definition pom_resolver :: "(string \<Rightarrow> string option) \<Rightarrow> raw_pom \<Rightarrow> placeholder_resolver" where
  "pom_resolver env pom =
     \<lparr>res_ctx = context_from_pom pom, res_props = pom_properties pom, res_env = env\<rparr>"

definition interpolate_pom :: "(string \<Rightarrow> string option) \<Rightarrow> raw_pom \<Rightarrow> raw_pom interp_m" where
  "interpolate_pom env pom =
     (let r = pom_resolver env pom in
      ibind (interp_properties r (pom_properties pom) []) (\<lambda>props.
      ibind (interp_opt r (LocPomField ''groupId'') (pom_group_id pom)) (\<lambda>g.
      ibind (interp_opt r (LocPomField ''version'') (pom_version pom)) (\<lambda>v.
      ibind (interp_opt r (LocPomField ''name'') (pom_name pom)) (\<lambda>n.
      ibind (interp_opt r (LocPomField ''description'') (pom_description pom)) (\<lambda>d.
      ibind (interp_opt r (LocPomField ''url'') (pom_url pom)) (\<lambda>u.
      ibind (interp_opt r (LocPomField ''inceptionYear'') (pom_inception_year pom)) (\<lambda>iy.
      ibind (imap (interp_dependency r) (pom_dependencies pom)) (\<lambda>ds.
      ibind (iopt (imap (interp_dependency r)) (pom_dependency_management pom)) (\<lambda>dm.
      ibind (iopt (interp_build r) (pom_build pom)) (\<lambda>b.
      ibind (imap (interp_profile r) (pom_profiles pom)) (\<lambda>prfs.
      ibind (imap (interp_repository r) (pom_repositories pom)) (\<lambda>rs.
      ibind (imap (interp_repository r) (pom_plugin_repositories pom)) (\<lambda>prs.
      iret (pom\<lparr>pom_properties := props, pom_group_id := g, pom_version := v, pom_name := n,
                pom_description := d, pom_url := u, pom_inception_year := iy,
                pom_dependencies := ds, pom_dependency_management := dm, pom_build := b,
                pom_profiles := prfs, pom_repositories := rs, pom_plugin_repositories := prs\<rparr>)))))))))))))))"

definition build_effective ::
    "parent_resolver \<Rightarrow> (string \<Rightarrow> string option) \<Rightarrow> raw_pom \<Rightarrow> (effective_pom, effective_error) result" where
  "build_effective resolver env root =
     rbind (collect_parent_chain resolver root) (\<lambda>parent_chain.
     rbind (interpolate_pom env (merge_chain parent_chain root) []) (\<lambda>(pom, log).
     Inr \<lparr>eff_pom = pom\<lparr>pom_parent := None\<rparr>, eff_interpolations = log,
          eff_parent_chain = parent_chain\<rparr>))"


section \<open>The parent chain\<close>

text \<open>A chain is linked when each POM is what the resolver returns for the declaration before it
  and the last one declares no parent; \<open>declared_gavs\<close> are the declarations followed.\<close>

fun linked :: "parent_resolver \<Rightarrow> raw_parent option \<Rightarrow> raw_pom list \<Rightarrow> bool" where
  "linked resolver None [] = True"
| "linked resolver (Some p) (q # qs) = (resolver p = Inr q \<and> linked resolver (pom_parent q) qs)"
| "linked resolver _ _ = False"

fun declared_gavs :: "raw_parent option \<Rightarrow> raw_pom list \<Rightarrow> gav list" where
  "declared_gavs (Some p) (q # qs) = parent_gav p # declared_gavs (pom_parent q) qs"
| "declared_gavs _ _ = []"

lemma linked_Some_iff:
  "linked resolver (Some p) ext \<longleftrightarrow>
     (\<exists>q qs. ext = q # qs \<and> resolver p = Inr q \<and> linked resolver (pom_parent q) qs)"
  by (cases ext) auto

lemma chain_loop_None: "chain_loop resolver None seen chain = Inr chain"
  by (subst chain_loop.simps) simp

lemma chain_loop_Some:
  "chain_loop resolver (Some p) seen chain =
     (if length chain \<ge> MAX_CHAIN_DEPTH then Inl (ChainTooDeep MAX_CHAIN_DEPTH)
      else if parent_gav p \<in> set seen then Inl (CircularParent (gav_str (parent_gav p)))
      else rbind (map_err (ParentResolution (gav_str (parent_gav p))) (resolver p)) (\<lambda>parent_pom.
           chain_loop resolver (pom_parent parent_pom) (parent_gav p # seen) (chain @ [parent_pom])))"
  by (subst chain_loop.simps) simp

lemma chain_loop_iff:
  "length acc \<le> MAX_CHAIN_DEPTH \<Longrightarrow>
   chain_loop resolver cur seen acc = Inr res \<longleftrightarrow>
     (\<exists>ext. res = acc @ ext \<and> linked resolver cur ext \<and> length acc + length ext \<le> MAX_CHAIN_DEPTH \<and>
        distinct (declared_gavs cur ext) \<and> set (declared_gavs cur ext) \<inter> set seen = {})"
proof (induction resolver cur seen acc rule: chain_loop.induct)
  case (1 resolver cur seen acc)
  show ?case
  proof (cases cur)
    case None
    have "linked resolver None ext \<longleftrightarrow> ext = []" for ext by (cases ext) auto
    then show ?thesis using None 1(2) by (auto simp: chain_loop_None)
  next
    case (Some p)
    consider "length acc \<ge> MAX_CHAIN_DEPTH" | "length acc < MAX_CHAIN_DEPTH" "parent_gav p \<in> set seen"
      | e where "length acc < MAX_CHAIN_DEPTH" "parent_gav p \<notin> set seen" "resolver p = Inl e"
      | q where "length acc < MAX_CHAIN_DEPTH" "parent_gav p \<notin> set seen" "resolver p = Inr q"
      by (meson not_less sum.exhaust)
    then show ?thesis
    proof cases
      case 4
      have IH: "chain_loop resolver (pom_parent q) (parent_gav p # seen) (acc @ [q]) = Inr res \<longleftrightarrow>
          (\<exists>ext. res = (acc @ [q]) @ ext \<and> linked resolver (pom_parent q) ext \<and>
             length (acc @ [q]) + length ext \<le> MAX_CHAIN_DEPTH \<and> distinct (declared_gavs (pom_parent q) ext) \<and>
             set (declared_gavs (pom_parent q) ext) \<inter> set (parent_gav p # seen) = {})"
        using 1(1) [OF Some] 4 by simp
      have step: "chain_loop resolver cur seen acc =
          chain_loop resolver (pom_parent q) (parent_gav p # seen) (acc @ [q])"
        using 4 Some by (simp add: chain_loop_Some)
      show ?thesis unfolding step IH using 4 Some by (auto simp: linked_Some_iff)
    qed (auto simp: Some chain_loop_Some linked_Some_iff)
  qed
qed

text \<open>C12. The parent walk returns exactly the linked chain of parents, and it does so exactly
  when that chain has at most ten POMs and no declaration in it repeats another one or the
  coordinates of the input POM; in every other case it is an error.\<close>

theorem parent_chain_iff:
  "collect_parent_chain resolver root = Inr chain \<longleftrightarrow>
     linked resolver (pom_parent root) chain \<and> length chain \<le> 10 \<and>
     distinct (pom_coords root # declared_gavs (pom_parent root) chain)"
  using chain_loop_iff [of "[]" resolver "pom_parent root" "[pom_coords root]" chain]
  by (auto simp: collect_parent_chain_def MAX_CHAIN_DEPTH_def)

section \<open>Inheritance\<close>

fun first_some :: "'a option list \<Rightarrow> 'a option" where
  "first_some [] = None"
| "first_some (x # xs) = or_else x (first_some xs)"

lemma or_else_None [simp]: "or_else x None = x"
  by (cases x) (auto simp: or_else_def)

lemma merge_chain_Nil [simp]: "merge_chain [] root = root"
  by (simp add: merge_chain_def)

lemma merge_chain_Cons: "merge_chain (q # chain) root = merge_pom (merge_chain chain q) root"
proof (cases "rev chain")
  case Nil
  then show ?thesis by (simp add: merge_chain_def)
next
  case (Cons p ps)
  then have "chain \<noteq> []" by auto
  then show ?thesis by (simp add: merge_chain_def Cons)
qed

lemma map_of_rev: "im_wf m \<Longrightarrow> map_of (rev m) = map_of m"
  unfolding im_wf_def by (metis map_of_inject_set distinct_rev rev_map set_rev)

lemma im_wf_fold_put [simp]: "im_wf m \<Longrightarrow> im_wf (fold (\<lambda>(k, v). im_insert k v) kvs m)"
  by (induction kvs arbitrary: m) auto

lemma merge_properties_get:
  assumes "im_wf parent" "im_wf child"
  shows "im_get (merge_properties parent child) k = or_else (im_get child k) (im_get parent k)"
  unfolding merge_properties_def im.get_fold_put map_of_rev [OF assms(1)] map_of_rev [OF assms(2)]
  by (simp add: or_else_def im_get_def split: option.splits)

lemma merge_properties_wf: "im_wf (merge_properties parent child)"
  by (simp add: merge_properties_def im_wf_def [of "[]"])

lemma merge_chain_wf:
  "im_wf (pom_properties root) \<Longrightarrow> im_wf (pom_properties (merge_chain chain root))"
  by (cases chain) (simp_all add: merge_chain_Cons merge_pom_def merge_properties_wf)

text \<open>C16. Inheritance is nearest-wins: after merging the parent chain, a property has the
  value of the nearest POM that defines it, group id and version come from the nearest POM
  that declares one, and the dependencies are those of the most distant ancestor first.\<close>

theorem merge_chain_nearest:
  assumes "\<forall>p \<in> set (root # chain). im_wf (pom_properties p)"
  shows "im_get (pom_properties (merge_chain chain root)) k =
      first_some (map (\<lambda>p. im_get (pom_properties p) k) (root # chain)) \<and>
    pom_version (merge_chain chain root) = first_some (map pom_version (root # chain)) \<and>
    pom_group_id (merge_chain chain root) = first_some (map pom_group_id (root # chain)) \<and>
    pom_dependencies (merge_chain chain root) = concat (map pom_dependencies (rev (root # chain)))"
  using assms
proof (induction chain arbitrary: root)
  case (Cons q chain)
  then have "im_wf (pom_properties (merge_chain chain q))" by (simp add: merge_chain_wf)
  with Cons show ?case
    by (simp add: merge_chain_Cons merge_pom_def merge_properties_get)
qed simp


theorem merge_chain_nearest_witness:
  "im_get (pom_properties (merge_chain
      [default_pom\<lparr>pom_version := Some ''9'', pom_properties := [(''v'', ''1''), (''w'', ''3'')]\<rparr>]
      (default_pom\<lparr>pom_properties := [(''v'', ''2'')]\<rparr>))) ''v'' = Some ''2''"
proof -
  let ?root = "default_pom\<lparr>pom_properties := [(''v'', ''2'')]\<rparr>"
  let ?chain = "[default_pom\<lparr>pom_version := Some ''9'', pom_properties := [(''v'', ''1''), (''w'', ''3'')]\<rparr>]"
  have "\<forall>p \<in> set (?root # ?chain). im_wf (pom_properties p)"
    by (simp add: im_wf_def)
  from merge_chain_nearest [OF this, of "''v''"]
  have "im_get (pom_properties (merge_chain ?chain ?root)) ''v'' =
      first_some (map (\<lambda>p. im_get (pom_properties p) ''v'') (?root # ?chain))" by blast
  also have "\<dots> = Some ''2''" by (simp add: im_get_def or_else_def)
  finally show ?thesis .
qed

section \<open>Interpolation leaves no placeholder in strict places\<close>

fun no_ph :: "string \<Rightarrow> bool" where
  "no_ph [] = True"
| "no_ph (c # cs) = (split_placeholder (c # cs) = None \<and> no_ph cs)"

abbreviation mangled :: "string \<Rightarrow> string" where
  "mangled s \<equiv> concat (map utf8_of_byte s)"

lemma pass_not_fired:
  "pass r loc s log = Inr ((out, False), log') \<Longrightarrow> is_strict loc \<Longrightarrow> out = mangled s \<and> no_ph s"
proof (induction r loc s log arbitrary: out log' rule: pass.induct)
  case (2 r loc c cs log)
  show ?case
  proof (cases "split_placeholder (c # cs)")
    case None
    with 2 show ?thesis by auto
  next
    case (Some kr)
    then obtain key rest where "split_placeholder (c # cs) = Some (key, rest)" by (cases kr) auto
    with 2(4,5) show ?thesis by (cases "res_lookup r key") auto
  qed
qed auto

lemma utf8_of_byte_cases:
  "utf8_of_byte c = [c] \<or> (\<exists>x y. utf8_of_byte c = [x, y] \<and> byte_of c \<ge> 0x80 \<and>
     byte_of x \<ge> 0x80 \<and> byte_of y \<ge> 0x80)"
proof (cases "byte_of c < 0x80")
  case False
  have "byte_of c < 256" by (simp add: byte_of_def)
  then have "0xC0 + byte_of c div 64 < 256" by auto
  moreover have "0x80 + byte_of c mod 64 < (256 :: nat)"
    using mod_less_divisor [of 64 "byte_of c"] by linarith
  ultimately have "byte_of (char_of (0xC0 + byte_of c div 64)) = 0xC0 + byte_of c div 64"
    "byte_of (char_of (0x80 + byte_of c mod 64)) = 0x80 + byte_of c mod 64"
    unfolding byte_of_def by (simp_all only: of_char_of mod_less)
  then show ?thesis using False by (simp add: utf8_of_byte_def Let_def)
qed (simp add: utf8_of_byte_def)

lemma high_not_ascii: "byte_of c \<ge> 0x80 \<Longrightarrow> c \<noteq> CHR ''$'' \<and> c \<noteq> CHR ''{'' \<and> c \<noteq> CHR ''}''"
  by (auto simp: byte_of_def)

lemma after_open_skip: "c \<noteq> CHR ''$'' \<Longrightarrow> after_open (c # t) = after_open t"
  by (cases t) auto

lemma after_open_mangled: "after_open (mangled s) = map_option mangled (after_open s)"
proof (induction s)
  case (Cons c cs)
  consider "c \<noteq> CHR ''$''" | "c = CHR ''$''" by blast
  then show ?case
  proof cases
    case 1
    then show ?thesis
      using Cons utf8_of_byte_cases [of c] high_not_ascii by (auto simp: after_open_skip)
  next
    case 2
    have u: "utf8_of_byte (CHR ''$'') = ''$''" "utf8_of_byte (CHR ''{'') = ''{''"
      by (simp_all add: utf8_of_byte_def byte_of_def)
    show ?thesis
    proof (cases cs)
      case Nil
      then show ?thesis using 2 u by simp
    next
      case (Cons d ds)
      show ?thesis
      proof (cases "d = CHR ''{''")
        case True
        then show ?thesis using 2 u Cons by simp
      next
        case False
        then have "hd (mangled (d # ds)) \<noteq> CHR ''{''" "mangled (d # ds) \<noteq> []"
          using utf8_of_byte_cases [of d] high_not_ascii by auto
        then have "after_open (CHR ''$'' # mangled (d # ds)) = after_open (mangled (d # ds))"
          by (cases "mangled (d # ds)") auto
        then show ?thesis using 2 u Cons \<open>after_open (mangled cs) = _\<close> False by simp
      qed
    qed
  qed
qed simp

lemma mangled_brace: "CHR ''}'' \<in> set (mangled s) \<longleftrightarrow> CHR ''}'' \<in> set s"
proof (induction s)
  case (Cons c cs)
  have "CHR ''}'' \<in> set (utf8_of_byte c) \<longleftrightarrow> c = CHR ''}''"
    using utf8_of_byte_cases [of c] by (auto dest: high_not_ascii)
  with Cons show ?case by auto
qed simp

lemma no_ph_after_open: "no_ph s \<Longrightarrow> after_open s = Some r \<Longrightarrow> CHR ''}'' \<notin> set r"
  by (induction s rule: after_open.induct)
     (auto simp: split_placeholder_def split_once_None_iff split: if_splits)

lemma no_ph_first_placeholder: "no_ph s \<Longrightarrow> first_placeholder (mangled s) = None"
proof (cases "after_open s")
  case (Some r)
  moreover assume "no_ph s"
  ultimately have "CHR ''}'' \<notin> set (mangled r)" using no_ph_after_open mangled_brace by blast
  then have "split_once (CHR ''}'') (mangled r) = None" by (simp add: split_once_None_iff)
  with Some show ?thesis by (simp add: first_placeholder_def after_open_mangled)
qed (simp add: first_placeholder_def after_open_mangled)

lemma interp_loop_strict:
  "interp_loop n r loc s log = Inr (out, log') \<Longrightarrow> is_strict loc \<Longrightarrow> first_placeholder out = None"
proof (induction n r loc s log rule: interp_loop.induct)
  case (2 n r loc current log)
  from 2(2) obtain nxt fired l where p: "pass r loc current log = Inr ((nxt, fired), l)"
    by (auto simp: rbind_Inr_iff)
  have closed: "\<not> contains_open nxt \<Longrightarrow> first_placeholder nxt = None"
    by (simp add: contains_open_def first_placeholder_def)
  show ?case
  proof (cases fired)
    case True
    with 2 p closed show ?thesis by (auto split: if_splits)
  next
    case False
    with pass_not_fired [of r loc current log nxt l] p 2 show ?thesis
      by (auto simp: no_ph_first_placeholder)
  qed
qed simp

lemma interp_strict:
  "interp r loc s log = Inr (out, log') \<Longrightarrow> is_strict loc \<Longrightarrow> first_placeholder out = None"
  by (auto simp: interp_def contains_open_def first_placeholder_def split: if_splits dest: interp_loop_strict)


lemma ibind_Inr_iff:
  "ibind m f log = Inr (y, log') \<longleftrightarrow> (\<exists>x l. m log = Inr (x, l) \<and> f x l = Inr (y, log'))"
  by (auto simp: ibind_def rbind_Inr_iff)

lemma ibind_InrE [elim!]:
  assumes "ibind m f log = Inr (y, log')"
  obtains x l where "m log = Inr (x, l)" "f x l = Inr (y, log')"
  using assms by (auto simp: ibind_Inr_iff)

lemma iret_Inr_iff [simp]: "iret x log = Inr (y, log') \<longleftrightarrow> y = x \<and> log' = log"
  by (auto simp: iret_def)

lemma imap_all:
  "imap f xs log = Inr (ys, log') \<Longrightarrow> (\<And>x y l l'. f x l = Inr (y, l') \<Longrightarrow> P y) \<Longrightarrow> list_all P ys"
proof (induction xs arbitrary: ys log log')
  case (Cons x xs)
  from Cons.prems(1) obtain y l zs where "f x log = Inr (y, l)" "imap f xs l = Inr (zs, log')" "ys = y # zs"
    by auto
  with Cons.IH [of l zs log'] Cons.prems(2) show ?case by auto
qed simp

lemma iopt_all:
  "iopt f a log = Inr (b, log') \<Longrightarrow> (\<And>x y l l'. f x l = Inr (y, l') \<Longrightarrow> P y) \<Longrightarrow> pred_option P b"
  by (auto simp: iopt_def split: option.splits)

abbreviation resolved :: "string \<Rightarrow> bool" where
  "resolved s \<equiv> first_placeholder s = None"

lemma interp_opt_resolved:
  "interp_opt r loc a log = Inr (b, log') \<Longrightarrow> is_strict loc \<Longrightarrow> pred_option resolved b"
  unfolding interp_opt_def by (erule iopt_all) (rule interp_strict)

definition dep_resolved :: "raw_dependency \<Rightarrow> bool" where
  "dep_resolved d \<longleftrightarrow> resolved (dep_group_id d) \<and> resolved (dep_artifact_id d) \<and>
     pred_option resolved (dep_version d) \<and> pred_option resolved (dep_scope d) \<and>
     pred_option resolved (dep_classifier d) \<and> pred_option resolved (dep_type d) \<and>
     pred_option resolved (dep_system_path d) \<and> pred_option resolved (dep_optional d) \<and>
     list_all (\<lambda>x. resolved (exc_group_id x) \<and> resolved (exc_artifact_id x)) (dep_exclusions d)"

lemma interp_dependency_resolved:
  assumes "interp_dependency r d log = Inr (d', log')"
  shows "dep_resolved d'"
proof -
  let ?loc = "LocDependencyVersion (dep_group_id d) (dep_artifact_id d)"
  have ex: "interp_exclusion r ?loc x l = Inr (y, l') \<Longrightarrow> resolved (exc_group_id y) \<and> resolved (exc_artifact_id y)"
    for x y l l' by (auto simp: interp_exclusion_def dest: interp_strict)
  show ?thesis
    using assms unfolding interp_dependency_def Let_def dep_resolved_def
    by (auto dest: interp_strict interp_opt_resolved elim: imap_all [OF _ ex])
qed

definition repo_resolved :: "raw_repository \<Rightarrow> bool" where
  "repo_resolved r \<longleftrightarrow> pred_option resolved (repo_id r) \<and> pred_option resolved (repo_name r) \<and>
     pred_option resolved (repo_url r) \<and> pred_option resolved (repo_layout r)"

definition plugin_resolved :: "raw_plugin \<Rightarrow> bool" where
  "plugin_resolved p \<longleftrightarrow> resolved (plg_group_id p) \<and> resolved (plg_artifact_id p) \<and>
     pred_option resolved (plg_version p) \<and> list_all dep_resolved (plg_dependencies p)"

definition build_resolved :: "raw_build \<Rightarrow> bool" where
  "build_resolved b \<longleftrightarrow> pred_option resolved (bld_source_directory b) \<and>
     pred_option resolved (bld_script_source_directory b) \<and> pred_option resolved (bld_test_source_directory b) \<and>
     pred_option resolved (bld_output_directory b) \<and> pred_option resolved (bld_test_output_directory b) \<and>
     pred_option resolved (bld_final_name b) \<and> pred_option resolved (bld_default_goal b) \<and>
     pred_option resolved (bld_directory b) \<and> list_all plugin_resolved (bld_plugins b) \<and>
     pred_option (list_all plugin_resolved) (bld_plugin_management b)"

definition profile_resolved :: "raw_profile \<Rightarrow> bool" where
  "profile_resolved p \<longleftrightarrow> pred_option resolved (prf_id p) \<and> list_all dep_resolved (prf_dependencies p) \<and>
     pred_option (list_all dep_resolved) (prf_dependency_management p) \<and> pred_option build_resolved (prf_build p) \<and>
     list_all repo_resolved (prf_repositories p) \<and> list_all repo_resolved (prf_plugin_repositories p)"

definition pom_resolved :: "raw_pom \<Rightarrow> bool" where
  "pom_resolved pom \<longleftrightarrow> pred_option resolved (pom_group_id pom) \<and> pred_option resolved (pom_version pom) \<and>
     pred_option resolved (pom_name pom) \<and> pred_option resolved (pom_description pom) \<and>
     pred_option resolved (pom_url pom) \<and> pred_option resolved (pom_inception_year pom) \<and>
     list_all dep_resolved (pom_dependencies pom) \<and> pred_option (list_all dep_resolved) (pom_dependency_management pom) \<and>
     pred_option build_resolved (pom_build pom) \<and> list_all profile_resolved (pom_profiles pom) \<and>
     list_all repo_resolved (pom_repositories pom) \<and> list_all repo_resolved (pom_plugin_repositories pom)"

lemma interp_repository_resolved:
  "interp_repository r rp log = Inr (rp', log') \<Longrightarrow> repo_resolved rp'"
  by (auto simp: interp_repository_def Let_def repo_resolved_def dest: interp_opt_resolved)

lemma imap_dependency_resolved: "imap (interp_dependency r) ds l = Inr (ds', l') \<Longrightarrow> list_all dep_resolved ds'"
  by (erule imap_all) (rule interp_dependency_resolved)

lemma iopt_dependency_resolved:
  "iopt (imap (interp_dependency r)) dm l = Inr (dm', l') \<Longrightarrow> pred_option (list_all dep_resolved) dm'"
  by (erule iopt_all) (rule imap_dependency_resolved)

lemma imap_repository_resolved: "imap (interp_repository r) rs l = Inr (rs', l') \<Longrightarrow> list_all repo_resolved rs'"
  by (erule imap_all) (rule interp_repository_resolved)

lemmas imap_resolved = imap_dependency_resolved iopt_dependency_resolved imap_repository_resolved

lemma interp_plugin_resolved: "interp_plugin r p log = Inr (p', log') \<Longrightarrow> plugin_resolved p'"
  by (auto simp: interp_plugin_def Let_def plugin_resolved_def dest: interp_strict interp_opt_resolved imap_resolved)

lemma imap_plugin_resolved: "imap (interp_plugin r) ps l = Inr (ps', l') \<Longrightarrow> list_all plugin_resolved ps'"
  by (erule imap_all) (rule interp_plugin_resolved)

lemma iopt_plugin_resolved:
  "iopt (imap (interp_plugin r)) pm l = Inr (pm', l') \<Longrightarrow> pred_option (list_all plugin_resolved) pm'"
  by (erule iopt_all) (rule imap_plugin_resolved)

lemma interp_build_resolved: "interp_build r b log = Inr (b', log') \<Longrightarrow> build_resolved b'"
  by (auto simp: interp_build_def Let_def build_resolved_def dest: interp_opt_resolved imap_plugin_resolved
      iopt_plugin_resolved)

lemma iopt_build_resolved: "iopt (interp_build r) b l = Inr (b', l') \<Longrightarrow> pred_option build_resolved b'"
  by (erule iopt_all) (rule interp_build_resolved)

lemma interp_profile_resolved: "interp_profile r p log = Inr (p', log') \<Longrightarrow> profile_resolved p'"
  by (auto simp: interp_profile_def Let_def profile_resolved_def
      dest: interp_opt_resolved imap_resolved iopt_build_resolved)

lemma imap_profile_resolved: "imap (interp_profile r) ps l = Inr (ps', l') \<Longrightarrow> list_all profile_resolved ps'"
  by (erule imap_all) (rule interp_profile_resolved)

lemma interpolate_pom_resolved: "interpolate_pom env pom log = Inr (pom', log') \<Longrightarrow> pom_resolved pom'"
  by (auto simp: interpolate_pom_def Let_def pom_resolved_def
      dest: interp_opt_resolved imap_resolved iopt_build_resolved imap_profile_resolved)

text \<open>C11. In the effective POM no strictly interpolated text still contains a placeholder
  \<open>${...}\<close>: the group id, version, name, description, URL and inception year; all fields of every
  dependency and managed dependency, exclusions included; id, name, URL and layout of every
  repository and plugin repository; the directories, final name and goal of the build; group id,
  artifact id, version and dependencies of every plugin and managed plugin; and the same inside
  every profile. (Property values and plugin configurations are interpolated leniently.)\<close>

theorem effective_resolved:
  assumes "build_effective resolver env root = Inr e"
  shows "pom_resolved (eff_pom e)"
proof -
  from assms obtain pom log where "interpolate_pom env (merge_chain (eff_parent_chain e) root) [] = Inr (pom, log)"
    "eff_pom e = pom\<lparr>pom_parent := None\<rparr>"
    by (auto simp: build_effective_def)
  with interpolate_pom_resolved show ?thesis by (fastforce simp: pom_resolved_def)
qed

theorem effective_resolved_witness:
  "pom_resolved (eff_pom (projr (build_effective (\<lambda>_. Inl ''none'') (\<lambda>_. None)
     (default_pom\<lparr>pom_properties := [(''v'', ''${major}.0''), (''major'', ''2'')],
        pom_dependencies := [default_dependency\<lparr>dep_group_id := ''g'', dep_version := Some ''${v}''\<rparr>]\<rparr>))))"
proof -
  let ?r = "build_effective (\<lambda>_. Inl ''none'') (\<lambda>_. None)
     (default_pom\<lparr>pom_properties := [(''v'', ''${major}.0''), (''major'', ''2'')],
        pom_dependencies := [default_dependency\<lparr>dep_group_id := ''g'', dep_version := Some ''${v}''\<rparr>]\<rparr>)"
  have "\<not> isl ?r" by code_simp
  then have "?r = Inr (projr ?r)" by simp
  from effective_resolved [OF this] show ?thesis .
qed

section \<open>One placeholder\<close>

lemma pass_plain:
  "CHR ''$'' \<notin> set a \<Longrightarrow> pass r loc (a @ s) log =
     rbind (pass r loc s log) (\<lambda>((out, fired), log'). Inr ((mangled a @ out, fired), log'))"
proof (induction a)
  case Nil
  then show ?case by (cases "pass r loc s log") auto
next
  case (Cons c a)
  then have "split_placeholder (c # a @ s) = None"
    by (auto simp: split_placeholder_def split: list.splits)
  with Cons show ?case by (cases "pass r loc s log") auto
qed

lemma mangled_ascii: "\<forall>c \<in> set a. byte_of c < 128 \<Longrightarrow> mangled a = a"
  by (induction a) (auto simp: utf8_of_byte_def)

lemma after_open_None: "CHR ''$'' \<notin> set a \<Longrightarrow> after_open a = None"
  by (induction a rule: after_open.induct) auto

lemma contains_open_app: "contains_open (a @ CHR ''$'' # CHR ''{'' # b)"
proof -
  have "after_open (a @ CHR ''$'' # CHR ''{'' # b) \<noteq> None"
  proof (induction a)
    case (Cons c a)
    then show ?case by (cases "a @ CHR ''$'' # CHR ''{'' # b") auto
  qed simp
  then show ?thesis by (simp add: contains_open_def)
qed

lemma pass_single:
  assumes "CHR ''$'' \<notin> set (a @ b)" "CHR ''}'' \<notin> set key" "res_lookup r key = Some v"
  shows "pass r loc (a @ placeholder key @ b) log =
    Inr ((mangled a @ v @ mangled b, True),
      log @ [\<lparr>ip_placeholder = placeholder key, ip_resolved_to = v, ip_location = loc\<rparr>])"
proof -
  have "split_placeholder (placeholder key @ b) = Some (key, b)"
    using assms(2) by (simp add: split_placeholder_def placeholder_def split_once_app)
  then have "split_placeholder (CHR ''$'' # CHR ''{'' # key @ CHR ''}'' # b) = Some (key, b)"
    by (simp add: placeholder_def)
  then show ?thesis
    using assms pass_plain [of a r loc "placeholder key @ b" log] pass_plain [of b r loc "[]"]
    by (simp add: placeholder_def)
qed

text \<open>A single resolvable placeholder in ASCII text is replaced by its value and the text
  around it is kept, in strict and lenient places alike; the audit trail gains that one entry.\<close>

theorem interp_single:
  assumes "CHR ''$'' \<notin> set (a @ v @ b)" "\<forall>c \<in> set (a @ b). byte_of c < 128"
    "CHR ''}'' \<notin> set key" "res_lookup r key = Some v"
  shows "interp r loc (a @ placeholder key @ b) log =
    Inr (a @ v @ b, log @ [\<lparr>ip_placeholder = placeholder key, ip_resolved_to = v, ip_location = loc\<rparr>])"
proof -
  have "pass r loc (a @ placeholder key @ b) log = Inr ((a @ v @ b, True),
      log @ [\<lparr>ip_placeholder = placeholder key, ip_resolved_to = v, ip_location = loc\<rparr>])"
    using assms pass_single [of a b key r v loc log] mangled_ascii [of a] mangled_ascii [of b] by simp
  moreover have "contains_open (a @ placeholder key @ b)"
    using contains_open_app [of a "key @ CHR ''}'' # b"] by (simp add: placeholder_def)
  moreover have "\<not> contains_open (a @ v @ b)"
    using after_open_None assms(1) by (simp add: contains_open_def)
  ultimately show ?thesis
    by (simp add: interp_def MAX_INTERPOLATION_DEPTH_def numeral_eq_Suc)
qed

text \<open>Interpolation corrupts non-ASCII text: \<open>pass\<close> copies the input byte by byte as
  characters, so the two UTF-8 bytes of an accented letter next to a placeholder come out as
  the four bytes of two other characters.\<close>

lemma interp_non_ascii:
  "interp (pom_resolver (\<lambda>_. None) (default_pom\<lparr>pom_properties := [(''v'', ''1'')]\<rparr>))
     (LocPomField ''name'') ([CHR 0xC3, CHR 0xA9] @ ''${v}'') [] =
   Inr ([CHR 0xC3, CHR 0x83, CHR 0xC2, CHR 0xA9] @ ''1'',
     [\<lparr>ip_placeholder = ''${v}'', ip_resolved_to = ''1'', ip_location = LocPomField ''name''\<rparr>])"
  by code_simp

end
