(* ===== verification/PomResolve.thy ===== *)
theory PomResolve
  imports PomEffective
begin

text \<open>
  BOM imports, profile activation and \<open>dependencyManagement\<close> application
  (\<open>crates/barista-pom/src/profile.rs\<close>), and the pipeline \<open>resolve_pom\<close> over them.

  \<^item> The import stack is passed down: the code removes the key it inserted before going to
    the next import, so an import sees exactly the keys of the imports around it.
  \<^item> \<open>base.join(path).exists()\<close> is a parameter \<open>fs_exists\<close>. The details of
    \<open>InvalidActivation\<close> are the message and the offending text as two strings.
\<close>

definition MAX_BOM_IMPORT_DEPTH :: nat where
  "MAX_BOM_IMPORT_DEPTH = 16"

record activation_context =
  ac_jdk_version :: "string option"
  ac_os_name :: "string option"
  ac_os_arch :: "string option"
  ac_os_family :: "string option"
  ac_os_version :: "string option"
  ac_user_properties :: "(string, string) index_map"
  ac_active_profile_ids :: "string list"
  ac_inactive_profile_ids :: "string list"
  ac_basedir :: "string option"

datatype resolve_error =
    Effective effective_error
  | BomImportCycle string
  | BomImportTooDeep nat
  | BomImportResolution string string
  | UnresolvedDepMgtVersion string
  | UnresolvedDependencyVersion string
  | InvalidActivation string string

record resolved_pom =
  rp_pom :: raw_pom
  rp_effective :: effective_pom
  rp_active_profile_ids :: "string list"
  rp_imported_boms :: "string list"

section \<open>BOM imports\<close>

definition is_bom_import :: "raw_dependency \<Rightarrow> bool" where
  "is_bom_import d \<longleftrightarrow> dep_scope d = Some ''import'' \<and> dep_type d = Some ''pom''"

definition dep_gav :: "raw_dependency \<Rightarrow> gav" where
  "dep_gav d = (dep_group_id d, dep_artifact_id d, unwrap_or (dep_version d) [])"

definition bom_parent :: "raw_dependency \<Rightarrow> raw_parent" where
  "bom_parent d = \<lparr>par_group_id = dep_group_id d, par_artifact_id = dep_artifact_id d,
     par_version = unwrap_or (dep_version d) [], par_relative_path = None\<rparr>"

text \<open>The recursion counts the levels that are left: \<open>left = MAX_BOM_IMPORT_DEPTH + 1 - depth\<close>, so
  \<open>depth > MAX_BOM_IMPORT_DEPTH\<close> is \<open>left = 0\<close>.\<close>

function expand_left ::
    "parent_resolver \<Rightarrow> (string \<Rightarrow> string option) \<Rightarrow> nat \<Rightarrow> raw_pom \<Rightarrow> string list \<Rightarrow> gav list \<Rightarrow>
     (raw_pom \<times> string list, resolve_error) result"
  and expand_imports ::
    "parent_resolver \<Rightarrow> (string \<Rightarrow> string option) \<Rightarrow> nat \<Rightarrow> raw_dependency list \<Rightarrow> string list \<Rightarrow> gav list \<Rightarrow>
     (raw_dependency list \<times> string list, resolve_error) result" where
  "expand_left resolver env 0 pom boms stk = Inl (BomImportTooDeep MAX_BOM_IMPORT_DEPTH)"
| "expand_left resolver env (Suc n) pom boms stk =
     (case pom_dependency_management pom of
        None \<Rightarrow> Inr (pom, boms)
      | Some deps \<Rightarrow>
          let imports = filter is_bom_import deps; kept = filter (\<lambda>d. \<not> is_bom_import d) deps in
          rbind (expand_imports resolver env n imports boms stk) (\<lambda>(appended, boms').
          Inr (pom\<lparr>pom_dependency_management := Some (kept @ appended)\<rparr>, boms')))"
| "expand_imports resolver env n [] boms stk = Inr ([], boms)"
| "expand_imports resolver env n (imp # imps) boms stk =
     (let key = dep_gav imp in
      if dep_group_id imp = [] \<or> dep_artifact_id imp = [] \<or> unwrap_or (dep_version imp) [] = []
      then Inl (UnresolvedDepMgtVersion (gav_str key))
      else if key \<in> set stk then Inl (BomImportCycle (gav_str key))
      else
        rbind (map_err (BomImportResolution (gav_str key)) (resolver (bom_parent imp))) (\<lambda>bom_raw.
        rbind (map_err Effective (build_effective resolver env bom_raw)) (\<lambda>bom_effective.
        rbind (expand_left resolver env n (eff_pom bom_effective) boms (key # stk)) (\<lambda>(bom_pom, boms').
        rbind (expand_imports resolver env n imps (boms' @ [gav_str key]) stk) (\<lambda>(appended, boms'').
        Inr (unwrap_or (pom_dependency_management bom_pom) [] @ appended, boms''))))))"
  by pat_completeness auto
termination
  by (relation "inv_image (less_than <*lex*> less_than)
        (case_sum (\<lambda>(_, _, n, _). (n, 0)) (\<lambda>(_, _, n, imps, _). (n, Suc (length imps))))") auto

definition expand_bom_imports ::
    "parent_resolver \<Rightarrow> (string \<Rightarrow> string option) \<Rightarrow> raw_pom \<Rightarrow> string list \<Rightarrow> gav list \<Rightarrow> nat \<Rightarrow>
     (raw_pom \<times> string list, resolve_error) result" where
  "expand_bom_imports resolver env pom boms stk depth =
     expand_left resolver env (MAX_BOM_IMPORT_DEPTH + 1 - depth) pom boms stk"

section \<open>Profile activation\<close>

definition jdk_prefix_matches :: "string \<Rightarrow> string \<Rightarrow> bool" where
  "jdk_prefix_matches spec have1 \<longleftrightarrow>
     have1 = spec \<or>
     (case strip_prefix have1 spec of Some rest \<Rightarrow> starts_with rest ''.'' | None \<Rightarrow> False)"

fun parse_pieces :: "string list \<Rightarrow> nat list" where
  "parse_pieces [] = []"
| "parse_pieces (piece # ps) =
     (if piece = [] then parse_pieces ps
      else let num = takeWhile is_ascii_digit piece in
        if num = [] then []
        else (case parse_uint 64 num of Some n \<Rightarrow> n # parse_pieces ps | None \<Rightarrow> []))"

definition parse_version :: "string \<Rightarrow> nat list option" where
  "parse_version s =
     (if s = [] then None
      else Some (parse_pieces (split_on (\<lambda>c. c = CHR ''.'' \<or> c = CHR ''_'' \<or> c = CHR ''-'') s)))"

text \<open>The index loop over the longer length, with missing components read as zero.\<close>

fun compare_components :: "nat list \<Rightarrow> nat list \<Rightarrow> ordering" where
  "compare_components [] [] = Equal"
| "compare_components (a # as) [] = (if cmp_of a 0 = Equal then compare_components as [] else cmp_of a 0)"
| "compare_components [] (b # bs) = (if cmp_of 0 b = Equal then compare_components [] bs else cmp_of 0 b)"
| "compare_components (a # as) (b # bs) =
     (if cmp_of a b = Equal then compare_components as bs else cmp_of a b)"

definition compare_versions :: "nat list option \<Rightarrow> nat list \<Rightarrow> ordering" where
  "compare_versions a b = compare_components (unwrap_or a []) b"

definition jdk_range_matches :: "string \<Rightarrow> string \<Rightarrow> (bool, resolve_error) result" where
  "jdk_range_matches spec have1 =
     (if length spec < 3 then Inl (InvalidActivation ''jdk range too short: '' spec)
      else
        let lo_inclusive = (hd spec = CHR ''[''); hi_inclusive = (last spec = CHR '']'') in
        if \<not> (hd spec = CHR ''['' \<or> hd spec = CHR ''('') \<or> \<not> (last spec = CHR '']'' \<or> last spec = CHR '')'')
        then Inl (InvalidActivation ''jdk range missing brackets: '' spec)
        else
          case split_once (CHR '','') (butlast (tl spec)) of
            None \<Rightarrow> Inl (InvalidActivation ''jdk range missing comma: '' spec)
          | Some (lo_s, hi_s) \<Rightarrow>
              let lo = parse_version (trim lo_s); hi = parse_version (trim hi_s); v = parse_version have1;
                  lo_fail = (case lo of None \<Rightarrow> False | Some l \<Rightarrow>
                    let c = compare_versions v l in (lo_inclusive \<and> c = Less) \<or> (\<not> lo_inclusive \<and> c \<noteq> Greater));
                  hi_fail = (case hi of None \<Rightarrow> False | Some h \<Rightarrow>
                    let c = compare_versions v h in (hi_inclusive \<and> c = Greater) \<or> (\<not> hi_inclusive \<and> c \<noteq> Less))
              in Inr (\<not> lo_fail \<and> \<not> hi_fail))"

definition jdk_matches :: "string \<Rightarrow> string \<Rightarrow> (bool, resolve_error) result" where
  "jdk_matches spec0 have1 =
     (let spec = trim spec0 in
      if spec = [] then Inr True
      else case strip_prefix spec ''!'' of
        Some rest \<Rightarrow> Inr (\<not> jdk_prefix_matches (trim rest) have1)
      | None \<Rightarrow>
          if starts_with spec ''['' \<or> starts_with spec ''('' then jdk_range_matches spec have1
          else Inr (jdk_prefix_matches spec have1))"

definition child_text :: "xml_value \<Rightarrow> string \<Rightarrow> string option" where
  "child_text v name =
     (case im_get (xv_children v) name of
        Some (c # _) \<Rightarrow> xv_text c
      | _ \<Rightarrow> None)"

definition os_check :: "string option \<Rightarrow> string option \<Rightarrow> bool" where
  "os_check spec have1 =
     (case spec of
        None \<Rightarrow> True
      | Some sp \<Rightarrow>
          let (negate, raw) = (case strip_prefix sp ''!'' of Some rest \<Rightarrow> (True, trim rest) | None \<Rightarrow> (False, trim sp));
              matches = (case have1 of Some h \<Rightarrow> eq_ignore_ascii_case h raw | None \<Rightarrow> False)
          in if negate then \<not> matches else matches)"

definition os_matches :: "xml_value \<Rightarrow> activation_context \<Rightarrow> bool" where
  "os_matches os ctx \<longleftrightarrow>
     os_check (child_text os ''name'') (ac_os_name ctx) \<and>
     os_check (child_text os ''family'') (ac_os_family ctx) \<and>
     os_check (child_text os ''arch'') (ac_os_arch ctx) \<and>
     os_check (child_text os ''version'') (ac_os_version ctx)"

definition property_matches :: "string option \<Rightarrow> string option \<Rightarrow> activation_context \<Rightarrow> bool" where
  "property_matches name expected_value ctx =
     (case name of
        None \<Rightarrow> False
      | Some nm \<Rightarrow>
          let (negate, key) = (case strip_prefix nm ''!'' of Some rest \<Rightarrow> (True, trim rest) | None \<Rightarrow> (False, trim nm));
              matches = (case (im_get (ac_user_properties ctx) key, expected_value) of
                  (Some a, Some want) \<Rightarrow> a = want
                | (Some _, None) \<Rightarrow> True
                | (None, _) \<Rightarrow> False)
          in if negate then \<not> matches else matches)"

definition file_matches ::
    "(string \<Rightarrow> string \<Rightarrow> bool) \<Rightarrow> string option \<Rightarrow> string option \<Rightarrow> activation_context \<Rightarrow> bool" where
  "file_matches fs_exists exists1 missing ctx =
     (case ac_basedir ctx of
        None \<Rightarrow> False
      | Some base \<Rightarrow>
          (case exists1 of Some path \<Rightarrow> fs_exists base path | None \<Rightarrow> True) \<and>
          (case missing of Some path \<Rightarrow> \<not> fs_exists base path | None \<Rightarrow> True))"

datatype activation_outcome = ActActive | ActInactive | ActDefaultCandidate | ActUnconfigured

definition evaluate_activation ::
    "(string \<Rightarrow> string \<Rightarrow> bool) \<Rightarrow> raw_profile \<Rightarrow> activation_context \<Rightarrow> (activation_outcome, resolve_error) result" where
  "evaluate_activation fs_exists profile ctx =
     (case prf_activation profile of
        None \<Rightarrow> Inr ActUnconfigured
      | Some act \<Rightarrow>
          let active_by_default = (act_active_by_default act = Some ''true'') in
          if act_jdk act = None \<and> act_os act = None \<and> act_property act = None \<and> act_file act = None
          then (if active_by_default then Inr ActDefaultCandidate else Inr ActUnconfigured)
          else
            rbind (case act_jdk act of
                     None \<Rightarrow> Inr True
                   | Some spec \<Rightarrow> (case ac_jdk_version ctx of
                       None \<Rightarrow> Inr False
                     | Some have1 \<Rightarrow> jdk_matches spec have1)) (\<lambda>jdk_ok.
            if \<not> jdk_ok then Inr ActInactive
            else if (case act_os act of Some os \<Rightarrow> \<not> os_matches os ctx | None \<Rightarrow> False) then Inr ActInactive
            else if (case act_property act of
                       Some prop \<Rightarrow> \<not> property_matches (ap_name prop) (ap_value prop) ctx | None \<Rightarrow> False)
                 then Inr ActInactive
            else if (case act_file act of
                       Some f \<Rightarrow> \<not> file_matches fs_exists (af_exists f) (af_missing f) ctx | None \<Rightarrow> False)
                 then Inr ActInactive
            else Inr ActActive))"


datatype profile_status = StActive | StInactive | StDefaultCandidate

definition profile_status_of ::
    "(string \<Rightarrow> string \<Rightarrow> bool) \<Rightarrow> activation_context \<Rightarrow> raw_profile \<Rightarrow> (profile_status, resolve_error) result" where
  "profile_status_of fs_exists ctx p =
     (let id1 = unwrap_or (prf_id p) [] in
      if id1 \<noteq> [] \<and> id1 \<in> set (ac_inactive_profile_ids ctx) then Inr StInactive
      else if id1 \<noteq> [] \<and> id1 \<in> set (ac_active_profile_ids ctx) then Inr StActive
      else rbind (evaluate_activation fs_exists p ctx) (\<lambda>outcome.
        Inr (case outcome of
               ActActive \<Rightarrow> StActive
             | ActInactive \<Rightarrow> StInactive
             | ActDefaultCandidate \<Rightarrow> StDefaultCandidate
             | ActUnconfigured \<Rightarrow> StInactive)))"

definition resolve_default :: "bool \<Rightarrow> profile_status \<Rightarrow> profile_status" where
  "resolve_default any_explicit_active s =
     (if s = StDefaultCandidate then (if any_explicit_active then StInactive else StActive) else s)"

fun keep_existing_repos :: "string list \<Rightarrow> raw_repository list \<Rightarrow> raw_repository list" where
  "keep_existing_repos incoming_ids [] = []"
| "keep_existing_repos incoming_ids (r # rs) =
     (case repo_id r of
        Some i \<Rightarrow> if i \<in> set incoming_ids then keep_existing_repos incoming_ids rs
                  else r # keep_existing_repos incoming_ids rs
      | None \<Rightarrow> r # keep_existing_repos incoming_ids rs)"

definition dedup_repositories :: "raw_repository list \<Rightarrow> raw_repository list \<Rightarrow> raw_repository list" where
  "dedup_repositories existing incoming =
     (let kept = keep_existing_repos (repo_ids incoming) existing
      in kept @ add_child_repos (repo_ids kept) incoming)"

definition splice_build :: "raw_build \<Rightarrow> raw_build \<Rightarrow> raw_build" where
  "splice_build target build =
     target\<lparr>bld_plugins := bld_plugins target @ bld_plugins build,
       bld_plugin_management :=
         (case bld_plugin_management build of
            None \<Rightarrow> bld_plugin_management target
          | Some pm \<Rightarrow> (case bld_plugin_management target of
              Some existing \<Rightarrow> Some (existing @ pm)
            | None \<Rightarrow> Some pm)),
       bld_resources := bld_resources target @ bld_resources build,
       bld_test_resources := bld_test_resources target @ bld_test_resources build,
       bld_filters := bld_filters target @ bld_filters build,
       bld_source_directory := or_else (bld_source_directory build) (bld_source_directory target),
       bld_script_source_directory := or_else (bld_script_source_directory build) (bld_script_source_directory target),
       bld_test_source_directory := or_else (bld_test_source_directory build) (bld_test_source_directory target),
       bld_output_directory := or_else (bld_output_directory build) (bld_output_directory target),
       bld_test_output_directory := or_else (bld_test_output_directory build) (bld_test_output_directory target),
       bld_final_name := or_else (bld_final_name build) (bld_final_name target),
       bld_default_goal := or_else (bld_default_goal build) (bld_default_goal target),
       bld_directory := or_else (bld_directory build) (bld_directory target)\<rparr>"

definition splice_profile :: "raw_pom \<Rightarrow> raw_profile \<Rightarrow> raw_pom" where
  "splice_profile pom profile =
     pom\<lparr>pom_properties := fold (\<lambda>(k, v). im_insert k v) (prf_properties profile) (pom_properties pom),
       pom_dependencies := pom_dependencies pom @ prf_dependencies profile,
       pom_dependency_management :=
         (case prf_dependency_management profile of
            None \<Rightarrow> pom_dependency_management pom
          | Some dm \<Rightarrow> (case pom_dependency_management pom of
              Some existing \<Rightarrow> Some (existing @ dm)
            | None \<Rightarrow> Some dm)),
       pom_build :=
         (case prf_build profile of
            None \<Rightarrow> pom_build pom
          | Some build \<Rightarrow> Some (splice_build (unwrap_or (pom_build pom) default_build) build)),
       pom_repositories := dedup_repositories (pom_repositories pom) (prf_repositories profile),
       pom_plugin_repositories :=
         dedup_repositories (pom_plugin_repositories pom) (prf_plugin_repositories profile),
       pom_modules := fold (\<lambda>m ms. if m \<in> set ms then ms else ms @ [m]) (prf_modules profile) (pom_modules pom)\<rparr>"

fun splice_active :: "nat \<Rightarrow> (raw_profile \<times> profile_status) list \<Rightarrow> raw_pom \<Rightarrow>
    raw_pom \<times> string list \<times> raw_profile list" where
  "splice_active i [] pom = (pom, [], [])"
| "splice_active i ((p, s) # ps) pom =
     (if s = StActive
      then (let (pom', ids, inact) = splice_active (Suc i) ps (splice_profile pom p)
            in (pom', unwrap_or (prf_id p) (''<profile-'' @ show_nat i @ ''>'') # ids, inact))
      else (let (pom', ids, inact) = splice_active (Suc i) ps pom in (pom', ids, p # inact)))"

definition apply_profiles ::
    "(string \<Rightarrow> string \<Rightarrow> bool) \<Rightarrow> raw_pom \<Rightarrow> activation_context \<Rightarrow> (raw_pom \<times> string list, resolve_error) result" where
  "apply_profiles fs_exists pom ctx =
     (let profiles = pom_profiles pom in
      rbind (rmap (profile_status_of fs_exists ctx) profiles) (\<lambda>statuses0.
      let any_explicit_active = (StActive \<in> set statuses0);
          statuses = map (resolve_default any_explicit_active) statuses0;
          (pom', active_ids, inact) = splice_active 0 (zip profiles statuses) (pom\<lparr>pom_profiles := []\<rparr>)
      in Inr (pom'\<lparr>pom_profiles := inact\<rparr>, active_ids)))"

section \<open>dependencyManagement\<close>

type_synonym dep_key = "string \<times> string \<times> string \<times> string"

definition dep_key_of :: "raw_dependency \<Rightarrow> dep_key" where
  "dep_key_of d = (dep_group_id d, dep_artifact_id d, unwrap_or (dep_type d) ''jar'', unwrap_or (dep_classifier d) [])"

definition build_index_from :: "raw_dependency list \<Rightarrow> (dep_key, raw_dependency) index_map" where
  "build_index_from deps =
     fold (\<lambda>d out. if is_bom_import d then out
                   else if dep_version d \<noteq> None then im_or_insert (dep_key_of d) d out else out) deps []"

definition dm_index_of :: "raw_dependency list \<Rightarrow> (dep_key, raw_dependency) index_map" where
  "dm_index_of deps =
     fold (\<lambda>d out. if is_bom_import d then out else im_or_insert (dep_key_of d) d out) deps []"

definition build_dm_index :: "raw_pom \<Rightarrow> (dep_key, raw_dependency) index_map" where
  "build_dm_index pom = (case pom_dependency_management pom of None \<Rightarrow> [] | Some deps \<Rightarrow> dm_index_of deps)"

text \<open>Missing version, scope and exclusions are taken from the default.\<close>

definition inherit_from :: "raw_dependency \<Rightarrow> raw_dependency \<Rightarrow> raw_dependency" where
  "inherit_from default1 d =
     d\<lparr>dep_version := or_else (dep_version d) (dep_version default1),
       dep_scope := or_else (dep_scope d) (dep_scope default1),
       dep_exclusions := (if dep_exclusions d = [] then dep_exclusions default1 else dep_exclusions d)\<rparr>"

definition promote :: "(dep_key, raw_dependency) index_map \<Rightarrow> raw_dependency \<Rightarrow> raw_dependency" where
  "promote by_key d =
     (if dep_version d \<noteq> None then d
      else if is_bom_import d then d
      else (case im_get by_key (dep_key_of d) of Some other \<Rightarrow> inherit_from other d | None \<Rightarrow> d))"

definition manage_dependency ::
    "(dep_key, raw_dependency) index_map \<Rightarrow> raw_dependency \<Rightarrow> (raw_dependency, resolve_error) result" where
  "manage_dependency dm_index d =
     (if dep_scope d = Some ''system'' then Inr d
      else let d' = (case im_get dm_index (dep_key_of d) of Some default1 \<Rightarrow> inherit_from default1 d | None \<Rightarrow> d) in
        if dep_version d' = None
        then Inl (UnresolvedDependencyVersion (dep_group_id d' @ '':'' @ dep_artifact_id d'))
        else Inr d')"

definition apply_dependency_management :: "raw_pom \<Rightarrow> (raw_pom, resolve_error) result" where
  "apply_dependency_management pom0 =
     (let pom = pom0\<lparr>pom_dependency_management :=
            map_option (\<lambda>deps. map (promote (build_index_from deps)) deps) (pom_dependency_management pom0)\<rparr>;
          dm_index = build_dm_index pom
      in rbind (rmap (manage_dependency dm_index) (pom_dependencies pom)) (\<lambda>deps.
         Inr (pom\<lparr>pom_dependencies := deps\<rparr>)))"

section \<open>The pipeline\<close>

definition resolve_pom ::
    "parent_resolver \<Rightarrow> (string \<Rightarrow> string option) \<Rightarrow> (string \<Rightarrow> string \<Rightarrow> bool) \<Rightarrow> raw_pom \<Rightarrow> activation_context \<Rightarrow>
     (resolved_pom, resolve_error) result" where
  "resolve_pom resolver env fs_exists root ctx =
     rbind (map_err Effective (build_effective resolver env root)) (\<lambda>effective.
     rbind (expand_bom_imports resolver env (eff_pom effective) [] [] 0) (\<lambda>(pom1, imported_boms).
     rbind (apply_profiles fs_exists pom1 ctx) (\<lambda>(pom2, active_profile_ids).
     rbind (if imported_boms \<noteq> [] \<or> active_profile_ids \<noteq> []
            then rbind (map_err Effective (build_effective resolver env pom2)) (\<lambda>reinterp. Inr (eff_pom reinterp))
            else Inr pom2) (\<lambda>pom3.
     rbind (apply_dependency_management pom3) (\<lambda>pom4.
     Inr \<lparr>rp_pom = pom4, rp_effective = effective,
          rp_active_profile_ids = active_profile_ids, rp_imported_boms = imported_boms\<rparr>)))))"


section \<open>Managed versions\<close>

text \<open>The version \<open>dependencyManagement\<close> supplies for a key: the first declared one.\<close>

definition managed_in :: "raw_dependency list \<Rightarrow> dep_key \<Rightarrow> string option" where
  "managed_in deps k =
     first_some (map dep_version (filter (\<lambda>d. \<not> is_bom_import d \<and> dep_key_of d = k) deps))"

definition managed_version :: "raw_pom \<Rightarrow> dep_key \<Rightarrow> string option" where
  "managed_version pom k = (case pom_dependency_management pom of None \<Rightarrow> None | Some deps \<Rightarrow> managed_in deps k)"

lemma or_else_assoc: "or_else (or_else a b) c = or_else a (or_else b c)"
  by (simp add: or_else_def split: option.splits)

lemma or_else_simps [simp]: "or_else (Some x) b = Some x" "or_else None b = b"
  by (simp_all add: or_else_def)

lemma first_some_append: "first_some (xs @ ys) = or_else (first_some xs) (first_some ys)"
  by (induction xs) (simp_all add: or_else_assoc)

lemma managed_in_append: "managed_in (as @ bs) k = or_else (managed_in as k) (managed_in bs k)"
  by (simp add: managed_in_def first_some_append)

lemma fold_or_insert_get:
  "im_get (fold (\<lambda>d out. if P d then out else if Q d then im_or_insert (f d) d out else out) ds m) k =
     (case im_get m k of Some v \<Rightarrow> Some v | None \<Rightarrow> find (\<lambda>d. \<not> P d \<and> Q d \<and> f d = k) ds)"
proof (induction ds arbitrary: m)
  case Nil
  show ?case by (simp split: option.splits)
next
  case (Cons d ds)
  show ?case unfolding fold_Cons comp_def Cons.IH
    by (auto simp: im.get_add split: option.splits)
qed

lemma index_from_get:
  "im_get (build_index_from deps) k =
     find (\<lambda>d. \<not> is_bom_import d \<and> dep_version d \<noteq> None \<and> dep_key_of d = k) deps"
  unfolding build_index_from_def fold_or_insert_get by simp

lemma dm_index_get:
  "im_get (dm_index_of deps) k = find (\<lambda>d. \<not> is_bom_import d \<and> dep_key_of d = k) deps"
  unfolding dm_index_of_def
  using fold_or_insert_get [where Q = "\<lambda>_. True" and P = is_bom_import and f = dep_key_of and m = "[]"]
  by (simp only: if_True simp_thms im_get_Nil option.case)

lemma first_some_find:
  "first_some (map dep_version ds) = (case find (\<lambda>d. dep_version d \<noteq> None) ds of None \<Rightarrow> None | Some d \<Rightarrow> dep_version d)"
  by (induction ds) auto

lemma find_filter: "find P (filter Q xs) = find (\<lambda>x. Q x \<and> P x) xs"
  by (induction xs) auto

lemma managed_in_find:
  "managed_in deps k =
     (case im_get (build_index_from deps) k of None \<Rightarrow> None | Some d \<Rightarrow> dep_version d)"
proof -
  have "(\<lambda>x. (\<not> is_bom_import x \<and> dep_key_of x = k) \<and> dep_version x \<noteq> None) =
      (\<lambda>d. \<not> is_bom_import d \<and> dep_version d \<noteq> None \<and> dep_key_of d = k)" by auto
  then show ?thesis
    by (simp add: managed_in_def first_some_find find_filter index_from_get)
qed

lemma inherit_from_simps [simp]:
  "dep_key_of (inherit_from b d) = dep_key_of d"
  "dep_version (inherit_from b d) = or_else (dep_version d) (dep_version b)"
  "dep_group_id (inherit_from b d) = dep_group_id d"
  by (simp_all add: inherit_from_def dep_key_of_def)

lemma promote_key [simp]: "dep_key_of (promote idx d) = dep_key_of d"
  by (auto simp: promote_def split: option.splits)

lemma promote_import:
  "is_bom_import (promote (build_index_from deps) d) = is_bom_import d"
proof (cases "im_get (build_index_from deps) (dep_key_of d)")
  case (Some b)
  then have "\<not> is_bom_import b" "dep_key_of b = dep_key_of d"
    by (auto simp: index_from_get find_Some_iff)
  then have "\<not> is_bom_import (inherit_from b d)" if "\<not> is_bom_import d"
    using that by (auto simp: is_bom_import_def inherit_from_def dep_key_of_def or_else_def unwrap_or_def
        split: option.splits)
  then show ?thesis using Some by (auto simp: promote_def)
qed (simp add: promote_def)

lemma find_map: "find P (map f xs) = map_option f (find (\<lambda>x. P (f x)) xs)"
  by (induction xs) auto

lemma find_filter_hd: "find P xs = (case filter P xs of [] \<Rightarrow> None | x # _ \<Rightarrow> Some x)"
  by (induction xs) auto

lemma promote_version:
  "dep_version (promote idx d) =
     (if is_bom_import d then dep_version d
      else or_else (dep_version d) (case im_get idx (dep_key_of d) of None \<Rightarrow> None | Some b \<Rightarrow> dep_version b))"
  by (auto simp: promote_def split: option.splits)

lemma dm_index_version:
  "(case im_get (dm_index_of (map (promote (build_index_from deps)) deps)) k of
      None \<Rightarrow> None | Some d \<Rightarrow> dep_version d) = managed_in deps k"
proof -
  let ?Q = "\<lambda>d. \<not> is_bom_import d \<and> dep_key_of d = k"
  let ?idx = "build_index_from deps"
  have ix: "im_get (dm_index_of (map (promote ?idx) deps)) k = map_option (promote ?idx) (find ?Q deps)"
    by (simp add: dm_index_get find_map promote_import)
  show ?thesis
  proof (cases "filter ?Q deps")
    case Nil
    then show ?thesis by (simp add: ix find_filter_hd managed_in_def)
  next
    case (Cons d ds)
    then have d: "?Q d" using filter_eq_ConsD [of ?Q deps d ds] by auto
    have "managed_in deps k = or_else (dep_version d) (first_some (map dep_version ds))"
      by (simp add: managed_in_def Cons)
    moreover have "im_get (dm_index_of (map (promote ?idx) deps)) k = Some (promote ?idx d)"
      by (simp add: ix find_filter_hd Cons)
    moreover have "dep_version (promote ?idx d) = or_else (dep_version d) (managed_in deps k)"
      using d by (simp add: promote_version managed_in_find)
    ultimately show ?thesis by (cases "dep_version d") auto
  qed
qed

definition managed_pom_index :: "raw_pom \<Rightarrow> (dep_key, raw_dependency) index_map" where
  "managed_pom_index pom = build_dm_index (pom\<lparr>pom_dependency_management :=
     map_option (\<lambda>deps. map (promote (build_index_from deps)) deps) (pom_dependency_management pom)\<rparr>)"

lemma managed_pom_index_version:
  "(case im_get (managed_pom_index pom) k of None \<Rightarrow> None | Some d \<Rightarrow> dep_version d) = managed_version pom k"
  by (cases "pom_dependency_management pom")
     (simp_all add: managed_pom_index_def build_dm_index_def managed_version_def dm_index_version)

definition managed_ok :: "raw_pom \<Rightarrow> raw_dependency \<Rightarrow> raw_dependency \<Rightarrow> bool" where
  "managed_ok pom d d' \<longleftrightarrow> dep_key_of d' = dep_key_of d \<and>
     (if dep_scope d = Some ''system'' then d' = d
      else dep_version d' = or_else (dep_version d) (managed_version pom (dep_key_of d)) \<and> dep_version d' \<noteq> None)"

lemma manage_dependency_version:
  assumes "dep_scope d \<noteq> Some ''system''"
  shows "manage_dependency (managed_pom_index pom) d =
    (let d' = (case im_get (managed_pom_index pom) (dep_key_of d) of Some b \<Rightarrow> inherit_from b d | None \<Rightarrow> d)
     in if or_else (dep_version d) (managed_version pom (dep_key_of d)) = None
        then Inl (UnresolvedDependencyVersion (dep_group_id d' @ '':'' @ dep_artifact_id d')) else Inr d')"
  using assms managed_pom_index_version [of pom "dep_key_of d"]
  by (auto simp: manage_dependency_def split: option.splits)

lemma manage_dependency_ok:
  "manage_dependency (managed_pom_index pom) d = Inr d' \<Longrightarrow> managed_ok pom d d'"
proof (cases "dep_scope d = Some ''system''")
  case True
  then show "manage_dependency (managed_pom_index pom) d = Inr d' \<Longrightarrow> ?thesis"
    by (simp add: manage_dependency_def managed_ok_def)
next
  case False
  then show "manage_dependency (managed_pom_index pom) d = Inr d' \<Longrightarrow> ?thesis"
    using managed_pom_index_version [of pom "dep_key_of d"]
    by (auto simp: manage_dependency_version managed_ok_def Let_def split: if_splits option.splits)
qed

lemma apply_dm_rmap:
  "apply_dependency_management pom = rbind (rmap (manage_dependency (managed_pom_index pom)) (pom_dependencies pom))
     (\<lambda>deps. Inr (pom\<lparr>pom_dependency_management :=
        map_option (\<lambda>deps. map (promote (build_index_from deps)) deps) (pom_dependency_management pom),
        pom_dependencies := deps\<rparr>))"
  by (simp add: apply_dependency_management_def managed_pom_index_def Let_def)

lemma rmap_isl: "isl (rmap f xs) \<longleftrightarrow> list_ex (\<lambda>x. isl (f x)) xs"
proof (induction xs)
  case (Cons x xs)
  then show ?case by (cases "f x"; cases "rmap f xs") auto
qed simp

text \<open>C13. \<open>dependencyManagement\<close> supplies defaults only: after it is applied every dependency
  that is not system-scoped has a version, namely the declared one or else the first version
  declared for its key in the managed list; and it fails exactly when some such dependency has
  neither.\<close>

theorem depmgt_versions:
  "(case apply_dependency_management pom of
      Inl _ \<Rightarrow> True
    | Inr pom' \<Rightarrow> list_all2 (managed_ok pom) (pom_dependencies pom) (pom_dependencies pom')) \<and>
   isl (apply_dependency_management pom) =
     list_ex (\<lambda>d. dep_scope d \<noteq> Some ''system'' \<and>
        or_else (dep_version d) (managed_version pom (dep_key_of d)) = None) (pom_dependencies pom)"
proof -
  have "list_all2 (managed_ok pom) (pom_dependencies pom) (pom_dependencies pom')"
    if "apply_dependency_management pom = Inr pom'" for pom'
    using that manage_dependency_ok
    by (auto simp: apply_dm_rmap rmap_Inr_iff intro: list_all2_mono)
  moreover have "isl (manage_dependency (managed_pom_index pom) d) \<longleftrightarrow>
      dep_scope d \<noteq> Some ''system'' \<and> or_else (dep_version d) (managed_version pom (dep_key_of d)) = None" for d
    by (cases "dep_scope d = Some ''system''")
       (simp_all add: manage_dependency_version Let_def, simp add: manage_dependency_def)
  moreover have "isl (apply_dependency_management pom) =
      isl (rmap (manage_dependency (managed_pom_index pom)) (pom_dependencies pom))"
    by (cases "rmap (manage_dependency (managed_pom_index pom)) (pom_dependencies pom)") (simp_all add: apply_dm_rmap)
  ultimately show ?thesis by (simp add: rmap_isl split: sum.splits)
qed


text \<open>Across the parent chain the ancestor's managed version takes precedence over the
  child's: merging appends the child's list after the parent's, and the first entry wins.\<close>

theorem depmgt_parent_first:
  "managed_version (merge_pom parent child) k =
     or_else (managed_version parent k) (managed_version child k)"
  by (cases "pom_dependency_management parent"; cases "pom_dependency_management child")
     (simp_all add: managed_version_def merge_pom_def managed_in_append)

text \<open>The documented invariant that every resolved dependency carries a concrete version
  fails for system-scoped dependencies, which are skipped by the version check.\<close>

theorem system_scope_unversioned:
  "map (\<lambda>d. (dep_scope d, dep_version d)) (pom_dependencies (rp_pom (projr
     (resolve_pom (\<lambda>_. Inl ''none'') (\<lambda>_. None) (\<lambda>_ _. False)
       (default_pom\<lparr>pom_dependencies :=
          [default_dependency\<lparr>dep_group_id := ''g'', dep_artifact_id := ''a'', dep_scope := Some ''system''\<rparr>]\<rparr>)
       \<lparr>ac_jdk_version = None, ac_os_name = None, ac_os_arch = None, ac_os_family = None,
        ac_os_version = None, ac_user_properties = [], ac_active_profile_ids = [],
        ac_inactive_profile_ids = [], ac_basedir = None\<rparr>)))) = [(Some ''system'', None)]"
  by code_simp

section \<open>BOM expansion\<close>

definition dm_list :: "raw_pom \<Rightarrow> raw_dependency list" where
  "dm_list pom = unwrap_or (pom_dependency_management pom) []"

lemma expand_no_imports:
  "expand_left resolver env n pom boms stk = Inr (pom', boms') \<Longrightarrow>
     \<exists>app. dm_list pom' = filter (\<lambda>d. \<not> is_bom_import d) (dm_list pom) @ app \<and>
       list_all (\<lambda>d. \<not> is_bom_import d) app \<and> pom'\<lparr>pom_dependency_management := None\<rparr> = pom\<lparr>pom_dependency_management := None\<rparr>"
  "expand_imports resolver env n imps boms stk = Inr (app, boms') \<Longrightarrow>
     list_all (\<lambda>d. \<not> is_bom_import d) app"
proof (induction resolver env n pom boms stk and resolver env n imps boms stk
    arbitrary: pom' boms' and app boms' rule: expand_left_expand_imports.induct)
  case (2 resolver env n pom boms stk)
  show ?case
  proof (cases "pom_dependency_management pom")
    case None
    then show ?thesis using 2(2) by (simp add: dm_list_def unwrap_or_def)
  next
    case (Some deps)
    with 2(2) obtain app where "expand_imports resolver env n (filter is_bom_import deps) boms stk = Inr (app, boms')"
      "pom' = pom\<lparr>pom_dependency_management := Some (filter (\<lambda>d. \<not> is_bom_import d) deps @ app)\<rparr>"
      by auto
    with 2(1) [OF Some refl refl] Some show ?thesis
      by (auto simp: dm_list_def unwrap_or_def)
  qed
next
  case (4 resolver env n imp imps boms stk)
  let ?key = "dep_gav imp"
  have g: "\<not> (dep_group_id imp = [] \<or> dep_artifact_id imp = [] \<or> unwrap_or (dep_version imp) [] = [])"
    "?key \<notin> set stk"
    using 4(3) by (auto simp: Let_def split: if_splits)
  with 4(3) obtain raw eff bom b1 app2 where
    1: "map_err (BomImportResolution (gav_str ?key)) (resolver (bom_parent imp)) = Inr raw" and
    2: "map_err Effective (build_effective resolver env raw) = Inr eff" and
    3: "expand_left resolver env n (eff_pom eff) boms (?key # stk) = Inr (bom, b1)" and
    app: "expand_imports resolver env n imps (b1 @ [gav_str ?key]) stk = Inr (app2, boms')"
      "app = dm_list bom @ app2"
    by (auto simp: Let_def dm_list_def)
  from 4(1) [OF refl g 1 2 3] have "list_all (\<lambda>d. \<not> is_bom_import d) (dm_list bom)"
    by (auto simp: list_all_iff)
  with 4(2) [OF refl g 1 2 3 refl app(1)] app(2) show ?case by simp
qed auto

text \<open>C17. BOM expansion leaves no import declaration behind, keeps the directly declared
  entries in order and in front, changes nothing else of the POM, and a directly declared
  managed version always takes precedence over an imported one.\<close>

theorem bom_expansion:
  assumes "expand_bom_imports resolver env pom boms stk depth = Inr (pom', boms')"
  shows "list_all (\<lambda>d. \<not> is_bom_import d) (dm_list pom') \<and>
    prefix (filter (\<lambda>d. \<not> is_bom_import d) (dm_list pom)) (dm_list pom') \<and>
    pom'\<lparr>pom_dependency_management := None\<rparr> = pom\<lparr>pom_dependency_management := None\<rparr> \<and>
    (case managed_in (dm_list pom) k of None \<Rightarrow> True | Some v \<Rightarrow> managed_in (dm_list pom') k = Some v)"
proof -
  obtain app where app: "dm_list pom' = filter (\<lambda>d. \<not> is_bom_import d) (dm_list pom) @ app"
    "list_all (\<lambda>d. \<not> is_bom_import d) app"
    "pom'\<lparr>pom_dependency_management := None\<rparr> = pom\<lparr>pom_dependency_management := None\<rparr>"
    using expand_no_imports(1) assms unfolding expand_bom_imports_def by blast
  have "managed_in (filter (\<lambda>d. \<not> is_bom_import d) ds) k = managed_in ds k" for ds
    by (simp add: managed_in_def conj_commute)
  then show ?thesis
    using app by (auto simp: managed_in_append list_all_iff split: option.splits)
qed

theorem bom_expansion_witness:
  "let bom = default_pom\<lparr>pom_dependency_management :=
         Some [default_dependency\<lparr>dep_group_id := ''g'', dep_artifact_id := ''a'', dep_version := Some ''1''\<rparr>]\<rparr>;
       pom = default_pom\<lparr>pom_dependency_management :=
         Some [default_dependency\<lparr>dep_group_id := ''b'', dep_artifact_id := ''bom'', dep_version := Some ''3'',
                 dep_scope := Some ''import'', dep_type := Some ''pom''\<rparr>,
               default_dependency\<lparr>dep_group_id := ''g'', dep_artifact_id := ''a'', dep_version := Some ''2''\<rparr>]\<rparr>
   in managed_in (dm_list (fst (projr (expand_bom_imports (\<lambda>_. Inr bom) (\<lambda>_. None) pom [] [] 0))))
        (''g'', ''a'', ''jar'', []) = Some ''2''"
proof -
  let ?bom = "default_pom\<lparr>pom_dependency_management :=
         Some [default_dependency\<lparr>dep_group_id := ''g'', dep_artifact_id := ''a'', dep_version := Some ''1''\<rparr>]\<rparr>"
  let ?pom = "default_pom\<lparr>pom_dependency_management :=
         Some [default_dependency\<lparr>dep_group_id := ''b'', dep_artifact_id := ''bom'', dep_version := Some ''3'',
                 dep_scope := Some ''import'', dep_type := Some ''pom''\<rparr>,
               default_dependency\<lparr>dep_group_id := ''g'', dep_artifact_id := ''a'', dep_version := Some ''2''\<rparr>]\<rparr>"
  let ?r = "expand_bom_imports (\<lambda>_. Inr ?bom) (\<lambda>_. None) ?pom [] [] 0"
  have "\<not> isl ?r" by code_simp
  then have "?r = Inr (fst (projr ?r), snd (projr ?r))" by simp
  from bom_expansion [OF this, of "(''g'', ''a'', ''jar'', [])"]
  have "case managed_in (dm_list ?pom) (''g'', ''a'', ''jar'', []) of None \<Rightarrow> True
      | Some v \<Rightarrow> managed_in (dm_list (fst (projr ?r))) (''g'', ''a'', ''jar'', []) = Some v" by blast
  moreover have "managed_in (dm_list ?pom) (''g'', ''a'', ''jar'', []) = Some ''2''" by code_simp
  ultimately show ?thesis by simp
qed

section \<open>Profiles\<close>

lemma splice_active_sel:
  "splice_active i (zip ps ss) pom = (pom', ids, inact) \<Longrightarrow> length ps = length ss \<Longrightarrow>
     pom' = fold (\<lambda>p q. splice_profile q p) (map fst (filter (\<lambda>(p, s). s = StActive) (zip ps ss))) pom \<and>
     inact = map fst (filter (\<lambda>(p, s). s \<noteq> StActive) (zip ps ss)) \<and>
     length ids = length (filter (\<lambda>(p, s). s = StActive) (zip ps ss))"
proof (induction ps arbitrary: i ss pom pom' ids inact)
  case (Cons p ps)
  then obtain s ss' where "ss = s # ss'" by (cases ss) auto
  with Cons.prems show ?case
    by (cases "s = StActive") (auto split: prod.splits dest!: Cons.IH)
qed simp

text \<open>The status whose profiles are applied: explicitly active ones if there are any, and the
  \<open>activeByDefault\<close> candidates otherwise.\<close>

definition chosen_status :: "profile_status list \<Rightarrow> profile_status" where
  "chosen_status sts = (if StActive \<in> set sts then StActive else StDefaultCandidate)"

lemma resolve_default_active:
  "s \<in> set sts \<Longrightarrow> resolve_default (StActive \<in> set sts) s = StActive \<longleftrightarrow> s = chosen_status sts"
  by (cases s) (auto simp: resolve_default_def chosen_status_def)

lemma zip_map_filter:
  assumes "length ps = length sts" "\<And>s. s \<in> set sts \<Longrightarrow> P (f s) = Q s"
  shows "map fst (filter (\<lambda>(p, s). P s) (zip ps (map f sts))) = map fst (filter (\<lambda>(p, s). Q s) (zip ps sts))"
  using assms by (induction ps sts rule: list_induct2) auto

text \<open>C18. Profile activation: the applied profiles are, in document order, exactly the
  explicitly activated ones, or, when there is none, exactly the \<open>activeByDefault\<close> candidates;
  their contributions are folded into the POM in that order, one id is reported per applied
  profile, and the other profiles stay on the POM.\<close>

theorem profiles_applied:
  assumes "apply_profiles fs_exists pom ctx = Inr (pom', ids)"
  shows "\<exists>sts. list_all2 (\<lambda>p s. profile_status_of fs_exists ctx p = Inr s) (pom_profiles pom) sts \<and>
    (let chosen = map fst (filter (\<lambda>(p, s). s = chosen_status sts) (zip (pom_profiles pom) sts)) in
     pom' = (fold (\<lambda>p q. splice_profile q p) chosen (pom\<lparr>pom_profiles := []\<rparr>))
       \<lparr>pom_profiles := map fst (filter (\<lambda>(p, s). s \<noteq> chosen_status sts) (zip (pom_profiles pom) sts))\<rparr> \<and>
     length ids = length chosen)"
proof -
  from assms obtain sts where sts: "rmap (profile_status_of fs_exists ctx) (pom_profiles pom) = Inr sts"
    by (auto simp: apply_profiles_def Let_def)
  then have all2: "list_all2 (\<lambda>p s. profile_status_of fs_exists ctx p = Inr s) (pom_profiles pom) sts"
    by (simp add: rmap_Inr_iff)
  then have len: "length (pom_profiles pom) = length sts" by (rule list_all2_lengthD)
  let ?f = "resolve_default (StActive \<in> set sts)"
  obtain q inact where sp: "splice_active 0 (zip (pom_profiles pom) (map ?f sts)) (pom\<lparr>pom_profiles := []\<rparr>) = (q, ids, inact)"
    "pom' = q\<lparr>pom_profiles := inact\<rparr>"
    using assms sts by (auto simp: apply_profiles_def Let_def split: prod.splits)
  have z: "map fst (filter (\<lambda>(p, s). s = StActive) (zip (pom_profiles pom) (map ?f sts))) =
      map fst (filter (\<lambda>(p, s). s = chosen_status sts) (zip (pom_profiles pom) sts))"
    "map fst (filter (\<lambda>(p, s). s \<noteq> StActive) (zip (pom_profiles pom) (map ?f sts))) =
      map fst (filter (\<lambda>(p, s). s \<noteq> chosen_status sts) (zip (pom_profiles pom) sts))"
    using resolve_default_active by (intro zip_map_filter len; simp)+
  have "length ids = length (map fst (filter (\<lambda>(p, s). s = StActive) (zip (pom_profiles pom) (map ?f sts))))"
    using splice_active_sel [OF sp(1)] len by simp
  then show ?thesis
    using splice_active_sel [OF sp(1)] len all2 sp(2) by (intro exI [of _ sts]) (simp add: z Let_def)
qed

definition profile_named :: "string \<Rightarrow> raw_activation option \<Rightarrow> raw_profile" where
  "profile_named i act = \<lparr>prf_id = Some i, prf_activation = act, prf_properties = [], prf_dependencies = [],
     prf_dependency_management = None, prf_modules = [], prf_build = None, prf_repositories = [],
     prf_plugin_repositories = []\<rparr>"

definition empty_context :: activation_context where
  "empty_context = \<lparr>ac_jdk_version = None, ac_os_name = None, ac_os_arch = None, ac_os_family = None,
     ac_os_version = None, ac_user_properties = [], ac_active_profile_ids = [],
     ac_inactive_profile_ids = [], ac_basedir = None\<rparr>"

theorem profiles_applied_witness:
  "\<exists>sts. list_all2 (\<lambda>p s. profile_status_of (\<lambda>_ _. False) (empty_context\<lparr>ac_active_profile_ids := [''ci'']\<rparr>) p = Inr s)
     [profile_named ''ci'' None] sts \<and> chosen_status sts = StActive"
proof -
  let ?pom = "default_pom\<lparr>pom_profiles := [profile_named ''ci'' None]\<rparr>"
  let ?ctx = "empty_context\<lparr>ac_active_profile_ids := [''ci'']\<rparr>"
  have st: "profile_status_of (\<lambda>_ _. False) ?ctx (profile_named ''ci'' None) = Inr StActive" by code_simp
  let ?r = "apply_profiles (\<lambda>_ _. False) ?pom ?ctx"
  have "\<not> isl ?r" by code_simp
  then have "?r = Inr (fst (projr ?r), snd (projr ?r))" by simp
  from profiles_applied [OF this] obtain sts where
    "list_all2 (\<lambda>p s. profile_status_of (\<lambda>_ _. False) ?ctx p = Inr s) [profile_named ''ci'' None] sts" by auto
  with st show ?thesis by (intro exI [of _ sts]) (auto simp: list_all2_Cons1 chosen_status_def)
qed

end
