(* ===== verification/ResolverBase.thy ===== *)
theory ResolverBase
  imports Coords VersionSpec Snapshot PomResolve "HOL-Library.Word"
begin

text \<open>
  The data shared by the resolver's modules: the metadata-source interface
  (\<open>crates/barista-resolver/src/source.rs\<close>) and the scope and graph types of
  \<open>walker.rs\<close>.

  A \<open>MetadataSource\<close> is a record of functions: the answer of a source is a function of the
  request. Asynchrony is not modelled (the walker awaits every call in turn).
\<close>

section \<open>Metadata sources\<close>

datatype metadata_error =
    NotFound string string
  | MetadataNotFound string
  | Transport string string string
  | MetaParse string string string string
  | AuthRequired string string
  | Offline string string

record ga_metadata =
  gm_coords :: coords
  gm_versions :: "string list"
  gm_latest_snapshot_timestamp :: "string option"
  gm_last_updated :: "string option"

datatype fetch_origin = InMemory | Disk | Remote | Fixture

record metadata_source =
  fetch_pom :: "coords \<Rightarrow> string \<Rightarrow> (raw_pom \<times> fetch_origin, metadata_error) result"
  fetch_metadata :: "coords \<Rightarrow> (ga_metadata \<times> fetch_origin, metadata_error) result"
  fetch_snapshot_info :: "coords \<Rightarrow> string \<Rightarrow> (snapshot_info \<times> fetch_origin, metadata_error) result"

text \<open>The default of the trait's \<open>fetch_snapshot_info\<close>.\<close>

definition default_snapshot_info ::
    "coords \<Rightarrow> string \<Rightarrow> (snapshot_info \<times> fetch_origin, metadata_error) result" where
  "default_snapshot_info c version = Inl (MetadataNotFound (coords_display c))"

definition null_source :: metadata_source where
  "null_source =
     \<lparr>fetch_pom = (\<lambda>c version. Inl (NotFound (coords_display c) version)),
      fetch_metadata = (\<lambda>c. Inl (MetadataNotFound (coords_display c))),
      fetch_snapshot_info = default_snapshot_info\<rparr>"

text \<open>\<open>FixtureSource\<close> of \<open>walker.rs\<close>.\<close>

record fixture_source =
  fx_poms :: "(coords \<times> string, raw_pom) index_map"
  fx_metadata :: "(coords, string list) index_map"

definition fixture_new :: fixture_source where
  "fixture_new = \<lparr>fx_poms = [], fx_metadata = []\<rparr>"

definition add_pom :: "coords \<Rightarrow> string \<Rightarrow> raw_pom \<Rightarrow> fixture_source \<Rightarrow> fixture_source" where
  "add_pom c v pom fx =
     fx\<lparr>fx_metadata := im_insert c (unwrap_or (im_get (fx_metadata fx) c) [] @ [v]) (fx_metadata fx),
        fx_poms := im_insert (c, v) pom (fx_poms fx)\<rparr>"

definition fixture_as_source :: "fixture_source \<Rightarrow> metadata_source" where
  "fixture_as_source fx =
     \<lparr>fetch_pom = (\<lambda>c version. case im_get (fx_poms fx) (c, version) of
          Some p \<Rightarrow> Inr (p, Fixture)
        | None \<Rightarrow> Inl (NotFound (coords_display c) version)),
      fetch_metadata = (\<lambda>c. case im_get (fx_metadata fx) c of
          Some v \<Rightarrow> Inr (\<lparr>gm_coords = c, gm_versions = v, gm_latest_snapshot_timestamp = None,
                         gm_last_updated = None\<rparr>, Fixture)
        | None \<Rightarrow> Inl (MetadataNotFound (coords_display c))),
      fetch_snapshot_info = default_snapshot_info\<rparr>"

section \<open>Scopes and resolved dependencies\<close>

datatype scope = Compile | Provided | Runtime | Test | System | Import

definition scope_parse :: "string option \<Rightarrow> scope" where
  "scope_parse raw =
     (let s = unwrap_or (map_option trim raw) [] in
      if s = ''compile'' \<or> s = [] then Compile
      else if s = ''provided'' then Provided
      else if s = ''runtime'' then Runtime
      else if s = ''test'' then Test
      else if s = ''system'' then System
      else if s = ''import'' then Import
      else Compile)"

fun scope_inherit :: "scope \<Rightarrow> scope \<Rightarrow> scope option" where
  "scope_inherit parent_path_scope declared =
     (if declared \<in> {Provided, Test, System, Import} then None
      else if parent_path_scope \<in> {Provided, System, Import} then None
      else case (parent_path_scope, declared) of
        (Compile, Compile) \<Rightarrow> Some Compile
      | (Compile, Runtime) \<Rightarrow> Some Runtime
      | (Runtime, Compile) \<Rightarrow> Some Runtime
      | (Runtime, Runtime) \<Rightarrow> Some Runtime
      | (Test, Compile) \<Rightarrow> Some Test
      | (Test, Runtime) \<Rightarrow> Some Test
      | _ \<Rightarrow> None)"

record resolved_dep =
  rd_coords :: coords
  rd_version :: string
  rd_scope :: scope
  rd_classifier :: "string option"
  rd_type :: string
  rd_optional :: bool
  rd_depth :: nat
  rd_winning_path :: "coords list"

record audit_entry =
  ae_coords :: coords
  ae_winning_version :: string
  ae_winning_depth :: nat
  ae_also_seen_at :: "(string \<times> nat) list"

end
