(* ===== verification/PomParse.thy ===== *)
theory PomParse
  imports PomRaw
begin

text \<open>
  The POM reader (\<open>crates/barista-pom/src/raw.rs\<close>, from \<open>parse_pom\<close> on), over the events of
  quick-xml's reader with trimmed text and expanded empty elements.

  The events of a document are a list whose end is \<open>Eof\<close>; \<open>EvFail\<close> is a syntax error found
  there. A parser returns its value and the number of events it has read, so that the caller
  goes on behind them. \<open>u\<close> is quick-xml's \<open>unescape\<close>. Names, attributes and text are UTF-8.
\<close>

section \<open>Events\<close>

datatype pom_event =
    EvStart string "(string \<times> string) list"
  | EvEnd
  | EvEmpty
  | EvText string
  | EvCData string
  | EvRef string
  | EvOther
  | EvFail string

datatype pom_error =
    PeXml string
  | PeEscape string
  | MissingElement string
  | UnexpectedRoot string
  | UnsupportedModelVersion string

type_synonym unescaper = "string \<Rightarrow> (string, string) result"

type_synonym 'a pom_parser = "pom_event list \<Rightarrow> ('a \<times> nat, pom_error) result"

definition local_name :: "string \<Rightarrow> string" where
  "local_name s = rev (takeWhile (\<lambda>c. c \<noteq> CHR '':'') (rev s))"

definition decode_text :: "unescaper \<Rightarrow> string \<Rightarrow> (string, pom_error) result" where
  "decode_text u raw = map_err PeEscape (u raw)"

definition read_attributes :: "unescaper \<Rightarrow> (string \<times> string) list \<Rightarrow> (string \<times> string) list" where
  "read_attributes u as =
     map (\<lambda>(key, raw). (local_name key, case u raw of Inr v \<Rightarrow> v | Inl _ \<Rightarrow> raw)) as"

text \<open>The parsed value under a function, and one more event in front.\<close>

definition field :: "'a pom_parser \<Rightarrow> ('a \<Rightarrow> 'b) \<Rightarrow> 'b pom_parser" where
  "field p f es = rbind (p es) (\<lambda>(v, n). Inr (f v, n))"

definition after :: "nat \<Rightarrow> ('a \<times> nat, pom_error) result \<Rightarrow> ('a \<times> nat, pom_error) result" where
  "after k r = rbind r (\<lambda>(v, n). Inr (v, k + n))"

section \<open>Text and skipped elements\<close>

fun skip_loop :: "nat \<Rightarrow> pom_event list \<Rightarrow> (unit \<times> nat, pom_error) result" where
  "skip_loop 0 es = Inr ((), 0)"
| "skip_loop (Suc depth) [] = Inl (MissingElement ''end'')"
| "skip_loop (Suc depth) (EvStart _ _ # es) = after 1 (skip_loop (Suc (Suc depth)) es)"
| "skip_loop (Suc depth) (EvEnd # es) = after 1 (skip_loop depth es)"
| "skip_loop (Suc depth) (EvFail e # es) = Inl (PeXml e)"
| "skip_loop (Suc depth) (_ # es) = after 1 (skip_loop (Suc depth) es)"

definition skip_element :: "unit pom_parser" where
  "skip_element = skip_loop 1"

function read_text_loop :: "unescaper \<Rightarrow> string \<Rightarrow> string pom_parser" where
  "read_text_loop u out [] = Inl (MissingElement ''text'')"
| "read_text_loop u out (EvText t # es) =
     rbind (decode_text u t) (\<lambda>s. after 1 (read_text_loop u (out @ s) es))"
| "read_text_loop u out (EvCData s # es) = after 1 (read_text_loop u (out @ s) es)"
| "read_text_loop u out (EvStart _ _ # es) =
     rbind (skip_element es) (\<lambda>(_, n). after (Suc n) (read_text_loop u out (drop n es)))"
| "read_text_loop u out (EvEnd # es) = Inr (out, 1)"
| "read_text_loop u out (EvFail e # es) = Inl (PeXml e)"
| "read_text_loop u out (EvEmpty # es) = after 1 (read_text_loop u out es)"
| "read_text_loop u out (EvRef r # es) = after 1 (read_text_loop u out es)"
| "read_text_loop u out (EvOther # es) = after 1 (read_text_loop u out es)"
  by pat_completeness auto

termination by (relation "measure (\<lambda>(_, _, es). length es)") auto

definition read_text :: "unescaper \<Rightarrow> string pom_parser" where
  "read_text u = read_text_loop u []"

section \<open>Elements\<close>

text \<open>The loop of every element parser: \<open>el\<close> is the element an early end of file is blamed on,
  \<open>h\<close> handles the start of a child.\<close>

type_synonym 's child_handler = "string \<Rightarrow> (string \<times> string) list \<Rightarrow> 's \<Rightarrow> 's pom_parser"

function element_loop :: "string \<Rightarrow> 's child_handler \<Rightarrow> 's \<Rightarrow> 's pom_parser" where
  "element_loop el h s [] = Inl (MissingElement el)"
| "element_loop el h s (EvStart name as # es) =
     rbind (h (local_name name) as s es) (\<lambda>(s', n). after (Suc n) (element_loop el h s' (drop n es)))"
| "element_loop el h s (EvEnd # es) = Inr (s, 1)"
| "element_loop el h s (EvFail e # es) = Inl (PeXml e)"
| "element_loop el h s (EvText _ # es) = after 1 (element_loop el h s es)"
| "element_loop el h s (EvCData _ # es) = after 1 (element_loop el h s es)"
| "element_loop el h s (EvEmpty # es) = after 1 (element_loop el h s es)"
| "element_loop el h s (EvRef _ # es) = after 1 (element_loop el h s es)"
| "element_loop el h s (EvOther # es) = after 1 (element_loop el h s es)"
  by pat_completeness auto

termination by (relation "measure (\<lambda>(_, _, _, es). length es)") auto

text \<open>An element whose children named \<open>item\<close> are collected in order.\<close>

definition list_of :: "string \<Rightarrow> string \<Rightarrow> 'a pom_parser \<Rightarrow> 'a list pom_parser" where
  "list_of el item p =
     element_loop el (\<lambda>name _ out es.
       if name = item then field p (\<lambda>x. out @ [x]) es else field skip_element (\<lambda>_. out) es) []"

definition parse_string_list :: "unescaper \<Rightarrow> string \<Rightarrow> string list pom_parser" where
  "parse_string_list u item = list_of item item (read_text u)"

function xml_value_loop ::
  "unescaper \<Rightarrow> (string \<times> string) list \<Rightarrow> (string, xml_value list) index_map \<Rightarrow> string \<Rightarrow> xml_value pom_parser" where
  "xml_value_loop u attrs children text [] = Inl (MissingElement ''element'')"
| "xml_value_loop u attrs children text (EvStart name as # es) =
     rbind (xml_value_loop u (read_attributes u as) [] [] es) (\<lambda>(child, n).
       let ln = local_name name; old = (case im_get children ln of Some xs \<Rightarrow> xs | None \<Rightarrow> []) in
       after (Suc n) (xml_value_loop u attrs (im_insert ln (old @ [child]) children) text (drop n es)))"
| "xml_value_loop u attrs children text (EvText t # es) =
     rbind (decode_text u t) (\<lambda>s0. let s = trim s0 in
       after 1 (xml_value_loop u attrs children
         (if s = [] then text else if text = [] then s else text @ '' '' @ s) es))"
| "xml_value_loop u attrs children text (EvCData s # es) =
     after 1 (xml_value_loop u attrs children (text @ s) es)"
| "xml_value_loop u attrs children text (EvEnd # es) =
     Inr (XmlValue attrs (if text = [] then None else Some text) children, 1)"
| "xml_value_loop u attrs children text (EvFail e # es) = Inl (PeXml e)"
| "xml_value_loop u attrs children text (EvEmpty # es) = after 1 (xml_value_loop u attrs children text es)"
| "xml_value_loop u attrs children text (EvRef _ # es) = after 1 (xml_value_loop u attrs children text es)"
| "xml_value_loop u attrs children text (EvOther # es) = after 1 (xml_value_loop u attrs children text es)"
  by pat_completeness auto

termination by (relation "measure (\<lambda>(_, _, _, _, es). length es)") auto

definition parse_xml_value :: "unescaper \<Rightarrow> (string \<times> string) list \<Rightarrow> xml_value pom_parser" where
  "parse_xml_value u attrs = xml_value_loop u attrs [] []"

text \<open>The derived \<open>Default\<close> instances; a plugin's group defaults to Maven's own.\<close>

definition default_parent :: raw_parent where
  "default_parent = \<lparr>par_group_id = [], par_artifact_id = [], par_version = [], par_relative_path = None\<rparr>"

definition default_exclusion :: raw_exclusion where
  "default_exclusion = \<lparr>exc_group_id = [], exc_artifact_id = []\<rparr>"

definition default_resource :: raw_resource where
  "default_resource = \<lparr>rsc_directory = None, rsc_target_path = None, rsc_filtering = None,
     rsc_includes = [], rsc_excludes = []\<rparr>"

definition default_execution :: raw_plugin_execution where
  "default_execution = \<lparr>exe_id = None, exe_phase = None, exe_inherited = None, exe_goals = [],
     exe_configuration = None\<rparr>"

definition default_plugin :: raw_plugin where
  "default_plugin = \<lparr>plg_group_id = ''org.apache.maven.plugins'', plg_artifact_id = [], plg_version = None,
     plg_inherited = None, plg_extensions = None, plg_configuration = None, plg_dependencies = [],
     plg_executions = []\<rparr>"

definition default_activation :: raw_activation where
  "default_activation = \<lparr>act_active_by_default = None, act_jdk = None, act_os = None, act_property = None,
     act_file = None\<rparr>"

definition default_policy :: raw_repository_policy where
  "default_policy = \<lparr>pol_enabled = None, pol_update_policy = None, pol_checksum_policy = None\<rparr>"

definition default_repository :: raw_repository where
  "default_repository = \<lparr>repo_id = None, repo_name = None, repo_url = None, repo_layout = None,
     repo_releases = None, repo_snapshots = None\<rparr>"

definition default_profile :: raw_profile where
  "default_profile = \<lparr>prf_id = None, prf_activation = None, prf_properties = [], prf_dependencies = [],
     prf_dependency_management = None, prf_modules = [], prf_build = None, prf_repositories = [],
     prf_plugin_repositories = []\<rparr>"

definition parent_child :: "unescaper \<Rightarrow> raw_parent child_handler" where
  "parent_child u name as p es =
    (if name = ''groupId'' then field (read_text u) (\<lambda>t. p\<lparr>par_group_id := t\<rparr>) es
     else if name = ''artifactId'' then field (read_text u) (\<lambda>t. p\<lparr>par_artifact_id := t\<rparr>) es
     else if name = ''version'' then field (read_text u) (\<lambda>t. p\<lparr>par_version := t\<rparr>) es
     else if name = ''relativePath'' then field (read_text u) (\<lambda>t. p\<lparr>par_relative_path := Some t\<rparr>) es
     else field skip_element (\<lambda>_. p) es)"

definition parse_parent :: "unescaper \<Rightarrow> raw_parent pom_parser" where
  "parse_parent u = element_loop ''parent'' (parent_child u) default_parent"

definition parse_properties :: "unescaper \<Rightarrow> properties pom_parser" where
  "parse_properties u =
     element_loop ''properties'' (\<lambda>name _ entries es.
       field (read_text u) (\<lambda>t. im_insert name t entries) es) []"

definition exclusion_child :: "unescaper \<Rightarrow> raw_exclusion child_handler" where
  "exclusion_child u name as x es =
    (if name = ''groupId'' then field (read_text u) (\<lambda>t. x\<lparr>exc_group_id := t\<rparr>) es
     else if name = ''artifactId'' then field (read_text u) (\<lambda>t. x\<lparr>exc_artifact_id := t\<rparr>) es
     else field skip_element (\<lambda>_. x) es)"

definition parse_exclusion :: "unescaper \<Rightarrow> raw_exclusion pom_parser" where
  "parse_exclusion u = element_loop ''exclusion'' (exclusion_child u) default_exclusion"

definition parse_exclusions :: "unescaper \<Rightarrow> raw_exclusion list pom_parser" where
  "parse_exclusions u = list_of ''exclusions'' ''exclusion'' (parse_exclusion u)"

definition dependency_child :: "unescaper \<Rightarrow> raw_dependency child_handler" where
  "dependency_child u name as d es =
    (if name = ''groupId'' then field (read_text u) (\<lambda>t. d\<lparr>dep_group_id := t\<rparr>) es
     else if name = ''artifactId'' then field (read_text u) (\<lambda>t. d\<lparr>dep_artifact_id := t\<rparr>) es
     else if name = ''version'' then field (read_text u) (\<lambda>t. d\<lparr>dep_version := Some t\<rparr>) es
     else if name = ''scope'' then field (read_text u) (\<lambda>t. d\<lparr>dep_scope := Some t\<rparr>) es
     else if name = ''classifier'' then field (read_text u) (\<lambda>t. d\<lparr>dep_classifier := Some t\<rparr>) es
     else if name = ''type'' then field (read_text u) (\<lambda>t. d\<lparr>dep_type := Some t\<rparr>) es
     else if name = ''systemPath'' then field (read_text u) (\<lambda>t. d\<lparr>dep_system_path := Some t\<rparr>) es
     else if name = ''optional'' then field (read_text u) (\<lambda>t. d\<lparr>dep_optional := Some t\<rparr>) es
     else if name = ''exclusions'' then field (parse_exclusions u) (\<lambda>v. d\<lparr>dep_exclusions := v\<rparr>) es
     else field skip_element (\<lambda>_. d) es)"

definition parse_dependency :: "unescaper \<Rightarrow> raw_dependency pom_parser" where
  "parse_dependency u = element_loop ''dependency'' (dependency_child u) default_dependency"

definition parse_dependencies :: "unescaper \<Rightarrow> raw_dependency list pom_parser" where
  "parse_dependencies u = list_of ''dependencies'' ''dependency'' (parse_dependency u)"

definition parse_dependency_management :: "unescaper \<Rightarrow> raw_dependency list pom_parser" where
  "parse_dependency_management u =
     element_loop ''dependencyManagement'' (\<lambda>name _ dm es.
       if name = ''dependencies'' then field (parse_dependencies u) (\<lambda>ds. ds) es
       else field skip_element (\<lambda>_. dm) es) []"

definition resource_child :: "unescaper \<Rightarrow> raw_resource child_handler" where
  "resource_child u name as r es =
    (if name = ''directory'' then field (read_text u) (\<lambda>t. r\<lparr>rsc_directory := Some t\<rparr>) es
     else if name = ''targetPath'' then field (read_text u) (\<lambda>t. r\<lparr>rsc_target_path := Some t\<rparr>) es
     else if name = ''filtering'' then field (read_text u) (\<lambda>t. r\<lparr>rsc_filtering := Some t\<rparr>) es
     else if name = ''includes'' then field (parse_string_list u ''include'') (\<lambda>v. r\<lparr>rsc_includes := v\<rparr>) es
     else if name = ''excludes'' then field (parse_string_list u ''exclude'') (\<lambda>v. r\<lparr>rsc_excludes := v\<rparr>) es
     else field skip_element (\<lambda>_. r) es)"

definition parse_resource :: "unescaper \<Rightarrow> raw_resource pom_parser" where
  "parse_resource u = element_loop ''resource'' (resource_child u) default_resource"

definition parse_resources :: "unescaper \<Rightarrow> string \<Rightarrow> raw_resource list pom_parser" where
  "parse_resources u item = list_of item item (parse_resource u)"

definition execution_child :: "unescaper \<Rightarrow> raw_plugin_execution child_handler" where
  "execution_child u name as e es =
    (if name = ''id'' then field (read_text u) (\<lambda>t. e\<lparr>exe_id := Some t\<rparr>) es
     else if name = ''phase'' then field (read_text u) (\<lambda>t. e\<lparr>exe_phase := Some t\<rparr>) es
     else if name = ''inherited'' then field (read_text u) (\<lambda>t. e\<lparr>exe_inherited := Some t\<rparr>) es
     else if name = ''goals'' then field (parse_string_list u ''goal'') (\<lambda>v. e\<lparr>exe_goals := v\<rparr>) es
     else if name = ''configuration'' then field (parse_xml_value u []) (\<lambda>v. e\<lparr>exe_configuration := Some v\<rparr>) es
     else field skip_element (\<lambda>_. e) es)"

definition parse_plugin_execution :: "unescaper \<Rightarrow> raw_plugin_execution pom_parser" where
  "parse_plugin_execution u = element_loop ''execution'' (execution_child u) default_execution"

definition parse_plugin_executions :: "unescaper \<Rightarrow> raw_plugin_execution list pom_parser" where
  "parse_plugin_executions u = list_of ''executions'' ''execution'' (parse_plugin_execution u)"

definition plugin_child :: "unescaper \<Rightarrow> raw_plugin child_handler" where
  "plugin_child u name as p es =
    (if name = ''groupId'' then field (read_text u) (\<lambda>t. p\<lparr>plg_group_id := t\<rparr>) es
     else if name = ''artifactId'' then field (read_text u) (\<lambda>t. p\<lparr>plg_artifact_id := t\<rparr>) es
     else if name = ''version'' then field (read_text u) (\<lambda>t. p\<lparr>plg_version := Some t\<rparr>) es
     else if name = ''inherited'' then field (read_text u) (\<lambda>t. p\<lparr>plg_inherited := Some t\<rparr>) es
     else if name = ''extensions'' then field (read_text u) (\<lambda>t. p\<lparr>plg_extensions := Some t\<rparr>) es
     else if name = ''configuration'' then field (parse_xml_value u []) (\<lambda>v. p\<lparr>plg_configuration := Some v\<rparr>) es
     else if name = ''dependencies'' then field (parse_dependencies u) (\<lambda>v. p\<lparr>plg_dependencies := v\<rparr>) es
     else if name = ''executions'' then field (parse_plugin_executions u) (\<lambda>v. p\<lparr>plg_executions := v\<rparr>) es
     else field skip_element (\<lambda>_. p) es)"

definition parse_plugin :: "unescaper \<Rightarrow> raw_plugin pom_parser" where
  "parse_plugin u = element_loop ''plugin'' (plugin_child u) default_plugin"

definition parse_plugins :: "unescaper \<Rightarrow> raw_plugin list pom_parser" where
  "parse_plugins u = list_of ''plugins'' ''plugin'' (parse_plugin u)"

definition parse_plugin_management :: "unescaper \<Rightarrow> raw_plugin list pom_parser" where
  "parse_plugin_management u =
     element_loop ''pluginManagement'' (\<lambda>name _ pm es.
       if name = ''plugins'' then field (parse_plugins u) (\<lambda>ps. ps) es
       else field skip_element (\<lambda>_. pm) es) []"

definition build_child :: "unescaper \<Rightarrow> raw_build child_handler" where
  "build_child u name as b es =
    (if name = ''sourceDirectory'' then field (read_text u) (\<lambda>t. b\<lparr>bld_source_directory := Some t\<rparr>) es
     else if name = ''scriptSourceDirectory'' then field (read_text u) (\<lambda>t. b\<lparr>bld_script_source_directory := Some t\<rparr>) es
     else if name = ''testSourceDirectory'' then field (read_text u) (\<lambda>t. b\<lparr>bld_test_source_directory := Some t\<rparr>) es
     else if name = ''outputDirectory'' then field (read_text u) (\<lambda>t. b\<lparr>bld_output_directory := Some t\<rparr>) es
     else if name = ''testOutputDirectory'' then field (read_text u) (\<lambda>t. b\<lparr>bld_test_output_directory := Some t\<rparr>) es
     else if name = ''finalName'' then field (read_text u) (\<lambda>t. b\<lparr>bld_final_name := Some t\<rparr>) es
     else if name = ''defaultGoal'' then field (read_text u) (\<lambda>t. b\<lparr>bld_default_goal := Some t\<rparr>) es
     else if name = ''directory'' then field (read_text u) (\<lambda>t. b\<lparr>bld_directory := Some t\<rparr>) es
     else if name = ''filters'' then field (parse_string_list u ''filter'') (\<lambda>v. b\<lparr>bld_filters := v\<rparr>) es
     else if name = ''resources'' then field (parse_resources u ''resource'') (\<lambda>v. b\<lparr>bld_resources := v\<rparr>) es
     else if name = ''testResources'' then field (parse_resources u ''testResource'') (\<lambda>v. b\<lparr>bld_test_resources := v\<rparr>) es
     else if name = ''plugins'' then field (parse_plugins u) (\<lambda>v. b\<lparr>bld_plugins := v\<rparr>) es
     else if name = ''pluginManagement'' then field (parse_plugin_management u) (\<lambda>v. b\<lparr>bld_plugin_management := Some v\<rparr>) es
     else field skip_element (\<lambda>_. b) es)"

definition parse_build :: "unescaper \<Rightarrow> raw_build pom_parser" where
  "parse_build u = element_loop ''build'' (build_child u) default_build"

definition policy_child :: "unescaper \<Rightarrow> raw_repository_policy child_handler" where
  "policy_child u name as p es =
    (if name = ''enabled'' then field (read_text u) (\<lambda>t. p\<lparr>pol_enabled := Some t\<rparr>) es
     else if name = ''updatePolicy'' then field (read_text u) (\<lambda>t. p\<lparr>pol_update_policy := Some t\<rparr>) es
     else if name = ''checksumPolicy'' then field (read_text u) (\<lambda>t. p\<lparr>pol_checksum_policy := Some t\<rparr>) es
     else field skip_element (\<lambda>_. p) es)"

definition parse_repo_policy :: "unescaper \<Rightarrow> raw_repository_policy pom_parser" where
  "parse_repo_policy u = element_loop ''repositoryPolicy'' (policy_child u) default_policy"

definition repository_child :: "unescaper \<Rightarrow> raw_repository child_handler" where
  "repository_child u name as r es =
    (if name = ''id'' then field (read_text u) (\<lambda>t. r\<lparr>repo_id := Some t\<rparr>) es
     else if name = ''name'' then field (read_text u) (\<lambda>t. r\<lparr>repo_name := Some t\<rparr>) es
     else if name = ''url'' then field (read_text u) (\<lambda>t. r\<lparr>repo_url := Some t\<rparr>) es
     else if name = ''layout'' then field (read_text u) (\<lambda>t. r\<lparr>repo_layout := Some t\<rparr>) es
     else if name = ''releases'' then field (parse_repo_policy u) (\<lambda>v. r\<lparr>repo_releases := Some v\<rparr>) es
     else if name = ''snapshots'' then field (parse_repo_policy u) (\<lambda>v. r\<lparr>repo_snapshots := Some v\<rparr>) es
     else field skip_element (\<lambda>_. r) es)"

definition parse_repository :: "unescaper \<Rightarrow> raw_repository pom_parser" where
  "parse_repository u = element_loop ''repository'' (repository_child u) default_repository"

definition parse_repositories :: "unescaper \<Rightarrow> string \<Rightarrow> raw_repository list pom_parser" where
  "parse_repositories u item = list_of item item (parse_repository u)"

text \<open>The two inner loops of \<open>parse_activation\<close>.\<close>

definition parse_activation_property :: "unescaper \<Rightarrow> raw_activation_property pom_parser" where
  "parse_activation_property u =
     element_loop ''property'' (\<lambda>name _ a es.
       if name = ''name'' then field (read_text u) (\<lambda>t. a\<lparr>ap_name := Some t\<rparr>) es
       else if name = ''value'' then field (read_text u) (\<lambda>t. a\<lparr>ap_value := Some t\<rparr>) es
       else field skip_element (\<lambda>_. a) es) \<lparr>ap_name = None, ap_value = None\<rparr>"

definition parse_activation_file :: "unescaper \<Rightarrow> raw_activation_file pom_parser" where
  "parse_activation_file u =
     element_loop ''file'' (\<lambda>name _ f es.
       if name = ''exists'' then field (read_text u) (\<lambda>t. f\<lparr>af_exists := Some t\<rparr>) es
       else if name = ''missing'' then field (read_text u) (\<lambda>t. f\<lparr>af_missing := Some t\<rparr>) es
       else field skip_element (\<lambda>_. f) es) \<lparr>af_exists = None, af_missing = None\<rparr>"

definition activation_child :: "unescaper \<Rightarrow> raw_activation child_handler" where
  "activation_child u name as a es =
    (if name = ''activeByDefault'' then field (read_text u) (\<lambda>t. a\<lparr>act_active_by_default := Some t\<rparr>) es
     else if name = ''jdk'' then field (read_text u) (\<lambda>t. a\<lparr>act_jdk := Some t\<rparr>) es
     else if name = ''os'' then field (parse_xml_value u []) (\<lambda>v. a\<lparr>act_os := Some v\<rparr>) es
     else if name = ''property'' then field (parse_activation_property u) (\<lambda>v. a\<lparr>act_property := Some v\<rparr>) es
     else if name = ''file'' then field (parse_activation_file u) (\<lambda>v. a\<lparr>act_file := Some v\<rparr>) es
     else field skip_element (\<lambda>_. a) es)"

definition parse_activation :: "unescaper \<Rightarrow> raw_activation pom_parser" where
  "parse_activation u = element_loop ''activation'' (activation_child u) default_activation"

definition profile_child :: "unescaper \<Rightarrow> raw_profile child_handler" where
  "profile_child u name as p es =
    (if name = ''id'' then field (read_text u) (\<lambda>t. p\<lparr>prf_id := Some t\<rparr>) es
     else if name = ''activation'' then field (parse_activation u) (\<lambda>v. p\<lparr>prf_activation := Some v\<rparr>) es
     else if name = ''properties'' then field (parse_properties u) (\<lambda>v. p\<lparr>prf_properties := v\<rparr>) es
     else if name = ''dependencies'' then field (parse_dependencies u) (\<lambda>v. p\<lparr>prf_dependencies := v\<rparr>) es
     else if name = ''dependencyManagement'' then field (parse_dependency_management u) (\<lambda>v. p\<lparr>prf_dependency_management := Some v\<rparr>) es
     else if name = ''modules'' then field (parse_string_list u ''module'') (\<lambda>v. p\<lparr>prf_modules := v\<rparr>) es
     else if name = ''build'' then field (parse_build u) (\<lambda>v. p\<lparr>prf_build := Some v\<rparr>) es
     else if name = ''repositories'' then field (parse_repositories u ''repository'') (\<lambda>v. p\<lparr>prf_repositories := v\<rparr>) es
     else if name = ''pluginRepositories'' then field (parse_repositories u ''pluginRepository'') (\<lambda>v. p\<lparr>prf_plugin_repositories := v\<rparr>) es
     else field skip_element (\<lambda>_. p) es)"

definition parse_profile :: "unescaper \<Rightarrow> raw_profile pom_parser" where
  "parse_profile u = element_loop ''profile'' (profile_child u) default_profile"

definition parse_profiles :: "unescaper \<Rightarrow> raw_profile list pom_parser" where
  "parse_profiles u = list_of ''profiles'' ''profile'' (parse_profile u)"

definition project_child :: "unescaper \<Rightarrow> raw_pom child_handler" where
  "project_child u name as p es =
    (if name = ''modelVersion'' then field (read_text u) (\<lambda>t. p\<lparr>pom_model_version := t\<rparr>) es
     else if name = ''parent'' then field (parse_parent u) (\<lambda>v. p\<lparr>pom_parent := Some v\<rparr>) es
     else if name = ''groupId'' then field (read_text u) (\<lambda>t. p\<lparr>pom_group_id := Some t\<rparr>) es
     else if name = ''artifactId'' then field (read_text u) (\<lambda>t. p\<lparr>pom_artifact_id := t\<rparr>) es
     else if name = ''version'' then field (read_text u) (\<lambda>t. p\<lparr>pom_version := Some t\<rparr>) es
     else if name = ''packaging'' then field (read_text u) (\<lambda>t. p\<lparr>pom_packaging := t\<rparr>) es
     else if name = ''name'' then field (read_text u) (\<lambda>t. p\<lparr>pom_name := Some t\<rparr>) es
     else if name = ''description'' then field (read_text u) (\<lambda>t. p\<lparr>pom_description := Some t\<rparr>) es
     else if name = ''url'' then field (read_text u) (\<lambda>t. p\<lparr>pom_url := Some t\<rparr>) es
     else if name = ''inceptionYear'' then field (read_text u) (\<lambda>t. p\<lparr>pom_inception_year := Some t\<rparr>) es
     else if name = ''properties'' then field (parse_properties u) (\<lambda>v. p\<lparr>pom_properties := v\<rparr>) es
     else if name = ''dependencies'' then field (parse_dependencies u) (\<lambda>v. p\<lparr>pom_dependencies := v\<rparr>) es
     else if name = ''dependencyManagement'' then field (parse_dependency_management u) (\<lambda>v. p\<lparr>pom_dependency_management := Some v\<rparr>) es
     else if name = ''modules'' then field (parse_string_list u ''module'') (\<lambda>v. p\<lparr>pom_modules := v\<rparr>) es
     else if name = ''build'' then field (parse_build u) (\<lambda>v. p\<lparr>pom_build := Some v\<rparr>) es
     else if name = ''profiles'' then field (parse_profiles u) (\<lambda>v. p\<lparr>pom_profiles := v\<rparr>) es
     else if name = ''repositories'' then field (parse_repositories u ''repository'') (\<lambda>v. p\<lparr>pom_repositories := v\<rparr>) es
     else if name = ''pluginRepositories'' then field (parse_repositories u ''pluginRepository'') (\<lambda>v. p\<lparr>pom_plugin_repositories := v\<rparr>) es
     else field skip_element (\<lambda>_. p) es)"

definition parse_project :: "unescaper \<Rightarrow> raw_pom pom_parser" where
  "parse_project u es =
     rbind (element_loop ''project'' (project_child u)
              (default_pom\<lparr>pom_packaging := ''jar'', pom_model_version := ''4.0.0''\<rparr>) es) (\<lambda>(pom, n).
       if pom_artifact_id pom = [] then Inl (MissingElement ''artifactId'') else Inr (pom, n))"

definition validate_model_version :: "string \<Rightarrow> (unit, pom_error) result" where
  "validate_model_version mv =
     (if mv = ''4.0.0'' \<or> mv = ''4.1.0'' then Inr () else Inl (UnsupportedModelVersion mv))"

fun parse_inner :: "unescaper \<Rightarrow> pom_event list \<Rightarrow> (raw_pom, pom_error) result" where
  "parse_inner u [] = Inl (MissingElement ''project'')"
| "parse_inner u (EvStart name as # es) =
     (if local_name name \<noteq> ''project'' then Inl (UnexpectedRoot (local_name name))
      else rbind (parse_project u es) (\<lambda>(pom, _).
           rbind (validate_model_version (pom_model_version pom)) (\<lambda>_. Inr pom)))"
| "parse_inner u (EvEmpty # es) = Inl (MissingElement ''project'')"
| "parse_inner u (EvFail e # es) = Inl (PeXml e)"
| "parse_inner u (_ # es) = parse_inner u es"

definition parse_pom :: "(string \<Rightarrow> pom_event list) \<Rightarrow> unescaper \<Rightarrow> string \<Rightarrow> (raw_pom, pom_error) result" where
  "parse_pom lexer u xml = parse_inner u (lexer xml)"

end
