(* ===== verification/CacheSource.thy ===== *)
theory CacheSource
  imports CacheFetch ResolverBase PomParse
begin

text \<open>
  The cache as the resolver's metadata source (\<open>crates/barista-cache/src/source.rs\<close>): the path
  of a request through the index, the store, the locks, the shared cache server, the upstream
  repository and the checksum files.

  The record \<open>source_lib\<close> stands for the crates the code calls: the hash functions, bincode,
  quick-xml's tokenizer, and the displayed text of an error (derived by \<open>thiserror\<close>). One task
  runs at a time; a call that finds the in-process lock of its key taken would wait, see
  \<open>CacheLocks\<close>. Log events are not modelled, the two observers are.
\<close>

section \<open>State and configuration\<close>

datatype roastery_outcome = Hit | Miss | Unreachable | AuthFailed | DigestMismatch

definition outcome_str :: "roastery_outcome \<Rightarrow> string" where
  "outcome_str r = (case r of Hit \<Rightarrow> ''hit'' | Miss \<Rightarrow> ''miss'' | Unreachable \<Rightarrow> ''unreachable''
     | AuthFailed \<Rightarrow> ''auth_failed'' | DigestMismatch \<Rightarrow> ''digest_mismatch'')"

datatype push_outcome = Pushed | PushFailed | SkippedRoasterySource

definition push_str :: "push_outcome \<Rightarrow> string" where
  "push_str r = (case r of Pushed \<Rightarrow> ''pushed'' | PushFailed \<Rightarrow> ''push_failed''
     | SkippedRoasterySource \<Rightarrow> ''skipped_roastery_source'')"

record source_world = net_world +
  sw_locks :: lock_map
  sw_observer :: "roastery_outcome list option"
  sw_push_observer :: "push_outcome list option"

record cache_source =
  cs_fetcher :: fetch_config
  cs_snapshot_update_policy :: update_policy
  cs_release_update_policy :: update_policy
  cs_roastery :: "roastery_client option"
  cs_roastery_url :: "string option"
  cs_roastery_push :: bool

datatype source_error =
    SeCas cas_error
  | SeIndex index_error
  | SeFetch fetch_error
  | SeChecksum checksum_error
  | SeLock lock_error
  | SePom pom_error
  | SeSnapshot snapshot_error

datatype versions_event = VStart string | VEnd string | VText string | VOther | VFail

record source_lib = http_lib +
  sl_sha256 :: "bytes \<Rightarrow> content_hash"
  sl_sha1 :: "bytes \<Rightarrow> bytes"
  sl_codec :: codec
  sl_display :: "source_error \<Rightarrow> string"
  sl_unescape :: unescaper
  sl_pom_events :: "string \<Rightarrow> pom_event list"
  sl_snapshot_events :: "string \<Rightarrow> xml_event list"
  sl_versions_events :: "string \<Rightarrow> versions_event list"

definition source_new :: "fetch_config \<Rightarrow> update_policy \<Rightarrow> update_policy \<Rightarrow> cache_source" where
  "source_new fetcher snap rel =
     \<lparr>cs_fetcher = fetcher, cs_snapshot_update_policy = snap, cs_release_update_policy = rel,
      cs_roastery = None, cs_roastery_url = None, cs_roastery_push = False\<rparr>"

definition with_roastery :: "roastery_client \<Rightarrow> string \<Rightarrow> cache_source \<Rightarrow> cache_source" where
  "with_roastery client url cs = cs\<lparr>cs_roastery := Some client, cs_roastery_url := Some url\<rparr>"

definition with_roastery_push :: "bool \<Rightarrow> cache_source \<Rightarrow> cache_source" where
  "with_roastery_push enabled cs = cs\<lparr>cs_roastery_push := enabled\<rparr>"

text \<open>A fresh observer is attached; its list is what \<open>outcomes\<close> returns.\<close>

definition with_roastery_observer :: "('a source_world_scheme, unit, 'e) io" where
  "with_roastery_observer = io_modify (\<lambda>w. w\<lparr>sw_observer := Some []\<rparr>)"

definition with_roastery_push_observer :: "('a source_world_scheme, unit, 'e) io" where
  "with_roastery_push_observer = io_modify (\<lambda>w. w\<lparr>sw_push_observer := Some []\<rparr>)"

definition record_roastery_outcome :: "roastery_outcome \<Rightarrow> ('a source_world_scheme, unit, 'e) io" where
  "record_roastery_outcome r = io_modify (\<lambda>w. w\<lparr>sw_observer := map_option (\<lambda>rs. rs @ [r]) (sw_observer w)\<rparr>)"

definition record_push_outcome :: "push_outcome \<Rightarrow> ('a source_world_scheme, unit, 'e) io" where
  "record_push_outcome r = io_modify (\<lambda>w. w\<lparr>sw_push_observer := map_option (\<lambda>rs. rs @ [r]) (sw_push_observer w)\<rparr>)"

definition now_unix :: "'a world_scheme \<Rightarrow> nat" where
  "now_unix w = wd_clock w div 1000"

definition METADATA_SENTINEL_VERSION :: string where
  "METADATA_SENTINEL_VERSION = ''<metadata>''"

definition snapshot_meta_version :: "string \<Rightarrow> string" where
  "snapshot_meta_version version = ''<snapshot-metadata>:'' @ version"

definition FETCH_LOCK_TIMEOUT :: nat where
  "FETCH_LOCK_TIMEOUT = 120000"

definition lock_root :: string where
  "lock_root = ''locks''"

section \<open>Texts and errors\<close>

definition ga_str :: "coords \<Rightarrow> string" where
  "ga_str c = co_group c @ '':'' @ co_artifact c"

definition format_coords_header :: "coords \<Rightarrow> string \<Rightarrow> string \<Rightarrow> string option \<Rightarrow> string" where
  "format_coords_header c version typ classifier =
     (case classifier of
        Some cl \<Rightarrow> ga_str c @ '':'' @ typ @ '':'' @ cl @ '':'' @ version
      | None \<Rightarrow> if typ \<noteq> ''jar'' then ga_str c @ '':'' @ typ @ '':'' @ version else ga_str c @ '':'' @ version)"

definition map_cas_err :: "'l source_lib_scheme \<Rightarrow> coords \<Rightarrow> string \<Rightarrow> cas_error \<Rightarrow> metadata_error" where
  "map_cas_err lib c version e = Transport (ga_str c) version (''cas: '' @ sl_display lib (SeCas e))"

definition map_fetch_err :: "'l source_lib_scheme \<Rightarrow> coords \<Rightarrow> string \<Rightarrow> fetch_error \<Rightarrow> metadata_error" where
  "map_fetch_err lib c version e =
     (case e of
        FeStatus _ status \<Rightarrow>
          if status = 404 then metadata_error.NotFound (ga_str c) version
          else if status = 401 \<or> status = 403 then AuthRequired (ga_str c) version
          else Transport (ga_str c) version (sl_display lib (SeFetch e))
      | _ \<Rightarrow> Transport (ga_str c) version (sl_display lib (SeFetch e)))"

definition map_index_err :: "'l source_lib_scheme \<Rightarrow> coords \<Rightarrow> string \<Rightarrow> index_error \<Rightarrow> metadata_error" where
  "map_index_err lib c version e = Transport (ga_str c) version (''index put: '' @ sl_display lib (SeIndex e))"

text \<open>The dash of the message is U+2014.\<close>

definition map_lock_err :: "'l source_lib_scheme \<Rightarrow> coords \<Rightarrow> string \<Rightarrow> lock_error \<Rightarrow> metadata_error" where
  "map_lock_err lib c version e =
     Transport (ga_str c) version
       (case e of
          LkTimeout path seconds \<Rightarrow>
            ''lock acquisition timed out after '' @ show_nat seconds @ ''s for '' @ ga_str c @ '':'' @ version @
            '' '' @ [CHR 0xE2, CHR 0x80, CHR 0x94] @ '' another barista process may be stuck; see '' @ path
        | _ \<Rightarrow> ''filesystem lock: '' @ sl_display lib (SeLock e))"

section \<open>Fetching\<close>

definition sidecar_text :: "(fetch_outcome, fetch_error) result \<Rightarrow> string option" where
  "sidecar_text r = (case r of Inr (Fresh bs _ _ _) \<Rightarrow> Some (utf8_lossy bs) | _ \<Rightarrow> None)"

definition sha1_of :: "verification \<Rightarrow> string option" where
  "sha1_of v = (case v of Sha1Verified hex \<Rightarrow> Some hex | _ \<Rightarrow> None)"

definition make_entry ::
  "content_hash \<Rightarrow> bytes \<Rightarrow> string option \<Rightarrow> string \<Rightarrow> string option \<Rightarrow> string option \<Rightarrow> origin_tier \<Rightarrow> nat \<Rightarrow> index_entry" where
  "make_entry h bs sha1_hex url etag last_modified tier now =
     \<lparr>ie_hash = h, ie_size_bytes = length bs, ie_sha1_hex = sha1_hex,
      ie_origin = \<lparr>or_repository_url = url, or_etag = etag, or_last_modified = last_modified,
        or_upstream_last_updated = None, or_tier = tier\<rparr>,
      ie_atime_unix = now, ie_created_unix = now\<rparr>"

definition fetch_and_cache ::
  "'l source_lib_scheme \<Rightarrow> cache_source \<Rightarrow> coords \<Rightarrow> string \<Rightarrow> string \<Rightarrow> string option \<Rightarrow> conditional_headers \<Rightarrow>
   ('a net_world_scheme, bytes \<times> index_entry \<times> fetch_origin, metadata_error) io" where
  "fetch_and_cache lib cs c version typ classifier cond =
     (let url = url_for_artifact (cs_fetcher cs) None (co_group c) (co_artifact c) version classifier typ in
      io_bind (io_try (fetch lib (cs_fetcher cs) url cond)) (\<lambda>artifact_res.
      io_bind (io_try (fetch lib (cs_fetcher cs) (url_for_sidecar url ''sha256'') no_conditions)) (\<lambda>sha256_res.
      io_bind (io_try (fetch lib (cs_fetcher cs) (url_for_sidecar url ''sha1'') no_conditions)) (\<lambda>sha1_res.
      case artifact_res of
        Inl e \<Rightarrow> io_fail (map_fetch_err lib c version e)
      | Inr NotModified \<Rightarrow> io_fail (Transport (ga_str c) version ''upstream returned 304 with no cached entry'')
      | Inr (Fresh bs etag last_modified _) \<Rightarrow>
          io_bind (io_lift (map_err (\<lambda>e. MetaParse ''checksum sidecar'' (ga_str c) version (sl_display lib (SeChecksum e)))
              (verify (sl_sha256 lib) (sl_sha1 lib) bs (sidecar_text sha256_res) (sidecar_text sha1_res)))) (\<lambda>verification.
          io_bind (io_map_err (map_cas_err lib c version) (cas_put (sl_sha256 lib) bs)) (\<lambda>(h, _).
          io_bind (io_get now_unix) (\<lambda>now.
          io_return (bs, make_entry h bs (sha1_of verification) url etag last_modified Upstream now, Remote))))))))"

definition fetch_url_and_cache ::
  "'l source_lib_scheme \<Rightarrow> cache_source \<Rightarrow> coords \<Rightarrow> string \<Rightarrow> string \<Rightarrow>
   ('a net_world_scheme, bytes \<times> index_entry \<times> fetch_origin, metadata_error) io" where
  "fetch_url_and_cache lib cs c version url =
     io_bind (io_map_err (map_fetch_err lib c version) (fetch lib (cs_fetcher cs) url no_conditions)) (\<lambda>outcome.
     case outcome of
       NotModified \<Rightarrow> io_fail (MetadataNotFound (ga_str c))
     | Fresh bs etag last_modified _ \<Rightarrow>
         io_bind (io_map_err (map_cas_err lib c version) (cas_put (sl_sha256 lib) bs)) (\<lambda>(h, _).
         io_bind (io_get now_unix) (\<lambda>now.
         io_return (bs, make_entry h bs None url etag last_modified Upstream now, Remote))))"

text \<open>What a failed request to the shared cache counts as.\<close>

definition classify :: "client_error \<Rightarrow> roastery_outcome" where
  "classify e =
     (case e of
        CeAuth _ _ \<Rightarrow> AuthFailed
      | ServerRejected _ code _ _ _ \<Rightarrow> if code = ''BAR-CAS-001'' then DigestMismatch else Unreachable
      | _ \<Rightarrow> Unreachable)"

text \<open>The digest the SHA-256 sidecar names; without a usable one the server cannot be asked.\<close>

definition asked_digest :: "string option \<Rightarrow> content_hash option" where
  "asked_digest sidecar =
     (case sidecar of
        None \<Rightarrow> None
      | Some s \<Rightarrow> (let t = first_token s in
                  if t = [] then None
                  else (case digest_from_hex (lower t) of Inr d \<Rightarrow> Some d | Inl _ \<Rightarrow> None)))"

text \<open>The result's error is the outcome to record; \<open>None\<close> is a miss.\<close>

definition try_roastery ::
  "'l source_lib_scheme \<Rightarrow> cache_source \<Rightarrow> roastery_client \<Rightarrow> coords \<Rightarrow> string \<Rightarrow> string \<Rightarrow> string option \<Rightarrow>
   ('a net_world_scheme, (bytes \<times> index_entry) option, roastery_outcome) io" where
  "try_roastery lib cs client c version typ classifier =
     (let roastery_url = (case cs_roastery_url cs of Some u \<Rightarrow> u | None \<Rightarrow> ''roastery'');
          url = url_for_artifact (cs_fetcher cs) None (co_group c) (co_artifact c) version classifier typ in
      io_bind (io_try (fetch lib (cs_fetcher cs) (url_for_sidecar url ''sha256'') no_conditions)) (\<lambda>sha256_res.
      io_bind (io_try (fetch lib (cs_fetcher cs) (url_for_sidecar url ''sha1'') no_conditions)) (\<lambda>sha1_res.
      case asked_digest (sidecar_text sha256_res) of
        None \<Rightarrow> io_return None
      | Some digest \<Rightarrow>
          io_bind (io_try (get_blob_with_coords lib client digest (format_coords_header c version typ classifier))) (\<lambda>blob_res.
          case blob_res of
            Inl CeNotFound \<Rightarrow> io_return None
          | Inl e \<Rightarrow> io_fail (classify e)
          | Inr blob \<Rightarrow>
              (case bl_body blob of
                 Inl _ \<Rightarrow> io_fail Unreachable
               | Inr bs \<Rightarrow>
                   if length bs \<noteq> bs_size (bl_stat blob) then io_fail Unreachable
                   else (case verify (sl_sha256 lib) (sl_sha1 lib) bs (sidecar_text sha256_res) (sidecar_text sha1_res) of
                     Inl _ \<Rightarrow> io_fail DigestMismatch
                   | Inr verification \<Rightarrow>
                       io_bind (io_try (cas_put (sl_sha256 lib) bs)) (\<lambda>put_res.
                       case put_res of
                         Inl _ \<Rightarrow> io_fail Unreachable
                       | Inr (cas_hash, _) \<Rightarrow>
                           if cas_hash \<noteq> digest then io_fail DigestMismatch
                           else io_bind (io_get now_unix) (\<lambda>now.
                                io_return (Some (bs, make_entry cas_hash bs (sha1_of verification) roastery_url None None
                                  Roastery now))))))))))"

definition push_to_roastery ::
  "'l source_lib_scheme \<Rightarrow> roastery_client \<Rightarrow> content_hash \<Rightarrow> nat \<Rightarrow> ('a source_world_scheme, unit, 'e) io" where
  "push_to_roastery lib client h len =
     io_bind (io_try (sys_read_file (path_for h))) (\<lambda>opened.
     case opened of
       Inl _ \<Rightarrow> record_push_outcome PushFailed
     | Inr body \<Rightarrow>
         io_bind (io_try (put_blob lib client h body len)) (\<lambda>r.
         record_push_outcome (case r of Inr _ \<Rightarrow> Pushed | Inl _ \<Rightarrow> PushFailed)))"

section \<open>A request\<close>

definition with_coord_lock :: "coord_version_key \<Rightarrow> ('a source_world_scheme, 'b, 'e) io \<Rightarrow> ('a source_world_scheme, 'b, 'e) io" where
  "with_coord_lock k m w =
     (case get_or_create k (sw_locks w) of (i, lm) \<Rightarrow>
        (case m (w\<lparr>sw_locks := take_mutex i lm\<rparr>) of (r, w') \<Rightarrow>
           (r, w'\<lparr>sw_locks := drop_guard i (sw_locks w')\<rparr>)))"

definition serve_disk ::
  "'l source_lib_scheme \<Rightarrow> coords \<Rightarrow> string \<Rightarrow> index_entry \<Rightarrow> ('a world_scheme, bytes, metadata_error) io" where
  "serve_disk lib c version e = io_map_err (map_cas_err lib c version) (cas_get (ie_hash e))"

text \<open>The way upstream, after a miss everywhere else.\<close>

definition fetch_upstream ::
  "'l source_lib_scheme \<Rightarrow> cache_source \<Rightarrow> coords \<Rightarrow> string \<Rightarrow> index_key \<Rightarrow> string \<Rightarrow> string option \<Rightarrow> string option \<Rightarrow>
   ('a source_world_scheme, bytes \<times> fetch_origin, metadata_error) io" where
  "fetch_upstream lib cs c version key typ classifier url_override =
     io_bind (case url_override of
         Some url \<Rightarrow> fetch_url_and_cache lib cs c version url
       | None \<Rightarrow> fetch_and_cache lib cs c version typ classifier no_conditions) (\<lambda>(bs, entry, org).
     io_bind (io_map_err (map_index_err lib c version) (index_put (sl_codec lib) key entry)) (\<lambda>_.
     io_bind (case cs_roastery cs of
         Some client \<Rightarrow> if cs_roastery_push cs \<and> url_override = None
                        then push_to_roastery lib client (ie_hash entry) (ie_size_bytes entry) else io_return ()
       | None \<Rightarrow> io_return ()) (\<lambda>_.
     io_return (bs, org))))"

definition fetch_miss ::
  "'l source_lib_scheme \<Rightarrow> cache_source \<Rightarrow> coords \<Rightarrow> string \<Rightarrow> index_key \<Rightarrow> string \<Rightarrow> string option \<Rightarrow> string option \<Rightarrow>
   ('a source_world_scheme, bytes \<times> fetch_origin, metadata_error) io" where
  "fetch_miss lib cs c version key typ classifier url_override =
     (case (url_override, cs_roastery cs) of
        (None, Some client) \<Rightarrow>
          io_bind (io_try (try_roastery lib cs client c version typ classifier)) (\<lambda>r.
          case r of
            Inr (Some (bs, entry)) \<Rightarrow>
              io_bind (io_map_err (map_index_err lib c version) (index_put (sl_codec lib) key entry)) (\<lambda>_.
              io_bind (record_roastery_outcome Hit) (\<lambda>_.
              io_bind (if cs_roastery_push cs then record_push_outcome SkippedRoasterySource else io_return ()) (\<lambda>_.
              io_return (bs, Remote))))
          | Inr None \<Rightarrow>
              io_bind (record_roastery_outcome Miss) (\<lambda>_. fetch_upstream lib cs c version key typ classifier url_override)
          | Inl outcome \<Rightarrow>
              io_bind (record_roastery_outcome outcome) (\<lambda>_. fetch_upstream lib cs c version key typ classifier url_override))
      | _ \<Rightarrow> fetch_upstream lib cs c version key typ classifier url_override)"

text \<open>What happens under the in-process lock of the key.\<close>

definition locked_request ::
  "'l source_lib_scheme \<Rightarrow> cache_source \<Rightarrow> coords \<Rightarrow> string \<Rightarrow> index_key \<Rightarrow> coord_version_key \<Rightarrow> string \<Rightarrow> string option \<Rightarrow>
   string option \<Rightarrow> ('a source_world_scheme, bytes \<times> fetch_origin, metadata_error) io" where
  "locked_request lib cs c version key lock_key typ classifier url_override =
     io_bind (io_get (\<lambda>w. index_get w key)) (\<lambda>hit.
     case hit of
       Some e \<Rightarrow>
         io_bind (serve_disk lib c version e) (\<lambda>bs.
         io_bind (io_get now_unix) (\<lambda>now.
         io_bind (io_try (index_touch (sl_codec lib) key now)) (\<lambda>_.
         io_return (bs, Disk))))
     | None \<Rightarrow>
         io_bind (io_map_err (map_lock_err lib c version)
             (acquire_with_timeout (\<lambda>s. sl_sha1 lib (str_bytes s)) lock_root lock_key FETCH_LOCK_TIMEOUT)) (\<lambda>_.
         io_bind (io_get (\<lambda>w. index_get w key)) (\<lambda>hit.
         case hit of
           Some e \<Rightarrow> io_bind (serve_disk lib c version e) (\<lambda>bs. io_return (bs, Disk))
         | None \<Rightarrow> fetch_miss lib cs c version key typ classifier url_override)))"

definition get_or_fetch_artifact ::
  "'l source_lib_scheme \<Rightarrow> cache_source \<Rightarrow> coords \<Rightarrow> string \<Rightarrow> index_key \<Rightarrow> coord_version_key \<Rightarrow> string \<Rightarrow> string option \<Rightarrow>
   string option \<Rightarrow> ('a source_world_scheme, bytes \<times> fetch_origin, metadata_error) io" where
  "get_or_fetch_artifact lib cs c version key lock_key typ classifier url_override =
     with_coord_lock lock_key (locked_request lib cs c version key lock_key typ classifier url_override)"

section \<open>The metadata source\<close>

definition source_fetch_pom ::
  "'l source_lib_scheme \<Rightarrow> cache_source \<Rightarrow> coords \<Rightarrow> string \<Rightarrow> ('a source_world_scheme, raw_pom \<times> fetch_origin, metadata_error) io" where
  "source_fetch_pom lib cs c version =
     io_bind (get_or_fetch_artifact lib cs c version (IndexKey c version ''pom'' None) (CoordVersionKey c version) ''pom'' None None)
       (\<lambda>(bs, org).
     io_bind (io_lift (map_err (\<lambda>e. MetaParse ''pom.xml'' (ga_str c) version (sl_display lib (SePom e)))
         (parse_pom (sl_pom_events lib) (sl_unescape lib) (utf8_lossy bs)))) (\<lambda>pom.
     io_return (pom, org)))"

record versions_parser =
  vp_in_versioning :: bool
  vp_in_versions :: bool
  vp_in_version :: bool
  vp_versions :: "string list"

fun versions_step :: "versions_event \<Rightarrow> versions_parser \<Rightarrow> versions_parser" where
  "versions_step (VStart n) p =
     (if n = ''versioning'' then p\<lparr>vp_in_versioning := True\<rparr>
      else if n = ''versions'' \<and> vp_in_versioning p then p\<lparr>vp_in_versions := True\<rparr>
      else if n = ''version'' \<and> vp_in_versions p then p\<lparr>vp_in_version := True\<rparr>
      else p)"
| "versions_step (VEnd n) p =
     (if n = ''versioning'' then p\<lparr>vp_in_versioning := False\<rparr>
      else if n = ''versions'' then p\<lparr>vp_in_versions := False\<rparr>
      else if n = ''version'' then p\<lparr>vp_in_version := False\<rparr>
      else p)"
| "versions_step (VText t) p =
     (if vp_in_version p \<and> trim t \<noteq> [] then p\<lparr>vp_versions := vp_versions p @ [trim t]\<rparr> else p)"
| "versions_step _ p = p"

fun versions_loop :: "versions_event list \<Rightarrow> versions_parser \<Rightarrow> versions_parser" where
  "versions_loop [] p = p"
| "versions_loop (VFail # es) p = p"
| "versions_loop (e # es) p = versions_loop es (versions_step e p)"

definition parse_versions_list :: "versions_event list \<Rightarrow> string list" where
  "parse_versions_list es =
     vp_versions (versions_loop es \<lparr>vp_in_versioning = False, vp_in_versions = False, vp_in_version = False, vp_versions = []\<rparr>)"

definition source_fetch_metadata ::
  "'l source_lib_scheme \<Rightarrow> cache_source \<Rightarrow> coords \<Rightarrow> ('a source_world_scheme, ga_metadata \<times> fetch_origin, metadata_error) io" where
  "source_fetch_metadata lib cs c =
     io_bind (io_map_err (\<lambda>e. case e of metadata_error.NotFound cc _ \<Rightarrow> MetadataNotFound cc | other \<Rightarrow> other)
         (get_or_fetch_artifact lib cs c [] (IndexKey c METADATA_SENTINEL_VERSION ''maven-metadata.xml'' None)
           (CoordVersionKey c METADATA_SENTINEL_VERSION) ''maven-metadata.xml'' None
           (Some (url_for_metadata (cs_fetcher cs) None (co_group c) (co_artifact c))))) (\<lambda>(bs, org).
     io_return (\<lparr>gm_coords = c, gm_versions = parse_versions_list (sl_versions_events lib (utf8_lossy bs)),
       gm_latest_snapshot_timestamp = None, gm_last_updated = None\<rparr>, org))"

text \<open>\<open>str::replace\<close>: every occurrence, from the left.\<close>

function str_replace :: "string \<Rightarrow> string \<Rightarrow> string \<Rightarrow> string" where
  "str_replace from to s =
     (if s = [] \<or> from = [] then s
      else if starts_with s from then to @ str_replace from to (drop (length from) s)
      else hd s # str_replace from to (tl s))"
  by pat_completeness auto

termination by (relation "measure (\<lambda>(_, _, s). length s)") auto

declare str_replace.simps [simp del]

text \<open>The inner \<open>None\<close> is the panic of \<open>strip_snapshot_suffix\<close> (see \<open>Snapshot\<close>).\<close>

definition source_fetch_snapshot_info ::
  "'l source_lib_scheme \<Rightarrow> cache_source \<Rightarrow> coords \<Rightarrow> string \<Rightarrow>
   ('a source_world_scheme, snapshot_info option \<times> fetch_origin, metadata_error) io" where
  "source_fetch_snapshot_info lib cs c version =
     (let sentinel = snapshot_meta_version version;
          base = url_for_metadata (cs_fetcher cs) None (co_group c) (co_artifact c);
          url = str_replace ''/maven-metadata.xml'' (''/'' @ version @ ''/maven-metadata.xml'') base in
      io_bind (get_or_fetch_artifact lib cs c version (IndexKey c sentinel ''maven-metadata.xml'' None)
          (CoordVersionKey c sentinel) ''maven-metadata.xml'' None (Some url)) (\<lambda>(bs, org).
      io_bind (io_lift (map_err (\<lambda>e. MetaParse ''maven-metadata.xml'' (ga_str c) version (sl_display lib (SeSnapshot e)))
          (parse_snapshot_metadata (sl_snapshot_events lib (utf8_lossy bs))))) (\<lambda>info.
      io_return (info, org))))"

end
