(* ===== verification/CacheSourceProps.thy ===== *)
theory CacheSourceProps
  imports CacheSource
begin

text \<open>
  Properties of the cache as a metadata source: what it serves is what its index and store
  say, no server can poison the store, a second request needs no network, and a row whose
  blob is gone is never repaired by a request.
\<close>

section \<open>Frames\<close>

lemma keeps_mono: "keeps R m \<Longrightarrow> (\<And>w w'. R w w' \<Longrightarrow> S w w') \<Longrightarrow> keeps S m"
  by (simp add: keeps_def)

lemma keeps_both: "keeps R m \<Longrightarrow> keeps S m \<Longrightarrow> keeps (\<lambda>w w'. R w w' \<and> S w w') m"
  by (simp add: keeps_def)

lemma wp_snd: "wp m (\<lambda>_. P) (\<lambda>_. P) w \<longleftrightarrow> P (snd (m w))"
  by (simp add: wp_def split: prod.split sum.split)

text \<open>Programs that change files, the clock and counters only.\<close>

definition files_only :: "'a world_scheme \<Rightarrow> 'a world_scheme \<Rightarrow> bool" where
  "files_only w w' \<longleftrightarrow> (\<exists>fs n t k. w' = w\<lparr>wd_fs := fs, wd_calls := n, wd_clock := t, wd_tmp_counter := k\<rparr>)"

lemma files_only_trans: "files_only u v \<Longrightarrow> files_only v w \<Longrightarrow> files_only u w"
  by (auto simp: files_only_def) (cases u; auto)+

lemma files_only_step: "files_only w (w\<lparr>wd_fs := fs, wd_calls := n\<rparr>)" "files_only w (w\<lparr>wd_clock := t\<rparr>)"
    "files_only w (w\<lparr>wd_tmp_counter := k\<rparr>)" "files_only w (w\<lparr>wd_calls := n\<rparr>)" "files_only w w"
  by (cases w; auto simp: files_only_def)+

interpretation files: frame_relation files_only
  by unfold_locales (auto intro: files_only_trans files_only_step)

lemma files_only_sys: "keeps files_only (syscall act f)" "keeps files_only (sys_write_part p d)"
  by (auto simp: keeps_def syscall_def sys_write_part_def split: option.split prod.split intro: files_only_step)

lemmas files_calls = files.keeps_structure files_only_sys

lemma files_only_calls:
  "keeps files_only (sys_exists p)" "keeps files_only sys_nop" "keeps files_only (sys_read_file p)"
  "keeps files_only (sys_open_create p)" "keeps files_only (sys_open_new p)" "keeps files_only (sys_write p d)"
  "keeps files_only (sys_rename p q)" "keeps files_only (sys_unlink p)"
  unfolding sys_exists_def sys_len_def sys_nop_def sys_read_file_def sys_pure_def sys_open_create_def sys_open_new_def
    sys_write_def sys_rename_def sys_unlink_def
  by (intro files_calls)+

lemma files_only_cas: "keeps files_only (cas_put sha d)" "keeps files_only (cas_get h)"
  unfolding cas_put_def cas_get_def cas_at_def finalize_tmp_def fresh_tmp_path_def Let_def
  by (auto intro!: files_calls files_only_calls files.keeps_modify files_only_step split: sum.split prod.split)

lemma files_only_attempt: "keeps files_only (acquire_blocking_once p)"
  unfolding acquire_blocking_once_def
  by (auto intro!: files_calls files_only_calls split: sum.split io_error.split)

text \<open>A polling loop keeps what its attempts and its pauses keep.\<close>

lemma timed_loop_kept:
  assumes R: "frame_relation R" and p: "keeps R (acquire_blocking_once p)" and pause: "\<And>w n. R w (paused n w)"
  shows "R w (snd (timed_loop p timeout deadline i w))"
  using p
proof (induction p timeout deadline i w rule: timed_loop.induct)
  case (1 p timeout deadline i w)
  obtain r w' where t: "acquire_blocking_once p w = (r, w')" by fastforce
  have tried: "R w w'" using 1(2) t unfolding keeps_def by (metis snd_conv)
  then have slept: "R w (paused n w')" for n using pause frame_relation.frame_trans [OF R] by blast
  show ?case
    using 1 t tried by (subst timed_loop.simps) (auto split: sum.split intro: frame_relation.frame_trans [OF R slept])
qed

lemma files_only_lock: "keeps files_only (acquire_with_timeout sha1 root k timeout)"
  unfolding keeps_def acquire_with_timeout_def
  by (rule allI, rule timed_loop_kept [OF files.frame_relation_axioms files_only_attempt])
    (simp add: paused_def files_only_step)

text \<open>What only touches files keeps the index, the requests and the fault schedule.\<close>

lemma files_only_fields:
  "files_only w w' \<Longrightarrow> wd_faults w' = wd_faults w"
  "files_only (v :: 'a index_world_scheme) v' \<Longrightarrow> ix_entries v' = ix_entries v"
  "files_only (u :: 'a net_world_scheme) u' \<Longrightarrow> nw_sent u' = nw_sent u"
  by (auto simp: files_only_def)

section \<open>The store\<close>

text \<open>Names stay true, and no blob disappears.\<close>

definition store_kept :: "(bytes \<Rightarrow> content_hash) \<Rightarrow> 'a world_scheme \<Rightarrow> 'a world_scheme \<Rightarrow> bool" where
  "store_kept sha w w' \<longleftrightarrow> (cas_ok sha (wd_fs w) \<longrightarrow> cas_ok sha (wd_fs w') \<and>
     (\<forall>h. fs_read (wd_fs w) (path_for h) \<noteq> None \<longrightarrow> fs_read (wd_fs w') (path_for h) \<noteq> None))"

interpretation store: frame_relation "store_kept sha" for sha
  by unfold_locales (auto simp: store_kept_def)

lemma store_kept_same: "(\<And>h. fs_read (wd_fs w') (path_for h) = fs_read (wd_fs w) (path_for h)) \<Longrightarrow> store_kept sha w w'"
  by (simp add: store_kept_def cas_ok_def)

lemma outside_store: "outside_kept w w' \<Longrightarrow> store_kept sha w w'"
  by (rule store_kept_same) (simp add: fs_read_def outside_kept_get)

lemma store_kept_index:
  fixes c :: codec
  shows "keeps (store_kept sha) (index_put c k e :: ('a index_world_scheme, unit, index_error) io)"
    "keeps (store_kept sha) (index_touch c k t :: ('a index_world_scheme, bool, index_error) io)"
  by (rule keeps_mono [OF keeps_index(1) outside_store] keeps_mono [OF keeps_index(3) outside_store], assumption)+

lemma store_kept_read: "keeps (store_kept sha) (sys_read_file p)" "keeps (store_kept sha) (cas_get h)"
proof -
  show "keeps (store_kept sha) (sys_read_file p)" for p
    by (rule keeps_mono [OF keeps_pure_sys(4) outside_store])
  then show "keeps (store_kept sha) (cas_get h)"
    unfolding cas_get_def cas_at_def by (intro store.keeps_structure)
qed

lemma store_kept_http: "keeps (store_kept sha) (http_send lib rq)"
  by (auto simp: keeps_def http_send_def intro: store_kept_same)

lemma store_kept_put: "keeps (store_kept sha) (cas_put sha d)"
proof -
  have "wp (cas_put sha d) (\<lambda>_ w'. \<forall>h. fs_read (wd_fs w) (path_for h) \<noteq> None \<longrightarrow> fs_read (wd_fs w') (path_for h) \<noteq> None)
    (\<lambda>_ w'. \<forall>h. fs_read (wd_fs w) (path_for h) \<noteq> None \<longrightarrow> fs_read (wd_fs w') (path_for h) \<noteq> None) w" for w :: "'a world_scheme"
    unfolding cas_put_def cas_at_def sys_nop_def sys_pure_def sys_open_new_def Let_def finalize_tmp_def
      sys_rename_def sys_unlink_def sys_exists_def sys_len_def sys_write_def
    by (auto simp: wp_simps fs_append_def split: option.split)
  then have kept: "fs_read (wd_fs w) (path_for h) \<noteq> None \<Longrightarrow> fs_read (wd_fs (snd (cas_put sha d w))) (path_for h) \<noteq> None"
    for w :: "'a world_scheme" and h
    unfolding wp_snd by blast
  have "cas_ok sha (wd_fs (snd (cas_put sha d w)))" if "cas_ok sha (wd_fs w)" for w :: "'a world_scheme"
    using wp_mono [OF cas_put_wp [OF that, of d], of "\<lambda>_ w'. cas_ok sha (wd_fs w')" "\<lambda>_ w'. cas_ok sha (wd_fs w')"]
    unfolding wp_snd by (auto simp: published_def)
  then show ?thesis using kept by (simp add: keeps_def store_kept_def)
qed

lemma lock_path_not_object: "lock_path sha1 lock_root k \<noteq> path_for h"
  by (simp add: lock_path_def lock_root_def path_for_def OBJECTS_DIR_def Let_def)

lemma store_kept_nop: "keeps (store_kept sha) sys_nop"
  by (rule keeps_mono [OF keeps_pure_sys(2) outside_store])

lemma store_kept_open: "(\<And>h. p \<noteq> path_for h) \<Longrightarrow> keeps (store_kept sha) (sys_open_create p)"
  unfolding keeps_def sys_open_create_def syscall_def
  by (auto intro!: store_kept_same split: option.split) metis+

lemma store_kept_attempt: "(\<And>h. p \<noteq> path_for h) \<Longrightarrow> keeps (store_kept sha) (acquire_blocking_once p)"
  unfolding acquire_blocking_once_def
  by (intro store.keeps_structure store_kept_nop store_kept_open)
    (auto intro!: store.keeps_structure split: sum.split io_error.split)

lemma store_kept_lock: "keeps (store_kept sha) (acquire_with_timeout sha1 lock_root k timeout)"
  unfolding keeps_def acquire_with_timeout_def
  by (rule allI, rule timed_loop_kept [OF store.frame_relation_axioms store_kept_attempt [OF lock_path_not_object]])
    (simp add: store_kept_same paused_def)

section \<open>Every request keeps the store\<close>

lemma store_kept_requests:
  "keeps (store_kept sha) (fetch lib cfg url cond)" "keeps (store_kept sha) (get_blob_with_coords lib rc digest coords)"
  "keeps (store_kept sha) (put_blob lib rc digest body len)"
  unfolding fetch_def get_blob_with_coords_def get_blob_inner_def put_blob_def send_def
  by (auto intro!: store.keeps_structure store_kept_http)

lemma store_kept_fetches:
  "keeps (store_kept (sl_sha256 lib)) (fetch_and_cache lib cs c version typ classifier cond)"
  "keeps (store_kept (sl_sha256 lib)) (fetch_url_and_cache lib cs c version url)"
  "keeps (store_kept (sl_sha256 lib)) (try_roastery lib cs client c version typ classifier)"
  unfolding fetch_and_cache_def fetch_url_and_cache_def try_roastery_def Let_def
  by (auto intro!: store.keeps_structure store_kept_requests store_kept_put
      split: sum.split option.split fetch_outcome.split client_error.split)

lemma store_kept_observers: "keeps (store_kept sha) (record_roastery_outcome r)" "keeps (store_kept sha) (record_push_outcome p)"
  unfolding record_roastery_outcome_def record_push_outcome_def
  by (auto intro!: store.keeps_modify store_kept_same)

lemma store_kept_push: "keeps (store_kept sha) (push_to_roastery lib client h len)"
  unfolding push_to_roastery_def
  by (auto intro!: store.keeps_structure store_kept_read store_kept_requests store_kept_observers split: sum.split)

lemma store_kept_miss:
  "keeps (store_kept (sl_sha256 lib)) (fetch_upstream lib cs c version key typ classifier url_override)"
  "keeps (store_kept (sl_sha256 lib)) (fetch_miss lib cs c version key typ classifier url_override)"
proof -
  show up: "keeps (store_kept (sl_sha256 lib)) (fetch_upstream lib cs c version key typ classifier url_override)"
    for url_override
    unfolding fetch_upstream_def
    by (auto intro!: store.keeps_structure store_kept_fetches store_kept_index store_kept_push split: option.split)
  show "keeps (store_kept (sl_sha256 lib)) (fetch_miss lib cs c version key typ classifier url_override)"
    unfolding fetch_miss_def
    by (auto intro!: store.keeps_structure store_kept_fetches store_kept_index store_kept_observers up
        split: option.split sum.split)
qed

text \<open>Taking and dropping the in-process lock changes the lock map only.\<close>

lemma keeps_with_coord_lock:
  fixes m :: "('a source_world_scheme, 'b, 'e) io"
  assumes R: "frame_relation R" and m: "keeps R m" and locks: "\<And>w f. R w (w\<lparr>sw_locks := f\<rparr>)"
  shows "keeps R (with_coord_lock k m)"
  unfolding keeps_def with_coord_lock_def
proof
  fix w :: "'a source_world_scheme"
  obtain i lm where g: "get_or_create k (sw_locks w) = (i, lm)" by fastforce
  let ?w = "w\<lparr>sw_locks := take_mutex i lm\<rparr>"
  obtain r w' where m': "m ?w = (r, w')" by fastforce
  have "R w w'"
    using locks [of w] m m' frame_relation.frame_trans [OF R, of w ?w w'] unfolding keeps_def by (metis snd_conv)
  then show "R w (snd (case get_or_create k (sw_locks w) of
      (i, lm) \<Rightarrow> case m (w\<lparr>sw_locks := take_mutex i lm\<rparr>) of (r, w') \<Rightarrow> (r, w'\<lparr>sw_locks := drop_guard i (sw_locks w')\<rparr>)))"
    using g m' locks frame_relation.frame_trans [OF R, of w w'] by simp
qed

lemma store_kept_request:
  "keeps (store_kept (sl_sha256 lib)) (get_or_fetch_artifact lib cs c version key lock_key typ classifier url_override)"
  unfolding get_or_fetch_artifact_def locked_request_def serve_disk_def
  by (rule keeps_with_coord_lock [OF store.frame_relation_axioms],
    intro store.keeps_structure,
    auto intro!: store.keeps_structure store_kept_read store_kept_index store_kept_lock store_kept_miss split: option.split)
    (simp add: store_kept_same)

section \<open>What a request returns\<close>

text \<open>The row for the data, with its blob in the store.\<close>

definition row_of :: "(bytes \<Rightarrow> content_hash) \<Rightarrow> bytes \<Rightarrow> index_entry \<Rightarrow> fs \<Rightarrow> bool" where
  "row_of sha bs e fs \<longleftrightarrow> ie_hash e = sha bs \<and> (\<exists>d. fs_read fs (path_for (sha bs)) = Some d \<and> sha d = sha bs)"

lemma wp_keeps:
  assumes "keeps R m" "wp m Q E w"
  shows "wp m (\<lambda>x w'. Q x w' \<and> R w w') (\<lambda>e w'. E e w' \<and> R w w') w"
  using assms unfolding keeps_def wp_def by (auto split: prod.splits sum.splits) (metis snd_conv)+

lemma wp_http: "wp (http_send lib rq) Q E w =
    (case hl_send lib (length (nw_sent w)) rq of Inr x \<Rightarrow> Q x (w\<lparr>nw_sent := nw_sent w @ [rq]\<rparr>)
     | Inl e \<Rightarrow> E e (w\<lparr>nw_sent := nw_sent w @ [rq]\<rparr>))"
  by (simp add: wp_def http_send_def split: sum.split)

text \<open>Requests change the list of requests only.\<close>

definition sends_only :: "'a net_world_scheme \<Rightarrow> 'a net_world_scheme \<Rightarrow> bool" where
  "sends_only w w' \<longleftrightarrow> (\<exists>rs. w' = w\<lparr>nw_sent := nw_sent w @ rs\<rparr>)"

lemma sends_only_trans: "sends_only u v \<Longrightarrow> sends_only v w \<Longrightarrow> sends_only u w"
  by (auto simp: sends_only_def)

interpretation sends: frame_relation sends_only
proof unfold_locales
  show "sends_only w w" for w :: "'a net_world_scheme" by (simp add: sends_only_def exI [of _ "[]"])
qed (rule sends_only_trans)

lemma sends_only_requests:
  "keeps sends_only (fetch lib cfg url cond)" "keeps sends_only (get_blob_with_coords lib rc digest coords)"
  "keeps sends_only (put_blob lib rc digest body len)"
proof -
  have "keeps sends_only (http_send lib rq)" for rq
    by (auto simp: keeps_def http_send_def sends_only_def)
  then show "keeps sends_only (fetch lib cfg url cond)" "keeps sends_only (get_blob_with_coords lib rc digest coords)"
    "keeps sends_only (put_blob lib rc digest body len)"
    unfolding fetch_def get_blob_with_coords_def get_blob_inner_def put_blob_def send_def
    by (auto intro!: sends.keeps_structure)
qed

lemma sends_only_fields:
  "sends_only w w' \<Longrightarrow> wd_fs w' = wd_fs w" "sends_only w w' \<Longrightarrow> ix_entries w' = ix_entries w"
  "sends_only w w' \<Longrightarrow> wd_faults w' = wd_faults w"
  by (auto simp: sends_only_def)

lemma wp_of_keeps:
  assumes "keeps R m" "\<And>x w'. R w w' \<Longrightarrow> Q x w'" "\<And>e w'. R w w' \<Longrightarrow> E e w'"
  shows "wp m Q E w"
  using assms unfolding keeps_def wp_def by (auto split: prod.split sum.split) (metis snd_conv)+

lemmas wp_requests = sends_only_requests [THEN wp_of_keeps]

lemma wp_put:
  fixes w :: "'a index_world_scheme"
  assumes "cas_ok sha (wd_fs w)"
    and Q: "\<And>p w' d. fs_read (wd_fs w') (path_for (sha bs)) = Some d \<Longrightarrow> sha d = sha bs \<Longrightarrow> cas_ok sha (wd_fs w') \<Longrightarrow>
        ix_entries w' = ix_entries w \<Longrightarrow> Q (sha bs, p) w'"
    and E: "\<And>e w'. cas_ok sha (wd_fs w') \<Longrightarrow> ix_entries w' = ix_entries w \<Longrightarrow> E e w'"
  shows "wp (cas_put sha bs) Q E w"
proof -
  have "wp (cas_put sha bs) (\<lambda>hp w'. (published sha bs (wd_fs w) (wd_fs w') \<and> stored sha bs (wd_fs w') hp) \<and> files_only w w')
      (\<lambda>e w'. published sha bs (wd_fs w) (wd_fs w') \<and> files_only w w') w"
    by (rule wp_keeps [OF files_only_cas(1) cas_put_wp [OF assms(1)]])
  then show ?thesis
  proof (rule wp_mono)
    fix hp w' assume "(published sha bs (wd_fs w) (wd_fs w') \<and> stored sha bs (wd_fs w') hp) \<and> files_only w w'"
    then show "Q hp w'"
      using Q files_only_fields(2) [of w w'] by (cases hp) (auto simp: stored_def published_def)
  next
    fix e w' assume "published sha bs (wd_fs w) (wd_fs w') \<and> files_only w w'"
    then show "E e w'" using E files_only_fields(2) [of w w'] by (auto simp: published_def)
  qed
qed

text \<open>What a fetch hands on: the data, the row to record, and the origin.\<close>

definition fetched :: "(bytes \<Rightarrow> content_hash) \<Rightarrow> 'a index_world_scheme \<Rightarrow> bytes \<Rightarrow> index_entry \<Rightarrow> 'a index_world_scheme \<Rightarrow> bool" where
  "fetched sha w bs e w' \<longleftrightarrow> row_of sha bs e (wd_fs w') \<and> ie_size_bytes e = length bs \<and> cas_ok sha (wd_fs w') \<and>
     ix_entries w' = ix_entries w"

lemma fetch_url_and_cache_wp:
  assumes "cas_ok (sl_sha256 lib) (wd_fs w)"
  shows "wp (fetch_url_and_cache lib cs c version url)
    (\<lambda>(bs, e, org) w'. fetched (sl_sha256 lib) w bs e w' \<and> org = Remote) (\<lambda>_ _. True) w"
  unfolding fetch_url_and_cache_def wp_simps
  by (rule wp_requests(1)) (auto simp: wp_simps sends_only_fields assms fetched_def row_of_def make_entry_def
      intro!: wp_put split: fetch_outcome.split)

lemma fetch_and_cache_wp:
  assumes "cas_ok (sl_sha256 lib) (wd_fs w)"
  shows "wp (fetch_and_cache lib cs c version typ classifier cond)
    (\<lambda>(bs, e, org) w'. fetched (sl_sha256 lib) w bs e w' \<and> org = Remote) (\<lambda>_ _. True) w"
  unfolding fetch_and_cache_def Let_def wp_simps
  by (intro wp_requests(1); auto simp: wp_simps sends_only_fields assms fetched_def row_of_def make_entry_def
      intro!: wp_put split: sum.split fetch_outcome.split)

section \<open>The shared cache\<close>

lemma lower_hex_id: "list_all is_lower_hex s \<Longrightarrow> lower s = s"
  by (induction s) (auto simp: lower_def is_lower_hex_def ascii_lower_def Let_def)

lemma digest_from_hex_to_hex: "digest_from_hex s = Inr d \<Longrightarrow> to_hex d = s"
  using to_hex_decode [of s d] lower_hex_id [of s]
  by (auto simp: digest_from_hex_def HEX_LEN_def map_err_Inr_iff split: if_splits)

lemma asked_digest_Some: "asked_digest sidecar = Some d \<Longrightarrow> \<exists>s. sidecar = Some s \<and> to_hex d = lower (first_token s)"
  by (auto simp: asked_digest_def Let_def split: option.splits if_splits sum.splits dest: digest_from_hex_to_hex)

lemma wp_try_value:
  assumes "keeps R m" "\<And>w'. R w w' \<Longrightarrow> Q (fst (m w)) w'"
  shows "wp (io_try m) Q E w"
  using assms unfolding keeps_def wp_def io_try_def by (auto split: prod.split) (metis snd_conv)

definition sha256_sidecar ::
  "'l source_lib_scheme \<Rightarrow> cache_source \<Rightarrow> coords \<Rightarrow> string \<Rightarrow> string \<Rightarrow> string option \<Rightarrow> 'a net_world_scheme \<Rightarrow> string option" where
  "sha256_sidecar lib cs c version typ classifier w =
     sidecar_text (fst (fetch lib (cs_fetcher cs)
       (url_for_sidecar (url_for_artifact (cs_fetcher cs) None (co_group c) (co_artifact c) version classifier typ) ''sha256'')
       no_conditions w))"

lemma try_roastery_wp:
  assumes "cas_ok (sl_sha256 lib) (wd_fs w)"
  shows "wp (try_roastery lib cs client c version typ classifier)
    (\<lambda>r w'. (case r of None \<Rightarrow> cas_ok (sl_sha256 lib) (wd_fs w') \<and> ix_entries w' = ix_entries w
       | Some (bs, e) \<Rightarrow> fetched (sl_sha256 lib) w bs e w' \<and>
          or_tier (ie_origin e) = Roastery \<and>
          (\<exists>s. sha256_sidecar lib cs c version typ classifier w = Some s \<and>
               to_hex (sl_sha256 lib bs) = lower (first_token s))))
    (\<lambda>_ w'. cas_ok (sl_sha256 lib) (wd_fs w') \<and> ix_entries w' = ix_entries w) w"
  unfolding try_roastery_def Let_def wp_bind
proof (rule wp_try_value [OF sends_only_requests(1)], rule wp_try_value [OF sends_only_requests(1)], goal_cases)
  case (1 w1 w2)
  then have same: "wd_fs w2 = wd_fs w" "ix_entries w2 = ix_entries w" by (auto simp: sends_only_fields)
  show ?case
  proof (cases "asked_digest (sha256_sidecar lib cs c version typ classifier w)")
    case None
    then show ?thesis using same assms by (simp add: sha256_sidecar_def wp_simps)
  next
    case (Some digest)
    then obtain s where s: "sha256_sidecar lib cs c version typ classifier w = Some s" "to_hex digest = lower (first_token s)"
      using asked_digest_Some by blast
    show ?thesis
      using Some s same assms unfolding sha256_sidecar_def
      by (auto simp: wp_simps sends_only_fields fetched_def row_of_def make_entry_def
          intro!: wp_requests(2) wp_put split: client_error.split sum.split)
  qed
qed

section \<open>The answer of a request\<close>

text \<open>The key's row names the data that were returned, and the store holds them.\<close>

definition served :: "(bytes \<Rightarrow> content_hash) \<Rightarrow> index_key \<Rightarrow> bytes \<Rightarrow> 'a index_world_scheme \<Rightarrow> bool" where
  "served sha key bs w \<longleftrightarrow> cas_ok sha (wd_fs w) \<and> (\<exists>e. index_get w key = Some e \<and> row_of sha bs e (wd_fs w))"

lemma served_kept:
  assumes "served sha key bs w" "store_kept sha w w'" "ix_entries w' = ix_entries w"
  shows "served sha key bs w'"
proof -
  obtain e where e: "index_get w key = Some e" "ie_hash e = sha bs" "fs_read (wd_fs w) (path_for (sha bs)) \<noteq> None"
    and ok: "cas_ok sha (wd_fs w)"
    using assms(1) by (auto simp: served_def row_of_def)
  then have "cas_ok sha (wd_fs w')" "fs_read (wd_fs w') (path_for (sha bs)) \<noteq> None"
    using assms(2) by (auto simp: store_kept_def)
  then show ?thesis using e assms(3) by (auto simp: served_def row_of_def index_get_def cas_ok_def)
qed

lemma entries_kept_parts:
  "keeps entries_kept (sys_read_file p)" "keeps entries_kept (put_blob lib rc digest body len)"
  "keeps entries_kept (record_push_outcome r)" "keeps entries_kept (record_roastery_outcome ro)"
proof -
  show "keeps entries_kept (sys_read_file p)"
    by (rule keeps_mono [OF files_only_calls(3)]) (simp add: entries_kept_def files_only_fields)
  show "keeps entries_kept (put_blob lib rc digest body len)"
    by (rule keeps_mono [OF sends_only_requests(3)]) (simp add: entries_kept_def sends_only_fields)
qed (auto simp: keeps_def entries_kept_def record_push_outcome_def record_roastery_outcome_def io_modify_def)

lemma entries_kept_push: "keeps entries_kept (push_to_roastery lib client h len)"
  unfolding push_to_roastery_def
  by (auto intro!: map_frame.keeps_structure entries_kept_parts split: sum.split)

lemma index_put_row:
  fixes w :: "'a index_world_scheme"
  shows "wp (index_put c k e) (\<lambda>_ w'. index_get w' k = Some e \<and> store_kept sha w w') (\<lambda>_ _. True) w"
proof -
  have a: "wp (journal_append c journal_path (JPut k e)) (\<lambda>_. entries_kept w) (\<lambda>_. entries_kept w) w"
    using map_frame.keeps_append unfolding keeps_wp by blast
  have b: "wp (maybe_compact c) (\<lambda>_. entries_kept v) (\<lambda>_. entries_kept v) v" for v :: "'a index_world_scheme"
    using keeps_entries_compact(2) unfolding keeps_wp by blast
  have "wp (index_put c k e) (\<lambda>_ w'. ix_entries w' = bt_insert k e (ix_entries w)) (\<lambda>_ _. True) w"
    unfolding index_put_def wp_bind wp_map_err
    by (rule wp_mono [OF a]) (auto simp: wp_simps commit_def entries_kept_def intro!: wp_mono [OF b])
  from wp_keeps [OF store_kept_index(1) this] show ?thesis
    by (rule wp_mono) (auto simp: index_get_def map_of_bt_insert)
qed

lemma index_touch_row:
  fixes w :: "'a index_world_scheme"
  assumes "index_get w k = Some e"
  defines "Q \<equiv> \<lambda>w'. \<exists>e'. index_get w' k = Some e' \<and> ie_hash e' = ie_hash e"
  shows "wp (index_touch c k t) (\<lambda>_. Q) (\<lambda>_. Q) w"
proof -
  have a: "wp (journal_append c journal_path (JTouch k t)) (\<lambda>_. entries_kept w) (\<lambda>_. entries_kept w) w"
    using map_frame.keeps_append unfolding keeps_wp by blast
  have b: "wp (maybe_compact c) (\<lambda>_. entries_kept v) (\<lambda>_. entries_kept v) v" for v :: "'a index_world_scheme"
    using keeps_entries_compact(2) unfolding keeps_wp by blast
  show ?thesis
    unfolding index_touch_def wp_bind wp_map_err
    by (rule wp_mono [OF a])
      (use assms in \<open>auto simp: wp_simps commit_def entries_kept_def index_get_def map_of_bt_update intro!: wp_mono [OF b]\<close>)
qed

lemma put_then_served:
  assumes "fetched sha w0 bs e w"
  shows "wp (index_put c k e) (\<lambda>_. served sha k bs) (\<lambda>_ _. True) w"
proof (rule wp_mono [OF index_put_row [of c k e sha w]])
  fix w' assume r: "index_get w' k = Some e \<and> store_kept sha w w'"
  have "ie_hash e = sha bs" "fs_read (wd_fs w) (path_for (sha bs)) \<noteq> None" "cas_ok sha (wd_fs w)"
    using assms by (auto simp: fetched_def row_of_def)
  then show "served sha k bs w'"
    using r by (auto simp: served_def row_of_def store_kept_def cas_ok_def)
qed

lemma served_push:
  assumes "served sha key bs w"
  shows "wp (push_to_roastery lib client h len) (\<lambda>_. served sha key bs) (\<lambda>_ _. True) w"
  by (rule wp_of_keeps [OF keeps_both [OF store_kept_push entries_kept_push]])
    (use assms in \<open>auto simp: entries_kept_def intro: served_kept\<close>)

lemma fetch_upstream_wp:
  assumes "cas_ok (sl_sha256 lib) (wd_fs w)"
  shows "wp (fetch_upstream lib cs c version key typ classifier url_override)
    (\<lambda>(bs, org) w'. served (sl_sha256 lib) key bs w' \<and> org = Remote) (\<lambda>_ _. True) w"
proof -
  let ?get = "case url_override of Some url \<Rightarrow> fetch_url_and_cache lib cs c version url
    | None \<Rightarrow> fetch_and_cache lib cs c version typ classifier no_conditions"
  have "wp ?get (\<lambda>(bs, e, org) w'. fetched (sl_sha256 lib) w bs e w' \<and> org = Remote) (\<lambda>_ _. True) w"
    using fetch_url_and_cache_wp [OF assms] fetch_and_cache_wp [OF assms] by (simp split: option.split)
  then show ?thesis
    unfolding fetch_upstream_def wp_bind
    by (rule wp_mono)
      (auto simp: wp_simps intro!: wp_mono [OF put_then_served] wp_mono [OF served_push] split: option.split)
qed

lemma cas_ok_observed [simp]:
  "cas_ok sha (wd_fs w) \<Longrightarrow> cas_ok sha (wd_fs (w\<lparr>sw_observer := r\<rparr>))" by simp

lemma served_observed [simp]: "served sha key bs (w\<lparr>sw_observer := r\<rparr>) = served sha key bs w"
  "served sha key bs (w\<lparr>sw_push_observer := r'\<rparr>) = served sha key bs w" "served sha key bs (w\<lparr>sw_locks := lm\<rparr>) = served sha key bs w"
  by (simp_all add: served_def index_get_def)

lemma fetch_miss_wp:
  assumes "cas_ok (sl_sha256 lib) (wd_fs w)"
  shows "wp (fetch_miss lib cs c version key typ classifier url_override)
    (\<lambda>(bs, org) w'. served (sl_sha256 lib) key bs w' \<and> org = Remote) (\<lambda>_ _. True) w"
proof (cases "url_override = None \<and> cs_roastery cs \<noteq> None")
  case False
  then show ?thesis
    using fetch_upstream_wp [OF assms] unfolding fetch_miss_def by (auto split: option.split)
next
  case True
  then obtain client where u: "url_override = None" "cs_roastery cs = Some client" by auto
  show ?thesis
    unfolding fetch_miss_def u prod.case option.case wp_bind wp_try
    by (rule wp_mono [OF try_roastery_wp [OF assms]])
      (auto simp: wp_simps record_roastery_outcome_def record_push_outcome_def
        intro!: fetch_upstream_wp wp_mono [OF put_then_served] split: option.splits)
qed

lemma wp_with_coord_lock:
  assumes "\<And>lm. wp m Q E (w\<lparr>sw_locks := lm\<rparr>)" "\<And>x w' lm. Q x w' \<Longrightarrow> Q x (w'\<lparr>sw_locks := lm\<rparr>)"
    "\<And>e w' lm. E e w' \<Longrightarrow> E e (w'\<lparr>sw_locks := lm\<rparr>)"
  shows "wp (with_coord_lock k m) Q E w"
  using assms unfolding wp_def with_coord_lock_def by (fastforce split: prod.splits sum.splits)

lemma serve_disk_wp:
  assumes "cas_ok sha (wd_fs w)"
  shows "wp (serve_disk lib c version e) (\<lambda>bs w'. ie_hash e = sha bs \<and> fs_read (wd_fs w) (path_for (sha bs)) = Some bs \<and>
      wd_fs w' = wd_fs w \<and> files_only w w') (\<lambda>_ _. True) w"
  using assms
  by (auto simp: serve_disk_def cas_get_def cas_at_def sys_read_file_def sys_pure_def wp_simps cas_ok_def files_only_step
      split: option.split)

lemma disk_served:
  assumes "index_get w key = Some e" "cas_ok sha (wd_fs w)"
  shows "wp (serve_disk lib c version e) (\<lambda>bs w'. served sha key bs w' \<and> index_get w' key = Some e) (\<lambda>_ _. True) w"
  by (rule wp_mono [OF serve_disk_wp [OF assms(2)]])
    (use assms in \<open>auto simp: served_def row_of_def index_get_def files_only_fields\<close>)

lemma touch_served:
  assumes "served sha key bs w"
  shows "wp (index_touch c key t) (\<lambda>_. served sha key bs) (\<lambda>_. served sha key bs) w"
proof -
  obtain e where e: "index_get w key = Some e" "row_of sha bs e (wd_fs w)" and ok: "cas_ok sha (wd_fs w)"
    using assms by (auto simp: served_def)
  have kept: "served sha key bs w'" if "\<exists>e'. index_get w' key = Some e' \<and> ie_hash e' = ie_hash e" "store_kept sha w w'" for w'
  proof -
    have "fs_read (wd_fs w) (path_for (sha bs)) \<noteq> None" "ie_hash e = sha bs" using e by (auto simp: row_of_def)
    then have "cas_ok sha (wd_fs w')" "fs_read (wd_fs w') (path_for (sha bs)) \<noteq> None"
      using that(2) ok unfolding store_kept_def by blast+
    then show ?thesis using that(1) \<open>ie_hash e = sha bs\<close> by (auto simp: served_def row_of_def cas_ok_def)
  qed
  show ?thesis
    by (rule wp_mono [OF wp_keeps [OF store_kept_index(2) index_touch_row [OF e(1)]]]; elim conjE; rule kept)
qed

lemma locked_request_wp:
  assumes "cas_ok (sl_sha256 lib) (wd_fs w)"
  shows "wp (locked_request lib cs c version key lock_key typ classifier url_override)
    (\<lambda>r. served (sl_sha256 lib) key (fst r)) (\<lambda>_ _. True) w"
proof -
  let ?sha = "sl_sha256 lib"
  have lock: "wp (acquire_with_timeout (\<lambda>s. sl_sha1 lib (str_bytes s)) lock_root lock_key FETCH_LOCK_TIMEOUT)
      (\<lambda>_ w'. cas_ok ?sha (wd_fs w')) (\<lambda>_ _. True) w"
    by (rule wp_of_keeps [OF store_kept_lock]) (use assms in \<open>auto simp: store_kept_def\<close>)
  have second: "wp (case index_get v key of
        Some e \<Rightarrow> io_bind (serve_disk lib c version e) (\<lambda>bs. io_return (bs, Disk))
      | None \<Rightarrow> fetch_miss lib cs c version key typ classifier url_override)
      (\<lambda>r. served ?sha key (fst r)) (\<lambda>_ _. True) v" if "cas_ok ?sha (wd_fs v)" for v :: "'b source_world_scheme"
  proof (cases "index_get v key")
    case None
    show ?thesis unfolding None option.case by (rule wp_mono [OF fetch_miss_wp [OF that]]) auto
  next
    case (Some e)
    show ?thesis unfolding Some option.case wp_bind
      by (rule wp_mono [OF disk_served [OF Some that]]) (auto simp: wp_simps)
  qed
  show ?thesis
  proof (cases "index_get w key")
    case None
    show ?thesis
      unfolding locked_request_def wp_bind wp_get None option.case wp_map_err
      by (rule wp_mono [OF lock]) (auto simp: wp_simps second)
  next
    case (Some e)
    show ?thesis
      unfolding locked_request_def wp_bind wp_get Some option.case
      by (rule wp_mono [OF disk_served [OF Some assms]])
        (auto simp: wp_simps intro!: wp_mono [OF touch_served])
  qed
qed

lemma get_or_fetch_wp:
  assumes "cas_ok (sl_sha256 lib) (wd_fs w)"
  shows "wp (get_or_fetch_artifact lib cs c version key lock_key typ classifier url_override)
    (\<lambda>r. served (sl_sha256 lib) key (fst r)) (\<lambda>_ _. True) w"
  unfolding get_or_fetch_artifact_def
  by (rule wp_with_coord_lock) (use assms in \<open>auto intro: locked_request_wp\<close>)

text \<open>C31. A request keeps the store honest under every schedule of I/O errors and kills and
  whatever the servers answer: objects still hash to their names, none is lost, and when data
  are returned, from disk, the shared cache or upstream, the key's row names their digest and
  the store holds a blob of it.\<close>

theorem request_integrity:
  assumes "cas_ok (sl_sha256 lib) (wd_fs w)"
    "get_or_fetch_artifact lib cs c version key lock_key typ classifier url_override w = (res, w')"
  shows "cas_ok (sl_sha256 lib) (wd_fs w') \<and>
    (\<forall>h. fs_read (wd_fs w) (path_for h) \<noteq> None \<longrightarrow> fs_read (wd_fs w') (path_for h) \<noteq> None) \<and>
    (case res of Inl _ \<Rightarrow> True
     | Inr (bs, _) \<Rightarrow> \<exists>e d. index_get w' key = Some e \<and> ie_hash e = sl_sha256 lib bs \<and>
         fs_read (wd_fs w') (path_for (ie_hash e)) = Some d \<and> sl_sha256 lib d = sl_sha256 lib bs)"
proof -
  have "store_kept (sl_sha256 lib) w w'"
    using store_kept_request assms(2)
    unfolding keeps_def by (metis snd_conv)
  moreover have "case res of Inl _ \<Rightarrow> True | Inr r \<Rightarrow> served (sl_sha256 lib) key (fst r) w'"
    using wp_run [OF get_or_fetch_wp [OF assms(1)] assms(2)] by (auto split: sum.splits)
  ultimately show ?thesis
    using assms(1) unfolding store_kept_def served_def row_of_def
    by (auto split: sum.splits)
qed

text \<open>C32. The shared cache is not trusted: data it serves are accepted only when they hash to the
  digest in the checksum file that the upstream repository published, whatever the server
  sends; the row that is recorded names that digest.\<close>

theorem roastery_not_trusted:
  assumes "cas_ok (sl_sha256 lib) (wd_fs w)"
    "try_roastery lib cs client c version typ classifier w = (Inr (Some (bs, e)), w')"
  shows "\<exists>s. sha256_sidecar lib cs c version typ classifier w = Some s \<and>
    to_hex (sl_sha256 lib bs) = lower (first_token s) \<and> ie_hash e = sl_sha256 lib bs \<and> or_tier (ie_origin e) = Roastery"
  using wp_run [OF try_roastery_wp [OF assms(1)] assms(2)] by (auto simp: fetched_def row_of_def)

section \<open>Without the network\<close>

definition sent_kept :: "'a net_world_scheme \<Rightarrow> 'a net_world_scheme \<Rightarrow> bool" where
  "sent_kept w w' \<longleftrightarrow> nw_sent w' = nw_sent w"

interpretation sent: memory_frame sent_kept
  by unfold_locales (auto simp: sent_kept_def)

lemma sent_kept_touch: "keeps sent_kept (index_touch c k t)"
  unfolding index_touch_def commit_def maybe_compact_def index_compact_def
  by (auto intro!: sent.keeps_structure sent.keeps_append sent.keeps_snapshot sent.keeps_truncate sent.keeps_modify
      simp: sent_kept_def)

lemma quiet_locks [simp]: "quiet (w\<lparr>sw_locks := lm\<rparr>) = quiet w"
  by (simp add: quiet_def)

lemma touch_quiet:
  fixes w :: "'a net_world_scheme"
  assumes "quiet w"
  shows "wp (index_touch c k t) (\<lambda>_ w'. nw_sent w' = nw_sent w \<and> quiet w') (\<lambda>_ w'. nw_sent w' = nw_sent w \<and> quiet w') w"
proof -
  obtain r w' where r: "index_touch c k t w = (r, w')" by fastforce
  have "sent_kept w w'" "outside_kept w w'"
    using sent_kept_touch [of c k t] keeps_index(3) [where 'a = "'a net_world_ext", of c k t] r
    unfolding keeps_def by (metis snd_conv)+
  then show ?thesis using r assms by (auto simp: wp_def sent_kept_def outside_kept_def quiet_def split: sum.split)
qed

lemma disk_hit:
  assumes "index_get w key = Some e" "fs_read (wd_fs w) (path_for (ie_hash e)) = Some d" "quiet w"
  shows "\<exists>w'. get_or_fetch_artifact lib cs c version key lock_key typ classifier url_override w = (Inr (d, Disk), w') \<and>
    nw_sent w' = nw_sent w \<and> quiet w'"
proof -
  have "wp (get_or_fetch_artifact lib cs c version key lock_key typ classifier url_override)
      (\<lambda>r w'. r = (d, Disk) \<and> nw_sent w' = nw_sent w \<and> quiet w') (\<lambda>_ _. False) w"
    unfolding get_or_fetch_artifact_def
  proof (rule wp_with_coord_lock)
    fix lm
    have i: "index_get (w\<lparr>sw_locks := lm\<rparr>) key = Some e" using assms(1) by (simp add: index_get_def)
    show "wp (locked_request lib cs c version key lock_key typ classifier url_override)
        (\<lambda>r w'. r = (d, Disk) \<and> nw_sent w' = nw_sent w \<and> quiet w') (\<lambda>_ _. False) (w\<lparr>sw_locks := lm\<rparr>)"
      using assms(2,3) unfolding locked_request_def wp_bind wp_get i option.case
      by (auto simp: serve_disk_def cas_get_def cas_at_def sys_read_file_def sys_pure_def wp_simps
          quiet_def [symmetric] intro!: wp_mono [OF touch_quiet])
  qed (auto simp: quiet_def)
  then show ?thesis by (auto simp: wp_def split: prod.splits sum.splits)
qed

text \<open>C33. What has been fetched once is served from disk: when a request returned data, a later
  one for the same key that meets no fault returns data with the same digest from disk and
  sends no request, with whatever server and whatever parameters.\<close>

theorem second_request_from_disk:
  assumes "cas_ok (sl_sha256 lib) (wd_fs w)"
    "get_or_fetch_artifact lib cs c version key lock_key typ classifier url_override w = (Inr (bs, org), w1)" "quiet w1"
  shows "\<exists>d w2. get_or_fetch_artifact lib' cs' c' version' key lock_key' typ' classifier' url_override' w1 = (Inr (d, Disk), w2) \<and>
    sl_sha256 lib d = sl_sha256 lib bs \<and> nw_sent w2 = nw_sent w1"
proof -
  have "served (sl_sha256 lib) key bs w1"
    using wp_run [OF get_or_fetch_wp [OF assms(1)] assms(2)] by simp
  then obtain e d where "index_get w1 key = Some e" "fs_read (wd_fs w1) (path_for (ie_hash e)) = Some d"
    "sl_sha256 lib d = sl_sha256 lib bs"
    by (auto simp: served_def row_of_def)
  then show ?thesis using disk_hit [OF _ _ assms(3)] by blast
qed

text \<open>C34. A row whose blob is gone is never repaired by a request: the request fails without asking
  any server, and the row stays, so the artifact is unavailable until the row is removed.\<close>

theorem dangling_row_sticks:
  assumes "index_get w key = Some e" "fs_read (wd_fs w) (path_for (ie_hash e)) = None" "quiet w"
  shows "\<exists>err w'. get_or_fetch_artifact lib cs c version key lock_key typ classifier url_override w = (Inl err, w') \<and>
    nw_sent w' = nw_sent w \<and> index_get w' key = Some e \<and> fs_read (wd_fs w') (path_for (ie_hash e)) = None"
proof -
  have "wp (get_or_fetch_artifact lib cs c version key lock_key typ classifier url_override) (\<lambda>_ _. False)
      (\<lambda>_ w'. nw_sent w' = nw_sent w \<and> index_get w' key = Some e \<and> fs_read (wd_fs w') (path_for (ie_hash e)) = None) w"
    unfolding get_or_fetch_artifact_def
  proof (rule wp_with_coord_lock)
    fix lm
    have i: "index_get (w\<lparr>sw_locks := lm\<rparr>) key = Some e" using assms(1) by (simp add: index_get_def)
    show "wp (locked_request lib cs c version key lock_key typ classifier url_override) (\<lambda>_ _. False)
        (\<lambda>_ w'. nw_sent w' = nw_sent w \<and> index_get w' key = Some e \<and> fs_read (wd_fs w') (path_for (ie_hash e)) = None)
        (w\<lparr>sw_locks := lm\<rparr>)"
      using assms unfolding locked_request_def wp_bind wp_get i option.case
      by (auto simp: serve_disk_def cas_get_def cas_at_def sys_read_file_def sys_pure_def wp_simps quiet_def index_get_def)
  qed (auto simp: index_get_def)
  then show ?thesis by (auto simp: wp_def split: prod.splits sum.splits)
qed

section \<open>An example\<close>

text \<open>A hash with two values, a server that knows one artifact, and a cache that holds one row
  with its blob and one without.\<close>

definition demo_sha :: "bytes \<Rightarrow> content_hash" where
  "demo_sha d = (if d = [1, 2, 3] then replicate 32 0 else replicate 32 1)"

definition demo_lib :: source_lib where
  "demo_lib = \<lparr>hl_send = (\<lambda>n rq. Inr \<lparr>rp_status = (if ends_with (rq_url rq) ''.jar'' then 200 else 404), rp_headers = [],
       rp_body = Inr [1, 2, 3]\<rparr>),
     hl_header_ok = (\<lambda>_. True), hl_url_scheme = (\<lambda>_. ''http''), hl_url_path = (\<lambda>_. ''/''), hl_url_set_path = (\<lambda>u _. u),
     hl_url_join = (\<lambda>u p. Inr (u @ p)), hl_error_body = (\<lambda>_. None), hl_digests_json = (\<lambda>_. []),
     hl_missing_json = (\<lambda>_. Inr []), hl_health_json = (\<lambda>_. Inl []), hl_capabilities_json = (\<lambda>_. Inl []),
     sl_sha256 = demo_sha, sl_sha1 = (\<lambda>_. [9]), sl_codec = demo_codec, sl_display = (\<lambda>_. []), sl_unescape = Inr,
     sl_pom_events = (\<lambda>_. []), sl_snapshot_events = (\<lambda>_. []), sl_versions_events = (\<lambda>_. [])\<rparr>"

definition demo_source :: cache_source where
  "demo_source = source_new fetch_config_default Daily Daily"

definition other_key :: index_key where
  "other_key = IndexKey (Coords ''g'' ''b'') ''1'' ''jar'' None"

definition demo_cache :: "(nat \<Rightarrow> (io_error \<times> nat) option) \<Rightarrow> source_world" where
  "demo_cache f =
     \<lparr>wd_fs = [(path_for (replicate 32 0), File 2 [1, 2, 3])], wd_calls = 0, wd_clock = 0, wd_faults = f, wd_lag = (\<lambda>_. 0),
      wd_tmp_counter = 0, wd_thread = 1, jw_buf = [],
      ix_entries = [(demo_key, demo_entry), (other_key, demo_entry\<lparr>ie_hash := replicate 32 2\<rparr>)],
      ix_since_compact = 0, ix_threshold = 100, nw_sent = [], sw_locks = lock_map_new, sw_observer = None,
      sw_push_observer = None\<rparr>"

lemma demo_lib_sha [simp]: "sl_sha256 demo_lib = demo_sha"
  by (simp add: demo_lib_def)

lemma demo_cache_ok: "cas_ok (sl_sha256 demo_lib) (wd_fs (demo_cache f))"
  by (auto simp: cas_ok_def demo_cache_def fs_read_def im_get_def demo_sha_def path_for_inj split: if_splits)

lemma demo_cache_rows:
  "index_get (demo_cache f) demo_key = Some demo_entry" "quiet (demo_cache (\<lambda>_. None))"
  "index_get (demo_cache f) other_key = Some (demo_entry\<lparr>ie_hash := replicate 32 2\<rparr>)"
  "fs_read (wd_fs (demo_cache f)) (path_for (ie_hash demo_entry)) = Some [1, 2, 3]"
  "fs_read (wd_fs (demo_cache f)) (path_for (replicate 32 2)) = None"
  by (simp_all add: index_get_def demo_cache_def quiet_def fs_read_def im_get_def demo_entry_def demo_key_def other_key_def
      path_for_inj numeral_eq_Suc)

definition demo_request :: "index_key \<Rightarrow> (source_world, bytes \<times> fetch_origin, metadata_error) io" where
  "demo_request key = get_or_fetch_artifact demo_lib demo_source (Coords ''g'' ''a'') ''1'' key
     (CoordVersionKey (Coords ''g'' ''a'') ''1'') ''jar'' None None"

theorem request_integrity_witness:
  "cas_ok demo_sha (wd_fs (snd (demo_request demo_key (demo_cache (killed_at 3)))))"
proof -
  obtain r w' where d: "demo_request demo_key (demo_cache (killed_at 3)) = (r, w')" by fastforce
  from request_integrity [OF demo_cache_ok d [unfolded demo_request_def]] show ?thesis using d by simp
qed

theorem second_request_from_disk_witness:
  "\<exists>w1 d w2. demo_request demo_key (demo_cache (\<lambda>_. None)) = (Inr ([1, 2, 3], Disk), w1) \<and>
     demo_request demo_key w1 = (Inr (d, Disk), w2) \<and> demo_sha d = replicate 32 0 \<and> nw_sent w2 = nw_sent w1"
proof -
  obtain w1 where f: "demo_request demo_key (demo_cache (\<lambda>_. None)) = (Inr ([1, 2, 3], Disk), w1)" "quiet w1"
    using disk_hit [OF demo_cache_rows(1,4,2)] unfolding demo_request_def by blast
  obtain d w2 where g: "demo_request demo_key w1 = (Inr (d, Disk), w2)" "demo_sha d = demo_sha [1, 2, 3]" "nw_sent w2 = nw_sent w1"
    using second_request_from_disk [OF demo_cache_ok f(1) [unfolded demo_request_def] f(2), where lib' = demo_lib and
        cs' = demo_source and c' = "Coords ''g'' ''a''" and version' = "''1''" and
        lock_key' = "CoordVersionKey (Coords ''g'' ''a'') ''1''" and typ' = "''jar''" and classifier' = None and url_override' = None]
    unfolding demo_request_def demo_lib_sha by blast
  then have "demo_sha d = replicate 32 0" by (simp add: demo_sha_def)
  with f(1) g(1,3) show ?thesis by blast
qed

theorem dangling_row_sticks_witness:
  "\<exists>err w'. demo_request other_key (demo_cache (\<lambda>_. None)) = (Inl err, w') \<and> nw_sent w' = []"
proof -
  have "fs_read (wd_fs (demo_cache (\<lambda>_. None))) (path_for (ie_hash (demo_entry\<lparr>ie_hash := replicate 32 2\<rparr>))) = None"
    using demo_cache_rows(5) by simp
  from dangling_row_sticks [OF demo_cache_rows(3) this demo_cache_rows(2)] show ?thesis
    unfolding demo_request_def by (fastforce simp: demo_cache_def)
qed

text \<open>A shared cache that serves the bytes whose digest the repository's checksum file names.\<close>

definition demo_hex :: string where
  "demo_hex = replicate 64 (CHR ''0'')"

definition demo_send :: "nat \<Rightarrow> http_request \<Rightarrow> (http_response, http_error) result" where
  "demo_send n rq = Inr
     (if ends_with (rq_url rq) ''.sha256'' then \<lparr>rp_status = 200, rp_headers = [], rp_body = Inr (str_bytes demo_hex)\<rparr>
      else if ends_with (rq_url rq) ''.sha1'' then \<lparr>rp_status = 404, rp_headers = [], rp_body = Inr []\<rparr>
      else \<lparr>rp_status = 200, rp_headers = [(''content-length'', Some ''3''), (''x-barista-digest'', Some demo_hex)],
            rp_body = Inr [1, 2, 3]\<rparr>)"

definition demo_client :: roastery_client where
  "demo_client = \<lparr>rc_base_url = ''http://roastery/'', rc_auth = Anonymous, rc_max_batch_missing = 100\<rparr>"

definition demo_try :: "(source_world, (bytes \<times> index_entry) option, roastery_outcome) io" where
  "demo_try = try_roastery (demo_lib\<lparr>hl_send := demo_send\<rparr>) demo_source demo_client (Coords ''g'' ''a'') ''1'' ''jar'' None"

lemma demo_try_serves:
  "(case fst (demo_try (demo_cache (\<lambda>_. None))) of Inr (Some (d, _)) \<Rightarrow> d = [1, 2, 3] | _ \<Rightarrow> False)"
  by code_simp

theorem roastery_not_trusted_witness:
  "\<exists>e w'. demo_try (demo_cache (\<lambda>_. None)) = (Inr (Some ([1, 2, 3], e)), w') \<and> ie_hash e = replicate 32 0 \<and>
     or_tier (ie_origin e) = Roastery"
proof -
  obtain e w' where t: "demo_try (demo_cache (\<lambda>_. None)) = (Inr (Some ([1, 2, 3], e)), w')"
    using demo_try_serves by (auto split: sum.splits option.splits prod.splits) (metis prod.collapse)
  have ok: "cas_ok (sl_sha256 (demo_lib\<lparr>hl_send := demo_send\<rparr>)) (wd_fs (demo_cache (\<lambda>_. None)))"
    using demo_cache_ok by simp
  from roastery_not_trusted [OF ok t [unfolded demo_try_def]] show ?thesis
    using t by (auto simp: demo_sha_def)
qed

end
