(* ===== verification/CacheRows.thy ===== *)
theory CacheRows
  imports CacheSourceProps
begin

text \<open>
  Rows and blobs: no request, touch, removal or recovery scan leaves a row of the index without its
  blob, whatever the file system and the servers do, because a row is recorded only after its blob
  is in the store and none of them removes a blob.
\<close>

definition rows_backed :: "(bytes \<Rightarrow> content_hash) \<Rightarrow> 'a index_world_scheme \<Rightarrow> bool" where
  "rows_backed sha w \<longleftrightarrow> cas_ok sha (wd_fs w) \<and>
     (\<forall>(k, e) \<in> set (ix_entries w). \<exists>d. fs_read (wd_fs w) (path_for (ie_hash e)) = Some d \<and> sha d = ie_hash e)"

definition row_hashes :: "entry_map \<Rightarrow> content_hash set" where
  "row_hashes m = (\<lambda>(_, e). ie_hash e) ` set m"

lemma rows_backed_iff:
  "rows_backed sha w \<longleftrightarrow> cas_ok sha (wd_fs w) \<and> (\<forall>h \<in> row_hashes (ix_entries w). fs_read (wd_fs w) (path_for h) \<noteq> None)"
  by (force simp: rows_backed_def row_hashes_def cas_ok_def)

text \<open>An operation that keeps the blobs and adds no digest to the rows keeps the rows backed.\<close>

definition no_new_rows :: "'a index_world_scheme \<Rightarrow> 'a index_world_scheme \<Rightarrow> bool" where
  "no_new_rows w w' \<longleftrightarrow> row_hashes (ix_entries w') \<subseteq> row_hashes (ix_entries w)"

interpretation old_rows: memory_frame no_new_rows
  by unfold_locales (auto simp: no_new_rows_def row_hashes_def)

lemma rows_backed_kept: "rows_backed sha w \<Longrightarrow> store_kept sha w w' \<Longrightarrow> no_new_rows w w' \<Longrightarrow> rows_backed sha w'"
  by (auto simp: rows_backed_iff store_kept_def no_new_rows_def)

lemma backed_by_keeps:
  assumes "keeps (store_kept sha) m" "keeps no_new_rows m" "rows_backed sha w"
  shows "wp m (\<lambda>_. rows_backed sha) (\<lambda>_. rows_backed sha) w"
  by (rule wp_of_keeps [OF keeps_both [OF assms(1,2)]]) (use assms(3) in \<open>auto intro: rows_backed_kept\<close>)

lemma entries_rows: "entries_kept w w' \<Longrightarrow> no_new_rows w w'"
  by (simp add: no_new_rows_def row_hashes_def entries_kept_def)

lemma files_rows: "files_only w w' \<Longrightarrow> no_new_rows w w'"
  by (simp add: no_new_rows_def files_only_fields)

section \<open>The index\<close>

lemma row_hashes_apply:
  "row_hashes (apply_entry (JRemove k) m) \<subseteq> row_hashes m" "row_hashes (apply_entry (JTouch k t) m) \<subseteq> row_hashes m"
  by (force simp: row_hashes_def bt_remove_def bt_update_def split: if_splits)+

lemma row_hashes_put: "row_hashes (apply_entry (JPut k e) m) \<subseteq> insert (ie_hash e) (row_hashes m)"
proof -
  have "set (bt_insert k e m) \<subseteq> insert (k, e) (set m)"
    by (induction k e m rule: bt_insert.induct) (auto split: if_splits)
  then show ?thesis by (force simp: row_hashes_def)
qed

lemma old_rows_commit: "keeps no_new_rows (commit (JRemove k))" "keeps no_new_rows (commit (JTouch k t))"
  unfolding commit_def by (rule old_rows.keeps_modify, simp add: no_new_rows_def row_hashes_apply del: apply_entry.simps)+

lemma old_rows_compact: "keeps no_new_rows (maybe_compact c)"
  by (rule keeps_mono [OF keeps_entries_compact(2) entries_rows])

lemma old_rows_index: "keeps no_new_rows (index_remove c k)" "keeps no_new_rows (index_touch c k t)"
  unfolding index_remove_def index_touch_def
  by (auto intro!: old_rows.keeps_structure old_rows.keeps_append old_rows_commit old_rows_compact)

lemma store_kept_remove: "keeps (store_kept sha) (index_remove c k)"
  by (rule keeps_mono [OF keeps_index(2) outside_store])

text \<open>Recording a row whose blob is in the store.\<close>

lemma put_backed:
  fixes w :: "'a index_world_scheme"
  assumes "rows_backed sha w" "fs_read (wd_fs w) (path_for (ie_hash e)) \<noteq> None"
  shows "wp (index_put c k e) (\<lambda>_. rows_backed sha) (\<lambda>_. rows_backed sha) w"
proof -
  let ?H = "\<lambda>w'. row_hashes (ix_entries w') \<subseteq> insert (ie_hash e) (row_hashes (ix_entries w))"
  have a: "wp (journal_append c journal_path (JPut k e)) (\<lambda>_. entries_kept w) (\<lambda>_. entries_kept w) w"
    using map_frame.keeps_append unfolding keeps_wp by blast
  have b: "wp (maybe_compact c) (\<lambda>_. entries_kept v) (\<lambda>_. entries_kept v) v" for v :: "'a index_world_scheme"
    using keeps_entries_compact(2) unfolding keeps_wp by blast
  have "row_hashes (bt_insert k e (ix_entries w)) \<subseteq> insert (ie_hash e) (row_hashes (ix_entries w))"
    using row_hashes_put [of k e "ix_entries w"] by simp
  then have "wp (index_put c k e) (\<lambda>_. ?H) (\<lambda>_. ?H) w"
    unfolding index_put_def wp_bind wp_map_err
    by (intro wp_mono [OF a]) (auto simp: wp_simps commit_def entries_kept_def intro!: wp_mono [OF b])
  from wp_keeps [OF store_kept_index(1) this] have
    "wp (index_put c k e) (\<lambda>_ w'. ?H w' \<and> store_kept sha w w') (\<lambda>_ w'. ?H w' \<and> store_kept sha w w') w" .
  then show ?thesis
    by (rule wp_mono) (use assms in \<open>auto simp: rows_backed_iff store_kept_def\<close>)
qed

section \<open>Recovery\<close>

lemma store_kept_files:
  "keeps (store_kept sha) (cas_contains h)" "keeps (store_kept sha) (sys_len p)" "keeps (store_kept sha) (sys_pure f)"
proof -
  show "keeps (store_kept sha) (cas_contains h)"
    unfolding cas_contains_def by (rule keeps_mono [OF keeps_exists outside_store])
qed (rule keeps_mono [OF keeps_pure_sys(3) outside_store] keeps_mono [OF keeps_pure_sys(1) outside_store], assumption)+

lemma store_kept_shards: "keeps (store_kept sha) (list_shards names)"
  by (induction names rule: list_shards.induct) (auto intro!: store.keeps_structure store_kept_files)

lemma store_kept_scan: "keeps (store_kept sha) (scan_and_recover c)"
proof -
  have check: "keeps (store_kept sha) (check_entries c es indexed dangling)" for es indexed dangling
    by (induction c es indexed dangling rule: check_entries.induct)
      (auto intro!: store.keeps_structure store_kept_files store_kept_remove)
  have orphans: "keeps (store_kept sha) (find_orphans indexed found report)" for indexed found report
    by (induction indexed found report rule: find_orphans.induct)
      (auto intro!: store.keeps_structure store_kept_files simp: Let_def)
  have entries: "keeps (store_kept sha) cas_entries"
    unfolding cas_entries_def by (auto intro!: store.keeps_structure store_kept_files store_kept_shards split: sum.split)
  show ?thesis
    unfolding scan_and_recover_def by (auto intro!: store.keeps_structure check entries orphans)
qed

lemma old_rows_scan: "keeps no_new_rows (scan_and_recover c)"
proof -
  have check: "keeps no_new_rows (check_entries c es indexed dangling)" for es indexed dangling
    by (induction c es indexed dangling rule: check_entries.induct)
      (auto intro!: old_rows.keeps_calls old_rows_index simp: cas_contains_def sys_exists_def sys_len_def sys_pure_def)
  have orphans: "keeps no_new_rows (find_orphans indexed found report)" for indexed found report
    by (induction indexed found report rule: find_orphans.induct)
      (auto intro!: old_rows.keeps_structure old_rows.keeps_len simp: Let_def)
  have shards: "keeps no_new_rows (list_shards names)" for names
    by (induction names rule: list_shards.induct) (auto simp: sys_pure_def intro!: old_rows.keeps_calls)
  have entries: "keeps no_new_rows cas_entries"
    unfolding cas_entries_def sys_pure_def by (auto intro!: old_rows.keeps_calls shards split: sum.split)
  show ?thesis
    unfolding scan_and_recover_def by (auto intro!: old_rows.keeps_structure check entries orphans)
qed

section \<open>Requests\<close>

lemma entries_kept_fetches:
  "keeps entries_kept (fetch_and_cache lib cs c version typ classifier cond)"
  "keeps entries_kept (fetch_url_and_cache lib cs c version url)"
  "keeps entries_kept (try_roastery lib cs client c version typ classifier)"
proof -
  have net: "keeps entries_kept (fetch lib cfg url cond)" "keeps entries_kept (get_blob_with_coords lib rc digest coords)"
    for lib :: "'l source_lib_scheme" and cfg url cond rc digest coords
    by (rule keeps_mono [OF sends_only_requests(1)] keeps_mono [OF sends_only_requests(2)],
        simp add: entries_kept_def sends_only_fields)+
  have put: "keeps entries_kept (cas_put sha d)" for sha d
    by (rule keeps_mono [OF files_only_cas(1)]) (simp add: entries_kept_def files_only_fields)
  show "keeps entries_kept (fetch_and_cache lib cs c version typ classifier cond)"
    "keeps entries_kept (fetch_url_and_cache lib cs c version url)"
    "keeps entries_kept (try_roastery lib cs client c version typ classifier)"
    unfolding fetch_and_cache_def fetch_url_and_cache_def try_roastery_def Let_def
    by (auto intro!: map_frame.keeps_structure net put
        split: sum.split option.split fetch_outcome.split client_error.split)
qed

text \<open>A fetch that is answered leaves the blob of its row in the store; one that fails leaves the
  rows alone.\<close>

lemma fetch_backed:
  assumes "keeps (store_kept sha) m" "keeps entries_kept m" "rows_backed sha w" "wp m Q E w"
  shows "wp m (\<lambda>x w'. Q x w' \<and> rows_backed sha w') (\<lambda>_. rows_backed sha) w"
  by (rule wp_mono [OF wp_keeps [OF keeps_both [OF assms(1,2)] assms(4)]])
    (use assms(3) in \<open>auto intro: rows_backed_kept entries_rows\<close>)

lemma put_fetched_backed:
  assumes "fetched sha w0 bs e w" "rows_backed sha w"
  shows "wp (index_put c k e) (\<lambda>_. rows_backed sha) (\<lambda>_. rows_backed sha) w"
  by (rule put_backed [OF assms(2)]) (use assms(1) in \<open>auto simp: fetched_def row_of_def\<close>)

lemma push_backed:
  "rows_backed sha w \<Longrightarrow> wp (push_to_roastery lib client h len) (\<lambda>_. rows_backed sha) (\<lambda>_. rows_backed sha) w"
  by (rule backed_by_keeps [OF store_kept_push keeps_mono [OF entries_kept_push entries_rows]])

lemma upstream_backed:
  fixes w :: "'a source_world_scheme"
  assumes "rows_backed (sl_sha256 lib) w"
  shows "wp (fetch_upstream lib cs c version key typ classifier url_override)
    (\<lambda>_. rows_backed (sl_sha256 lib)) (\<lambda>_. rows_backed (sl_sha256 lib)) w"
proof -
  let ?sha = "sl_sha256 lib"
  let ?get = "case url_override of Some url \<Rightarrow> fetch_url_and_cache lib cs c version url
    | None \<Rightarrow> fetch_and_cache lib cs c version typ classifier no_conditions"
  have ok: "cas_ok ?sha (wd_fs w)" using assms by (simp add: rows_backed_def)
  have "wp ?get (\<lambda>r w'. (\<lambda>(bs, e, org) w'. fetched ?sha w bs e w' \<and> org = Remote) r w' \<and> rows_backed ?sha w')
      (\<lambda>_. rows_backed ?sha) w"
    using fetch_backed [OF store_kept_fetches(2) entries_kept_fetches(2) assms fetch_url_and_cache_wp [OF ok]]
      fetch_backed [OF store_kept_fetches(1) entries_kept_fetches(1) assms fetch_and_cache_wp [OF ok]]
    by (simp split: option.split)
  then show ?thesis
    unfolding fetch_upstream_def wp_bind
    by (rule wp_mono)
      (auto simp: wp_simps intro!: wp_mono [OF put_fetched_backed] wp_mono [OF push_backed] split: option.split)
qed


lemma rows_backed_memory [simp]:
  "rows_backed sha (w\<lparr>sw_observer := r\<rparr>) = rows_backed sha w" "rows_backed sha (w\<lparr>sw_push_observer := r'\<rparr>) = rows_backed sha w"
  "rows_backed sha (w\<lparr>sw_locks := lm\<rparr>) = rows_backed sha w"
  by (simp_all add: rows_backed_def)

lemma miss_backed:
  assumes "rows_backed (sl_sha256 lib) w"
  shows "wp (fetch_miss lib cs c version key typ classifier url_override)
    (\<lambda>_. rows_backed (sl_sha256 lib)) (\<lambda>_. rows_backed (sl_sha256 lib)) w"
proof (cases "url_override = None \<and> cs_roastery cs \<noteq> None")
  case False
  then show ?thesis
    using upstream_backed [OF assms] unfolding fetch_miss_def by (auto split: option.split)
next
  case True
  then obtain client where u: "url_override = None" "cs_roastery cs = Some client" by auto
  have ok: "cas_ok (sl_sha256 lib) (wd_fs w)" using assms by (simp add: rows_backed_def)
  show ?thesis
    unfolding fetch_miss_def u prod.case option.case wp_bind wp_try
    by (rule wp_mono [OF fetch_backed [OF store_kept_fetches(3) entries_kept_fetches(3) assms try_roastery_wp [OF ok]]])
      (auto simp: wp_simps record_roastery_outcome_def record_push_outcome_def
        intro!: upstream_backed wp_mono [OF put_fetched_backed] split: option.splits)
qed

lemma disk_backed:
  assumes "rows_backed sha w"
  shows "wp (serve_disk lib c version e) (\<lambda>_. rows_backed sha) (\<lambda>_. rows_backed sha) w"
proof (rule backed_by_keeps [OF _ _ assms])
  show "keeps (store_kept sha) (serve_disk lib c version e)"
    unfolding serve_disk_def by (intro store.keeps_structure store_kept_read)
  show "keeps no_new_rows (serve_disk lib c version e)"
    unfolding serve_disk_def by (intro old_rows.keeps_map_err keeps_mono [OF files_only_cas(2) files_rows])
qed

lemma locked_backed:
  fixes w :: "'a source_world_scheme"
  assumes "rows_backed (sl_sha256 lib) w"
  shows "wp (locked_request lib cs c version key lock_key typ classifier url_override)
    (\<lambda>_. rows_backed (sl_sha256 lib)) (\<lambda>_. rows_backed (sl_sha256 lib)) w"
proof -
  let ?sha = "sl_sha256 lib" and ?P = "\<lambda>_. rows_backed (sl_sha256 lib)"
  have lock: "wp (acquire_with_timeout (\<lambda>s. sl_sha1 lib (str_bytes s)) lock_root lock_key FETCH_LOCK_TIMEOUT) ?P ?P w"
    by (rule backed_by_keeps [OF store_kept_lock keeps_mono [OF files_only_lock files_rows] assms])
  have touch: "wp (index_touch (sl_codec lib) key t) ?P ?P v" if "rows_backed ?sha v" for v :: "'a source_world_scheme" and t
    using store_kept_index(2) old_rows_index(2) that by (rule backed_by_keeps)
  have second: "wp (case index_get v key of
        Some e \<Rightarrow> io_bind (serve_disk lib c version e) (\<lambda>bs. io_return (bs, Disk))
      | None \<Rightarrow> fetch_miss lib cs c version key typ classifier url_override) ?P ?P v"
    if "rows_backed ?sha v" for v :: "'a source_world_scheme"
    using miss_backed [OF that]
    by (cases "index_get v key") (auto simp: wp_simps intro!: wp_mono [OF disk_backed [OF that]])
  show ?thesis
  proof (cases "index_get w key")
    case None
    show ?thesis
      unfolding locked_request_def wp_bind wp_get None option.case wp_map_err
      by (rule wp_mono [OF lock]) (auto simp: wp_simps second)
  next
    case (Some e)
    show ?thesis
      unfolding locked_request_def wp_bind wp_get Some option.case
      by (rule wp_mono [OF disk_backed [OF assms]]) (auto simp: wp_simps intro!: wp_mono [OF touch])
  qed
qed

lemma request_backed:
  assumes "rows_backed (sl_sha256 lib) w"
  shows "wp (get_or_fetch_artifact lib cs c version key lock_key typ classifier url_override)
    (\<lambda>_. rows_backed (sl_sha256 lib)) (\<lambda>_. rows_backed (sl_sha256 lib)) w"
  unfolding get_or_fetch_artifact_def
  by (rule wp_with_coord_lock) (use assms in \<open>auto intro: locked_backed\<close>)

text \<open>C40. A row is never without its blob: when every row of the index names a digest under which the
  store holds data with that digest, this is so after a request, a touch, a removal and a recovery
  scan as well, under every schedule of I/O errors and kills and whatever the servers answer,
  because a row is recorded only after its blob is in the store.\<close>

theorem rows_stay_backed:
  assumes "rows_backed (sl_sha256 lib) w"
  shows "rows_backed (sl_sha256 lib) (snd (get_or_fetch_artifact lib cs c version key lock_key typ classifier url_override w)) \<and>
    rows_backed (sl_sha256 lib) (snd (index_touch cd k t w)) \<and> rows_backed (sl_sha256 lib) (snd (index_remove cd k w)) \<and>
    rows_backed (sl_sha256 lib) (snd (scan_and_recover cd w))"
  using request_backed [OF assms] backed_by_keeps [OF store_kept_index(2) old_rows_index(2) assms]
    backed_by_keeps [OF store_kept_remove old_rows_index(1) assms] backed_by_keeps [OF store_kept_scan old_rows_scan assms]
  unfolding wp_snd by blast

text \<open>A cache with one row and its blob, killed at the sixth system call of a request for another key.\<close>

definition backed_cache :: "(nat \<Rightarrow> (io_error \<times> nat) option) \<Rightarrow> source_world" where
  "backed_cache f = (demo_cache f)\<lparr>ix_entries := [(demo_key, demo_entry)]\<rparr>"

theorem rows_stay_backed_witness:
  "rows_backed demo_sha (snd (demo_request other_key (backed_cache (killed_at 6)))) \<and>
   rows_backed demo_sha (snd (scan_and_recover demo_codec (backed_cache (killed_at 2))))"
proof -
  have b: "rows_backed (sl_sha256 demo_lib) (backed_cache f)" for f
    using demo_cache_ok [of f] demo_cache_rows(4) [of f]
    by (auto simp: rows_backed_iff row_hashes_def backed_cache_def)
  show ?thesis
    using rows_stay_backed [OF b [of "killed_at 6"], where cs = demo_source and key = other_key]
      rows_stay_backed [OF b [of "killed_at 2"], where cd = demo_codec]
    unfolding demo_request_def demo_lib_sha by blast
qed


end
