(* ===== verification/IndexThreads.thy ===== *)
theory IndexThreads
  imports IndexProps
begin

text \<open>
  Threads that share one handle of the cache index. A mutation and a compaction are sequences of
  atomic steps; the journal serialises its own calls, the \<open>RwLock\<close> of the map guards the others.
  A step relation interleaves any number of calls. A call that runs alone does what the sequential
  model does; a \<open>put\<close> that is interleaved with a compaction can be lost.
\<close>

section \<open>Steps\<close>

text \<open>One step is the code between two points where another thread can run: a call of the journal,
  which holds the journal's own lock, the taking and the release of the write lock of \<open>inner\<close>, and
  the work under it. \<open>StCheck\<close> is \<open>maybe_compact\<close>'s test, made under the read lock.\<close>

datatype index_step =
    StAppend journal_entry
  | StLock
  | StApply journal_entry
  | StSnapshot
  | StTruncate
  | StReset
  | StUnlock
  | StCheck

definition compact_steps :: "index_step list" where
  "compact_steps = [StLock, StSnapshot, StTruncate, StReset, StUnlock]"

definition mutate_steps :: "journal_entry \<Rightarrow> index_step list" where
  "mutate_steps e = [StAppend e, StLock, StApply e, StUnlock, StCheck]"

fun step_io :: "codec \<Rightarrow> index_step \<Rightarrow> ('a index_world_scheme, unit, index_error) io" where
  "step_io c (StAppend e) = io_bind (io_map_err IxJournal (journal_append c journal_path e)) (\<lambda>_. io_return ())"
| "step_io c (StApply e) = commit e"
| "step_io c StSnapshot = io_bind (io_get ix_entries) (\<lambda>m. write_snapshot c m snapshot_path snapshot_tmp)"
| "step_io c StTruncate = io_map_err IxJournal (journal_truncate journal_path)"
| "step_io c StReset = io_modify (\<lambda>w. w\<lparr>ix_since_compact := 0\<rparr>)"
| "step_io c StLock = io_return ()"
| "step_io c StUnlock = io_return ()"
| "step_io c StCheck = io_return ()"

text \<open>The write lock is the thread that holds it. Taking it, and the read lock of \<open>StCheck\<close>, wait
  until no thread does.\<close>

fun may_run :: "nat option \<Rightarrow> nat \<Rightarrow> index_step \<Rightarrow> bool" where
  "may_run own i StLock = (own = None)"
| "may_run own i StCheck = (own = None)"
| "may_run own i (StAppend e) = True"
| "may_run own i _ = (own = Some i)"

fun new_owner :: "nat \<Rightarrow> index_step \<Rightarrow> nat option \<Rightarrow> nat option" where
  "new_owner i StLock own = Some i"
| "new_owner i StUnlock own = None"
| "new_owner i _ own = own"

definition release_guard :: "nat \<Rightarrow> nat option \<Rightarrow> nat option" where
  "release_guard i own = (if own = Some i then None else own)"

fun step_next :: "'a index_world_scheme \<Rightarrow> index_step \<Rightarrow> index_step list \<Rightarrow> index_step list" where
  "step_next w StCheck ss = (if ix_threshold w \<le> ix_since_compact w then compact_steps @ ss else ss)"
| "step_next w _ ss = ss"

datatype index_task =
    Running "index_step list"
  | Returned "(unit, index_error) result"

type_synonym 'a index_threads = "'a index_world_scheme \<times> nat option \<times> index_task list"

text \<open>An error ends the call, and its guard is dropped.\<close>

inductive thread_step :: "codec \<Rightarrow> 'a index_threads \<Rightarrow> 'a index_threads \<Rightarrow> bool" for c where
  th_step: "i < length ts \<Longrightarrow> ts ! i = Running (s # ss) \<Longrightarrow> may_run own i s \<Longrightarrow> step_io c s w = (Inr (), w') \<Longrightarrow>
    thread_step c (w, own, ts) (w', new_owner i s own, ts[i := Running (step_next w s ss)])"
| th_fail: "i < length ts \<Longrightarrow> ts ! i = Running (s # ss) \<Longrightarrow> may_run own i s \<Longrightarrow> step_io c s w = (Inl e, w') \<Longrightarrow>
    thread_step c (w, own, ts) (w', release_guard i own, ts[i := Returned (Inl e)])"
| th_return: "i < length ts \<Longrightarrow> ts ! i = Running [] \<Longrightarrow>
    thread_step c (w, own, ts) (w, own, ts[i := Returned (Inr ())])"

inductive_cases thread_stepE: "thread_step c st st'"

section \<open>A call that runs alone\<close>

lemma th_step_then:
  assumes "i < length ts" "ts ! i = Running (s # ss)" "may_run own i s" "step_io c s w = (Inr (), w')"
    "(thread_step c)\<^sup>*\<^sup>* (w', new_owner i s own, ts[i := Running (step_next w s ss)]) st"
  shows "(thread_step c)\<^sup>*\<^sup>* (w, own, ts) st"
  using th_step [OF assms(1-4)] assms(5) by (rule converse_rtranclp_into_rtranclp)

lemma compact_run:
  assumes "i < length ts" "ts ! i = Running (compact_steps @ ss)" "index_compact c w = (r, w')"
  shows "(thread_step c)\<^sup>*\<^sup>* (w, None, ts)
    (w', None, ts[i := (case r of Inr _ \<Rightarrow> Running ss | Inl e \<Rightarrow> Returned (Inl e))])"
proof -
  let ?t = "\<lambda>ss. ts[i := Running ss]"
  have lock: "(thread_step c)\<^sup>*\<^sup>* (w, None, ts) st"
    if "(thread_step c)\<^sup>*\<^sup>* (w, Some i, ?t (StSnapshot # StTruncate # StReset # StUnlock # ss)) st" for st
    using that assms(1,2) by - (rule th_step_then [where s = StLock], auto simp: compact_steps_def io_return_def)
  obtain rs ws where s: "write_snapshot c (ix_entries w) snapshot_path snapshot_tmp w = (rs, ws)" by fastforce
  obtain rt wt where t: "io_map_err IxJournal (journal_truncate journal_path) ws = (rt, wt)" by fastforce
  have snap: "step_io c StSnapshot w = (rs, ws)" using s by (simp add: io_bind_def io_get_def)
  show ?thesis
  proof (cases rs)
    case (Inl e)
    with assms(3) s have "r = Inl e" "w' = ws" by (auto simp: index_compact_def io_bind_def io_get_def)
    with th_fail [of i "?t (StSnapshot # StTruncate # StReset # StUnlock # ss)" StSnapshot _ "Some i" c w e ws] snap Inl assms(1)
    show ?thesis by - (rule lock, intro r_into_rtranclp, simp add: release_guard_def)
  next
    case ok: (Inr u)
    have snapped: "(thread_step c)\<^sup>*\<^sup>* (w, None, ts) st"
      if "(thread_step c)\<^sup>*\<^sup>* (ws, Some i, ?t (StTruncate # StReset # StUnlock # ss)) st" for st
      using that snap ok assms(1) by - (rule lock, rule th_step_then [where s = StSnapshot], auto)
    show ?thesis
    proof (cases rt)
      case (Inl e)
      with assms(3) s t ok have "r = Inl e" "w' = wt" by (auto simp: index_compact_def io_bind_def io_get_def)
      with th_fail [of i "?t (StTruncate # StReset # StUnlock # ss)" StTruncate _ "Some i" c ws e wt] t Inl assms(1)
      show ?thesis by - (rule snapped, intro r_into_rtranclp, simp add: release_guard_def)
    next
      case (Inr v)
      with assms(3) s t ok have r: "r = Inr ()" "w' = wt\<lparr>ix_since_compact := 0\<rparr>"
        by (auto simp: index_compact_def io_bind_def io_get_def io_modify_def)
      have "(thread_step c)\<^sup>*\<^sup>* (wt\<lparr>ix_since_compact := 0\<rparr>, Some i, ?t (StUnlock # ss)) (w', None, ?t ss)"
        using assms(1) r by - (rule th_step_then [where s = StUnlock], auto simp: io_return_def)
      then have "(thread_step c)\<^sup>*\<^sup>* (wt, Some i, ?t (StReset # StUnlock # ss)) (w', None, ?t ss)"
        using assms(1) by - (rule th_step_then [where s = StReset], auto simp: io_modify_def)
      then have "(thread_step c)\<^sup>*\<^sup>* (ws, Some i, ?t (StTruncate # StReset # StUnlock # ss)) (w', None, ?t ss)"
        using assms(1) t Inr by - (rule th_step_then [where s = StTruncate], auto)
      with snapped r show ?thesis by simp
    qed
  qed
qed

lemma index_mutate_eq:
  "index_mutate c e = io_bind (step_io c (StAppend e)) (\<lambda>_. io_bind (commit e) (\<lambda>_. maybe_compact c))"
  by (rule ext, cases e) (auto simp: index_put_def index_remove_def index_touch_def io_bind_def io_get_def io_return_def
      split: prod.splits sum.splits)

lemma check_run:
  assumes "i < length ts" "ts ! i = Running [StCheck]" "maybe_compact c w = (r, w')"
  shows "(thread_step c)\<^sup>*\<^sup>* (w, None, ts) (w', None, ts[i := (case r of Inr _ \<Rightarrow> Running [] | Inl e \<Rightarrow> Returned (Inl e))])"
proof -
  have check: "(thread_step c)\<^sup>*\<^sup>* (w, None, ts) st"
    if "(thread_step c)\<^sup>*\<^sup>* (w, None, ts[i := Running (step_next w StCheck [])]) st" for st
    using that assms(1,2) by - (rule th_step_then [where s = StCheck], auto simp: io_return_def)
  show ?thesis
  proof (cases "ix_threshold w \<le> ix_since_compact w")
    case True
    with assms have "index_compact c w = (r, w')" by (simp add: maybe_compact_def io_bind_def io_get_def)
    from compact_run [OF _ _ this, of i "ts[i := Running compact_steps]" "[]"] True assms(1) check show ?thesis by simp
  next
    case False
    with assms check show ?thesis by (auto simp: maybe_compact_def io_bind_def io_get_def io_return_def)
  qed
qed

lemma applied_run:
  assumes "i < length ts" "ts ! i = Running [StLock, StApply e, StUnlock, StCheck]"
    "io_bind (commit e) (\<lambda>_. maybe_compact c) w = (r, w')"
  shows "(thread_step c)\<^sup>*\<^sup>* (w, None, ts) (w', None, ts[i := (case r of Inr _ \<Rightarrow> Running [] | Inl e \<Rightarrow> Returned (Inl e))])"
proof -
  let ?t = "\<lambda>ss. ts[i := Running ss]"
  let ?stop = "(w', None, ts[i := (case r of Inr _ \<Rightarrow> Running [] | Inl e \<Rightarrow> Returned (Inl e))])"
  obtain w1 where w1: "commit e w = (Inr () :: index_error + unit, w1)" "maybe_compact c w1 = (r, w')"
    using assms(3) by (auto simp: commit_def io_modify_def io_bind_def)
  from check_run [OF _ _ w1(2), of i "?t [StCheck]"] assms(1)
  have "(thread_step c)\<^sup>*\<^sup>* (w1, None, ?t [StCheck]) ?stop" by simp
  then have "(thread_step c)\<^sup>*\<^sup>* (w1, Some i, ?t [StUnlock, StCheck]) ?stop"
    using assms(1) by - (rule th_step_then [where s = StUnlock], auto simp: io_return_def)
  then have "(thread_step c)\<^sup>*\<^sup>* (w, Some i, ?t [StApply e, StUnlock, StCheck]) ?stop"
    using assms(1) w1(1) by - (rule th_step_then [where s = "StApply e"], auto)
  then show ?thesis
    using assms(1,2) by - (rule th_step_then [where s = StLock], auto simp: io_return_def)
qed

lemma return_run:
  assumes "i < length ts" "(thread_step c)\<^sup>*\<^sup>* st (w', None, ts[i := (case r of Inr _ \<Rightarrow> Running [] | Inl e \<Rightarrow> Returned (Inl e))])"
  shows "(thread_step c)\<^sup>*\<^sup>* st (w', None, ts[i := Returned r])"
proof (cases r)
  case (Inr u)
  with assms th_return [of i "ts[i := Running []]" c w' None] show ?thesis
    by (auto intro: rtranclp.rtrancl_into_rtrancl)
qed (use assms in simp)

lemma mutate_alone_runs:
  assumes "index_mutate c e w = (r, w')"
  shows "(thread_step c)\<^sup>*\<^sup>* (w, None, [Running (mutate_steps e)]) (w', None, [Returned r])"
proof -
  let ?ss = "[StLock, StApply e, StUnlock, StCheck]"
  obtain ra wa where a: "step_io c (StAppend e) w = (ra, wa)" by fastforce
  show ?thesis
  proof (cases ra)
    case (Inl x)
    with assms a have "r = Inl x" "w' = wa" by (auto simp: index_mutate_eq io_bind_def)
    with th_fail [of 0 "[Running (mutate_steps e)]" "StAppend e" ?ss None c w x wa] a Inl show ?thesis
      by (intro r_into_rtranclp) (simp add: mutate_steps_def release_guard_def)
  next
    case (Inr u)
    with assms a have "io_bind (commit e) (\<lambda>_. maybe_compact c) wa = (r, w')"
      by (simp add: index_mutate_eq io_bind_def [of "step_io c (StAppend e)"] del: step_io.simps)
    from return_run [OF _ applied_run [OF _ _ this, of 0 "[Running ?ss]"]]
    have "(thread_step c)\<^sup>*\<^sup>* (wa, None, [Running ?ss]) (w', None, [Returned r])" by simp
    then show ?thesis
      using a Inr by - (rule th_step_then [where i = 0 and s = "StAppend e"], auto simp: mutate_steps_def)
  qed
qed

lemma compact_alone_runs:
  assumes "index_compact c w = (r, w')"
  shows "(thread_step c)\<^sup>*\<^sup>* (w, None, [Running compact_steps]) (w', None, [Returned r])"
  using return_run [OF _ compact_run [OF _ _ assms, of 0 "[Running compact_steps]" "[]"]] by simp

text \<open>A single thread is deterministic, so these are its only outcomes.\<close>

lemma thread_step_det:
  assumes "thread_step c (w, own, [t]) st" "thread_step c (w, own, [t]) st'"
  shows "st = st'"
  using assms by (auto elim!: thread_stepE)

lemma thread_step_single: "thread_step c (w, own, [t]) st \<Longrightarrow> \<exists>w' own' t'. st = (w', own', [t'])"
  by (auto elim!: thread_stepE)

lemma returned_final:
  assumes "(thread_step c)\<^sup>*\<^sup>* (w, own, [Returned r]) st"
  shows "st = (w, own, [Returned r])"
  using assms by (cases rule: converse_rtranclpE) (auto elim: thread_stepE)

lemma alone_unique:
  "(thread_step c)\<^sup>*\<^sup>* (w, own, [t]) (w1, own1, [Returned r1]) \<Longrightarrow>
   (thread_step c)\<^sup>*\<^sup>* (w, own, [t]) (w2, own2, [Returned r2]) \<Longrightarrow> w1 = w2 \<and> own1 = own2 \<and> r1 = r2"
proof (induction "(w, own, [t])" arbitrary: w own t rule: converse_rtranclp_induct)
  case base
  from returned_final [OF this] show ?case by simp
next
  case (step z)
  from step.hyps(1) obtain w' own' t' where z: "z = (w', own', [t'])" using thread_step_single by blast
  have "(w, own, [t]) \<noteq> (w2, own2, [Returned r2])" using step.hyps(1) by (auto elim: thread_stepE)
  with step.prems obtain y where "thread_step c (w, own, [t]) y" "(thread_step c)\<^sup>*\<^sup>* y (w2, own2, [Returned r2])"
    by (metis converse_rtranclpE)
  with step.hyps z thread_step_det show ?case by blast
qed


lemma mutate_alone:
  "(thread_step c)\<^sup>*\<^sup>* (w, None, [Running (mutate_steps e)]) (w', own, [Returned r]) \<longleftrightarrow>
     index_mutate c e w = (r, w') \<and> own = None"
  using alone_unique [of c w None "Running (mutate_steps e)" w' own r]
    mutate_alone_runs [of c e w "fst (index_mutate c e w)" "snd (index_mutate c e w)"] mutate_alone_runs [of c e w r w']
  by auto

lemma compact_alone:
  "(thread_step c)\<^sup>*\<^sup>* (w, None, [Running compact_steps]) (w', own, [Returned r]) \<longleftrightarrow>
     index_compact c w = (r, w') \<and> own = None"
  using alone_unique [of c w None "Running compact_steps" w' own r]
    compact_alone_runs [of c w "fst (index_compact c w)" "snd (index_compact c w)"] compact_alone_runs [of c w r w']
  by auto

section \<open>A put beside a compaction\<close>

lemma compaction_between:
  assumes app: "journal_append c journal_path e w = (Inr off, w1)" and comp: "index_compact c w1 = (Inr (), w2)"
    and fin: "io_bind (commit e) (\<lambda>_. maybe_compact c) w2 = (Inr (), w3)"
  shows "(thread_step c)\<^sup>*\<^sup>* (w, None, [Running (mutate_steps e), Running compact_steps])
    (w3, None, [Returned (Inr ()), Returned (Inr ())])"
proof -
  let ?ss = "[StLock, StApply e, StUnlock, StCheck]"
  have "(thread_step c)\<^sup>*\<^sup>* (w1, None, [Running ?ss, Running compact_steps]) (w2, None, [Running ?ss, Returned (Inr ())])"
    using return_run [OF _ compact_run [OF _ _ comp, of 1 "[Running ?ss, Running compact_steps]" "[]"]] by simp
  also have "(thread_step c)\<^sup>*\<^sup>* (w2, None, [Running ?ss, Returned (Inr ())]) (w3, None, [Returned (Inr ()), Returned (Inr ())])"
    using return_run [OF _ applied_run [OF _ _ fin, of 0 "[Running ?ss, Returned (Inr ())]"]] by simp
  finally show ?thesis
    by - (rule th_step_then [where i = 0 and s = "StAppend e"],
        auto simp: mutate_steps_def io_bind_def io_map_err_def io_return_def app)
qed

text \<open>C23. A \<open>put\<close> that returned \<open>Ok\<close> can be lost. A call of \<open>put\<close> or \<open>compact\<close> that is scheduled alone
  ends exactly as the sequential model of the function does. But \<open>put\<close> appends its journal record
  before it takes the write lock: from every consistent state (without faults, with a compaction
  threshold above one) the two threads \<open>put\<close> and \<open>compact\<close> have a schedule that respects the lock,
  in which both return \<open>Ok\<close> and the entry is in memory, while every restart opens the index as it
  was before the \<open>put\<close>.\<close>

theorem concurrent_compaction_loses_put:
  fixes w :: "'a index_world_scheme"
  assumes "in_sync c m es w" "quiet w" "codec_ok c (JPut k x)" "snapshot_codec_ok c (ix_entries w)" "1 < ix_threshold w"
  shows "(\<exists>w'. (thread_step c)\<^sup>*\<^sup>* (w, None, [Running (mutate_steps (JPut k x)), Running compact_steps])
        (w', None, [Returned (Inr ()), Returned (Inr ())]) \<and>
      index_get w' k = Some x \<and>
      (\<forall>v :: 'a index_world_scheme. quiet v \<and> wd_fs v = wd_fs w' \<longrightarrow>
         (\<exists>rep v'. open_with_recovery c v = (Inr rep, v') \<and> ix_entries v' = ix_entries w))) \<and>
    (\<forall>(v :: 'a index_world_scheme) v' own r.
       (thread_step c)\<^sup>*\<^sup>* (v, None, [Running (mutate_steps (JPut k x))]) (v', own, [Returned r]) \<longleftrightarrow>
         index_put c k x v = (r, v') \<and> own = None) \<and>
    (\<forall>(v :: 'a index_world_scheme) v' own r.
       (thread_step c)\<^sup>*\<^sup>* (v, None, [Running compact_steps]) (v', own, [Returned r]) \<longleftrightarrow>
         index_compact c v = (r, v') \<and> own = None)"
proof (intro conjI allI mutate_alone [of _ _ "JPut k x", unfolded index_mutate.simps] compact_alone)
  let ?J = "header_bytes JOURNAL_VERSION @ records c es"
  have w: "jw_buf w = []" "fs_read (wd_fs w) journal_path = Some ?J" and wf: "bt_wf (ix_entries w)"
    using assms(1) by (auto simp: in_sync_def journal_holds_def snapshot_holds_def intro: bt_wf_fold_apply)
  obtain off w1 where 1: "journal_append c journal_path (JPut k x) w = (Inr off, w1)"
    "fs_read (wd_fs w1) journal_path = Some (?J @ record_bytes c (JPut k x))" "jw_buf w1 = []" "kept w w1" "quiet w1"
    using journal_append_quiet [OF assms(2) w assms(3)] by (auto simp: wp_def split: prod.splits sum.splits)
  have e: "ix_entries w1 = ix_entries w" "ix_threshold w1 = ix_threshold w" using 1(4) by (simp_all add: kept_def)
  obtain w2 where 2: "index_compact c w1 = (Inr (), w2)" "in_sync c (ix_entries w) [] w2" "ix_threshold w2 = ix_threshold w1"
    using compact_quiet [OF 1(5,3,2), of c] assms(4) wf e by (auto simp: wp_def split: prod.splits sum.splits)
  let ?w3 = "w2\<lparr>ix_entries := bt_insert k x (ix_entries w2), ix_since_compact := Suc (ix_since_compact w2)\<rparr>"
  have fin: "io_bind (commit (JPut k x)) (\<lambda>_. maybe_compact c) w2 = (Inr (), ?w3)"
    using 2(2,3) e assms(5) by (simp add: commit_def maybe_compact_def io_modify_def io_bind_def io_get_def io_return_def in_sync_def)
  have "index_get ?w3 k = Some x" by (simp add: index_get_def bt_simps)
  moreover have "\<exists>rep v'. open_with_recovery c v = (Inr rep, v') \<and> ix_entries v' = ix_entries w"
    if "quiet v" "wd_fs v = wd_fs ?w3" for v :: "'a index_world_scheme"
  proof -
    have "snapshot_holds c (wd_fs v) (ix_entries w)" "journal_files c (wd_fs v) [] []"
      using 2(2) that by (auto simp: in_sync_def journal_files_def)
    from open_runs [OF that(1) this] show ?thesis by (metis fold_simps(1) in_sync_def take_Nil)
  qed
  ultimately show "\<exists>w'. (thread_step c)\<^sup>*\<^sup>* (w, None, [Running (mutate_steps (JPut k x)), Running compact_steps])
        (w', None, [Returned (Inr ()), Returned (Inr ())]) \<and>
      index_get w' k = Some x \<and>
      (\<forall>v :: 'a index_world_scheme. quiet v \<and> wd_fs v = wd_fs w' \<longrightarrow>
         (\<exists>rep v'. open_with_recovery c v = (Inr rep, v') \<and> ix_entries v' = ix_entries w))"
    using compaction_between [OF 1(1) 2(1) fin] by blast
qed

theorem concurrent_compaction_loses_put_witness:
  "\<exists>w'. (thread_step demo_codec)\<^sup>*\<^sup>*
      (demo_world [] [] 0 (\<lambda>_. None), None, [Running (mutate_steps (JPut demo_key demo_entry)), Running compact_steps])
      (w', None, [Returned (Inr ()), Returned (Inr ())]) \<and>
    index_get w' demo_key = Some demo_entry \<and>
    (\<exists>rep v'. open_with_recovery demo_codec (w'\<lparr>wd_faults := \<lambda>_. None\<rparr>) = (Inr rep, v') \<and> ix_entries v' = [])"
proof -
  let ?w = "demo_world [] [] 0 (\<lambda>_. None)"
  have s: "in_sync demo_codec [] [] ?w" using demo_sync [of "[]" "\<lambda>_. None"] by simp
  have e: "ix_entries ?w = []" "1 < ix_threshold ?w" by (simp_all add: demo_world_def)
  have ok: "snapshot_codec_ok demo_codec (ix_entries ?w)" using demo_codec_ok(4) by (simp only: e)
  have q: "quiet (v\<lparr>wd_faults := \<lambda>_. None\<rparr>)" for v :: index_world by (simp add: quiet_def)
  obtain w' where
    "(thread_step demo_codec)\<^sup>*\<^sup>* (?w, None, [Running (mutate_steps (JPut demo_key demo_entry)), Running compact_steps])
      (w', None, [Returned (Inr ()), Returned (Inr ())])" "index_get w' demo_key = Some demo_entry"
    "\<forall>v :: index_world. quiet v \<and> wd_fs v = wd_fs w' \<longrightarrow>
       (\<exists>rep v'. open_with_recovery demo_codec v = (Inr rep, v') \<and> ix_entries v' = [])"
    using concurrent_compaction_loses_put [OF s demo_quiet demo_codec_ok(1) ok e(2)] unfolding e(1) by blast
  moreover from this(3) have
    "\<exists>rep v'. open_with_recovery demo_codec (w'\<lparr>wd_faults := \<lambda>_. None\<rparr>) = (Inr rep, v') \<and> ix_entries v' = []"
    using q [of w'] by simp
  ultimately show ?thesis by blast
qed


end
