(* ===== verification/PomParseProps.thy ===== *)
theory PomParseProps
  imports PomParse
begin

text \<open>
  Properties of the POM reader: every POM value can be written so that the reader returns it,
  elements it does not know are ignored, and how references in text are lost.
\<close>

section \<open>Exact consumption\<close>

text \<open>A parser reads exactly the events \<open>es\<close>, whatever follows, and returns \<open>v\<close>.\<close>

definition parses :: "'a pom_parser \<Rightarrow> pom_event list \<Rightarrow> 'a \<Rightarrow> bool" where
  "parses p es v \<longleftrightarrow> (\<forall>rest. p (es @ rest) = Inr (v, length es))"

lemma parsesI: "(\<And>rest. p (es @ rest) = Inr (v, length es)) \<Longrightarrow> parses p es v"
  by (simp add: parses_def)

lemma parsesD: "parses p es v \<Longrightarrow> p (es @ rest) = Inr (v, length es)"
  by (simp add: parses_def)

lemma after_simps [simp]: "after k (Inr (v, n)) = Inr (v, k + n)" "after k (Inl e) = Inl e"
  by (simp_all add: after_def)

lemma after_after [simp]: "after k (after n r) = after (k + n) r"
  by (cases r) (auto simp: after_def)

lemma parses_field: "parses p es v \<Longrightarrow> parses (field p f) es (f v)"
  by (simp add: parses_def field_def)

text \<open>Text the reader takes as it stands.\<close>

definition plain :: "unescaper \<Rightarrow> string \<Rightarrow> bool" where
  "plain u t \<longleftrightarrow> t = [] \<or> u t = Inr t"

definition opt_plain :: "unescaper \<Rightarrow> string option \<Rightarrow> bool" where
  "opt_plain u x \<longleftrightarrow> (case x of None \<Rightarrow> True | Some t \<Rightarrow> plain u t)"

definition text_events :: "string \<Rightarrow> pom_event list" where
  "text_events t = (if t = [] then [] else [EvText t]) @ [EvEnd]"

lemma parses_text: "plain u t \<Longrightarrow> parses (read_text u) (text_events t) t"
  by (auto simp: parses_def read_text_def text_events_def plain_def decode_text_def map_err_def)

section \<open>Documents\<close>

text \<open>A child of an element: its name, its events behind the start tag, and its effect on the
  value under construction.\<close>

type_synonym 's item = "string \<times> pom_event list \<times> ('s \<Rightarrow> 's)"

definition doc_of :: "'s item list \<Rightarrow> pom_event list" where
  "doc_of items = concat (map (\<lambda>(n, b, _). EvStart n [] # b) items) @ [EvEnd]"

definition build_of :: "'s item list \<Rightarrow> 's \<Rightarrow> 's" where
  "build_of items s = fold (\<lambda>(_, _, f) s. f s) items s"

definition item_ok :: "'s child_handler \<Rightarrow> 's item \<Rightarrow> bool" where
  "item_ok h i \<longleftrightarrow> (case i of (n, b, f) \<Rightarrow> local_name n = n \<and> (\<forall>s. parses (h n [] s) b (f s)))"

lemma parses_items:
  "list_all (item_ok h) items \<Longrightarrow> parses (element_loop el h s) (doc_of items) (build_of items s)"
proof (induction items arbitrary: s)
  case Nil
  then show ?case by (simp add: doc_of_def build_of_def parses_def)
next
  case (Cons i items)
  obtain n b f where i: "i = (n, b, f)" by (cases i)
  have h: "h n [] s (b @ rest) = Inr (f s, length b)" for rest
    using Cons(2) i by (simp add: item_ok_def parses_def)
  have "element_loop el h (f s) (doc_of items @ rest) = Inr (build_of items (f s), length (doc_of items))" for rest
    using Cons by (simp add: parses_def)
  then show ?case
    using Cons(2) i h by (simp add: parses_def doc_of_def build_of_def item_ok_def)
qed

definition text_item :: "string \<Rightarrow> (string \<Rightarrow> 's \<Rightarrow> 's) \<Rightarrow> string \<Rightarrow> 's item list" where
  "text_item n f t = [(n, text_events t, f t)]"

definition sub_item :: "string \<Rightarrow> ('a \<Rightarrow> pom_event list) \<Rightarrow> ('a \<Rightarrow> 's \<Rightarrow> 's) \<Rightarrow> 'a \<Rightarrow> 's item list" where
  "sub_item n g f x = [(n, g x, f x)]"

definition opt_item :: "string \<Rightarrow> ('a \<Rightarrow> pom_event list) \<Rightarrow> ('a option \<Rightarrow> 's \<Rightarrow> 's) \<Rightarrow> 'a option \<Rightarrow> 's item list" where
  "opt_item n g f x = (case x of None \<Rightarrow> [] | Some v \<Rightarrow> [(n, g v, f (Some v))])"

lemma build_of_append [simp]: "build_of (xs @ ys) s = build_of ys (build_of xs s)"
  by (simp add: build_of_def)

lemma build_of_items [simp]:
  "build_of [] s = s" "build_of (text_item n ft t) s = ft t s" "build_of (sub_item n g f x) s = f x s"
  "fo None s = s \<Longrightarrow> build_of (opt_item n g fo y) s = fo y s"
  by (simp_all add: build_of_def text_item_def sub_item_def opt_item_def split: option.split)

text \<open>The handler of an element accepts a field: under the name \<open>n\<close> it runs \<open>p\<close> and stores the
  result with \<open>f\<close>.\<close>

definition accepts :: "'s child_handler \<Rightarrow> string \<Rightarrow> 'a pom_parser \<Rightarrow> ('a \<Rightarrow> 's \<Rightarrow> 's) \<Rightarrow> bool" where
  "accepts h n p f \<longleftrightarrow> local_name n = n \<and> (\<forall>s es. h n [] s es = field p (\<lambda>v. f v s) es)"

lemma accepts_item:
  "accepts h n p f \<Longrightarrow> parses p b v \<Longrightarrow> item_ok h (n, b, f v)"
  using parses_field [of p b v] by (auto simp: accepts_def item_ok_def parses_def)

lemma items_text:
  "plain u t \<Longrightarrow> accepts h n (read_text u) f \<Longrightarrow> list_all (item_ok h) (text_item n f t)"
  by (auto simp: text_item_def intro!: accepts_item parses_text)

lemma items_sub:
  "parses p (g x) x \<Longrightarrow> accepts h n p f \<Longrightarrow> list_all (item_ok h) (sub_item n g f x)"
  by (auto simp: sub_item_def intro!: accepts_item)

lemma items_opt:
  "(\<And>v. y = Some v \<Longrightarrow> parses p (g v) v) \<Longrightarrow> accepts h n p (\<lambda>v. f (Some v)) \<Longrightarrow> list_all (item_ok h) (opt_item n g f y)"
  by (auto simp: opt_item_def intro!: accepts_item [where f = "\<lambda>v. f (Some v)"] split: option.split)

text \<open>Lists of equally named children.\<close>

definition list_doc :: "string \<Rightarrow> ('a \<Rightarrow> pom_event list) \<Rightarrow> 'a list \<Rightarrow> pom_event list" where
  "list_doc item g xs = concat (map (\<lambda>x. EvStart item [] # g x) xs) @ [EvEnd]"

lemma parses_list:
  assumes "local_name item = item" "\<And>x. x \<in> set xs \<Longrightarrow> parses p (g x) x"
  shows "parses (list_of el item p) (list_doc item g xs) xs"
proof -
  let ?items = "map (\<lambda>x. (item, g x, \<lambda>out. out @ [x])) xs"
  have "list_all (item_ok (\<lambda>name _ out es.
       if name = item then field p (\<lambda>x. out @ [x]) es else field skip_element (\<lambda>_. out) es)) ?items"
    using assms by (auto simp: list_all_iff item_ok_def intro!: parsesI) (simp add: field_def parsesD [OF assms(2)])
  moreover have "build_of ?items ys = ys @ xs" for ys
    by (induction xs arbitrary: ys) (auto simp: build_of_def)
  ultimately have "parses (list_of el item p) (doc_of ?items) xs"
    unfolding list_of_def using parses_items by (metis (no_types, lifting) append_Nil)
  then show ?thesis by (simp add: doc_of_def list_doc_def comp_def)
qed

section \<open>Writing a POM\<close>

definition exclusion_doc :: "raw_exclusion \<Rightarrow> pom_event list" where
  "exclusion_doc x = doc_of (
     text_item ''groupId'' (\<lambda>v. exc_group_id_update (\<lambda>_. v)) (exc_group_id x) @
     text_item ''artifactId'' (\<lambda>v. exc_artifact_id_update (\<lambda>_. v)) (exc_artifact_id x) :: raw_exclusion item list)"

definition exclusion_ok :: "unescaper \<Rightarrow> raw_exclusion \<Rightarrow> bool" where
  "exclusion_ok u x \<longleftrightarrow> plain u (exc_group_id x) \<and> plain u (exc_artifact_id x)"

definition dependency_doc :: "raw_dependency \<Rightarrow> pom_event list" where
  "dependency_doc x = doc_of (
     text_item ''groupId'' (\<lambda>v. dep_group_id_update (\<lambda>_. v)) (dep_group_id x) @
     text_item ''artifactId'' (\<lambda>v. dep_artifact_id_update (\<lambda>_. v)) (dep_artifact_id x) @
     opt_item ''version'' text_events (\<lambda>v. dep_version_update (\<lambda>_. v)) (dep_version x) @
     opt_item ''scope'' text_events (\<lambda>v. dep_scope_update (\<lambda>_. v)) (dep_scope x) @
     opt_item ''classifier'' text_events (\<lambda>v. dep_classifier_update (\<lambda>_. v)) (dep_classifier x) @
     opt_item ''type'' text_events (\<lambda>v. dep_type_update (\<lambda>_. v)) (dep_type x) @
     opt_item ''systemPath'' text_events (\<lambda>v. dep_system_path_update (\<lambda>_. v)) (dep_system_path x) @
     opt_item ''optional'' text_events (\<lambda>v. dep_optional_update (\<lambda>_. v)) (dep_optional x) @
     sub_item ''exclusions'' (list_doc ''exclusion'' exclusion_doc) (\<lambda>v. dep_exclusions_update (\<lambda>_. v)) (dep_exclusions x) :: raw_dependency item list)"

definition dependency_ok :: "unescaper \<Rightarrow> raw_dependency \<Rightarrow> bool" where
  "dependency_ok u x \<longleftrightarrow> plain u (dep_group_id x) \<and> plain u (dep_artifact_id x) \<and> opt_plain u (dep_version x) \<and>
     opt_plain u (dep_scope x) \<and> opt_plain u (dep_classifier x) \<and> opt_plain u (dep_type x) \<and>
     opt_plain u (dep_system_path x) \<and> opt_plain u (dep_optional x) \<and>
     list_all (exclusion_ok u) (dep_exclusions x)"

definition dep_management_doc :: "raw_dependency list \<Rightarrow> pom_event list" where
  "dep_management_doc ds = EvStart ''dependencies'' [] # list_doc ''dependency'' dependency_doc ds @ [EvEnd]"

definition properties_doc :: "properties \<Rightarrow> pom_event list" where
  "properties_doc ps = concat (map (\<lambda>(k, t). EvStart k [] # text_events t) ps) @ [EvEnd]"

definition properties_ok :: "unescaper \<Rightarrow> properties \<Rightarrow> bool" where
  "properties_ok u ps \<longleftrightarrow> distinct (map fst ps) \<and> list_all (\<lambda>(k, t). local_name k = k \<and> plain u t) ps"

definition resource_doc :: "raw_resource \<Rightarrow> pom_event list" where
  "resource_doc x = doc_of (
     opt_item ''directory'' text_events (\<lambda>v. rsc_directory_update (\<lambda>_. v)) (rsc_directory x) @
     opt_item ''targetPath'' text_events (\<lambda>v. rsc_target_path_update (\<lambda>_. v)) (rsc_target_path x) @
     opt_item ''filtering'' text_events (\<lambda>v. rsc_filtering_update (\<lambda>_. v)) (rsc_filtering x) @
     sub_item ''includes'' (list_doc ''include'' text_events) (\<lambda>v. rsc_includes_update (\<lambda>_. v)) (rsc_includes x) @
     sub_item ''excludes'' (list_doc ''exclude'' text_events) (\<lambda>v. rsc_excludes_update (\<lambda>_. v)) (rsc_excludes x) :: raw_resource item list)"

definition resource_ok :: "unescaper \<Rightarrow> raw_resource \<Rightarrow> bool" where
  "resource_ok u x \<longleftrightarrow> opt_plain u (rsc_directory x) \<and> opt_plain u (rsc_target_path x) \<and>
     opt_plain u (rsc_filtering x) \<and> list_all (plain u) (rsc_includes x) \<and>
     list_all (plain u) (rsc_excludes x)"

text \<open>A free-form value: its attributes are on the start tag, which is the caller's.\<close>

fun xml_doc :: "xml_value \<Rightarrow> pom_event list" where
  "xml_doc (XmlValue attrs text children) =
     (case text of None \<Rightarrow> [] | Some t \<Rightarrow> [EvCData t]) @
     concat (map (\<lambda>(n, vs). concat (map (\<lambda>v. EvStart n (xv_attributes v) # xml_doc v) vs)) children) @ [EvEnd]"

fun xml_ok :: "unescaper \<Rightarrow> xml_value \<Rightarrow> bool" where
  "xml_ok u (XmlValue attrs text children) \<longleftrightarrow> text \<noteq> Some [] \<and> distinct (map fst children) \<and>
     list_all (\<lambda>(k, v). local_name k = k \<and> u v = Inr v) attrs \<and>
     list_all (\<lambda>(n, vs). local_name n = n \<and> vs \<noteq> [] \<and> list_all (xml_ok u) vs) children"

text \<open>The start tag of a configuration is read without its attributes.\<close>

definition value_ok :: "unescaper \<Rightarrow> xml_value \<Rightarrow> bool" where
  "value_ok u v \<longleftrightarrow> xml_ok u v \<and> xv_attributes v = []"

definition execution_doc :: "raw_plugin_execution \<Rightarrow> pom_event list" where
  "execution_doc x = doc_of (
     opt_item ''id'' text_events (\<lambda>v. exe_id_update (\<lambda>_. v)) (exe_id x) @
     opt_item ''phase'' text_events (\<lambda>v. exe_phase_update (\<lambda>_. v)) (exe_phase x) @
     opt_item ''inherited'' text_events (\<lambda>v. exe_inherited_update (\<lambda>_. v)) (exe_inherited x) @
     sub_item ''goals'' (list_doc ''goal'' text_events) (\<lambda>v. exe_goals_update (\<lambda>_. v)) (exe_goals x) @
     opt_item ''configuration'' xml_doc (\<lambda>v. exe_configuration_update (\<lambda>_. v)) (exe_configuration x) :: raw_plugin_execution item list)"

definition execution_ok :: "unescaper \<Rightarrow> raw_plugin_execution \<Rightarrow> bool" where
  "execution_ok u x \<longleftrightarrow> opt_plain u (exe_id x) \<and> opt_plain u (exe_phase x) \<and> opt_plain u (exe_inherited x) \<and>
     list_all (plain u) (exe_goals x) \<and> pred_option (value_ok u) (exe_configuration x)"

definition plugin_doc :: "raw_plugin \<Rightarrow> pom_event list" where
  "plugin_doc x = doc_of (
     text_item ''groupId'' (\<lambda>v. plg_group_id_update (\<lambda>_. v)) (plg_group_id x) @
     text_item ''artifactId'' (\<lambda>v. plg_artifact_id_update (\<lambda>_. v)) (plg_artifact_id x) @
     opt_item ''version'' text_events (\<lambda>v. plg_version_update (\<lambda>_. v)) (plg_version x) @
     opt_item ''inherited'' text_events (\<lambda>v. plg_inherited_update (\<lambda>_. v)) (plg_inherited x) @
     opt_item ''extensions'' text_events (\<lambda>v. plg_extensions_update (\<lambda>_. v)) (plg_extensions x) @
     opt_item ''configuration'' xml_doc (\<lambda>v. plg_configuration_update (\<lambda>_. v)) (plg_configuration x) @
     sub_item ''dependencies'' (list_doc ''dependency'' dependency_doc) (\<lambda>v. plg_dependencies_update (\<lambda>_. v)) (plg_dependencies x) @
     sub_item ''executions'' (list_doc ''execution'' execution_doc) (\<lambda>v. plg_executions_update (\<lambda>_. v)) (plg_executions x) :: raw_plugin item list)"

definition plugin_ok :: "unescaper \<Rightarrow> raw_plugin \<Rightarrow> bool" where
  "plugin_ok u x \<longleftrightarrow> plain u (plg_group_id x) \<and> plain u (plg_artifact_id x) \<and> opt_plain u (plg_version x) \<and>
     opt_plain u (plg_inherited x) \<and> opt_plain u (plg_extensions x) \<and>
     pred_option (value_ok u) (plg_configuration x) \<and> list_all (dependency_ok u) (plg_dependencies x) \<and>
     list_all (execution_ok u) (plg_executions x)"

definition plugin_management_doc :: "raw_plugin list \<Rightarrow> pom_event list" where
  "plugin_management_doc ps = EvStart ''plugins'' [] # list_doc ''plugin'' plugin_doc ps @ [EvEnd]"

definition build_doc :: "raw_build \<Rightarrow> pom_event list" where
  "build_doc x = doc_of (
     opt_item ''sourceDirectory'' text_events (\<lambda>v. bld_source_directory_update (\<lambda>_. v)) (bld_source_directory x) @
     opt_item ''scriptSourceDirectory'' text_events (\<lambda>v. bld_script_source_directory_update (\<lambda>_. v)) (bld_script_source_directory x) @
     opt_item ''testSourceDirectory'' text_events (\<lambda>v. bld_test_source_directory_update (\<lambda>_. v)) (bld_test_source_directory x) @
     opt_item ''outputDirectory'' text_events (\<lambda>v. bld_output_directory_update (\<lambda>_. v)) (bld_output_directory x) @
     opt_item ''testOutputDirectory'' text_events (\<lambda>v. bld_test_output_directory_update (\<lambda>_. v)) (bld_test_output_directory x) @
     opt_item ''finalName'' text_events (\<lambda>v. bld_final_name_update (\<lambda>_. v)) (bld_final_name x) @
     opt_item ''defaultGoal'' text_events (\<lambda>v. bld_default_goal_update (\<lambda>_. v)) (bld_default_goal x) @
     opt_item ''directory'' text_events (\<lambda>v. bld_directory_update (\<lambda>_. v)) (bld_directory x) @
     sub_item ''filters'' (list_doc ''filter'' text_events) (\<lambda>v. bld_filters_update (\<lambda>_. v)) (bld_filters x) @
     sub_item ''resources'' (list_doc ''resource'' resource_doc) (\<lambda>v. bld_resources_update (\<lambda>_. v)) (bld_resources x) @
     sub_item ''testResources'' (list_doc ''testResource'' resource_doc) (\<lambda>v. bld_test_resources_update (\<lambda>_. v)) (bld_test_resources x) @
     sub_item ''plugins'' (list_doc ''plugin'' plugin_doc) (\<lambda>v. bld_plugins_update (\<lambda>_. v)) (bld_plugins x) @
     opt_item ''pluginManagement'' plugin_management_doc (\<lambda>v. bld_plugin_management_update (\<lambda>_. v)) (bld_plugin_management x) :: raw_build item list)"

definition build_ok :: "unescaper \<Rightarrow> raw_build \<Rightarrow> bool" where
  "build_ok u x \<longleftrightarrow> opt_plain u (bld_source_directory x) \<and> opt_plain u (bld_script_source_directory x) \<and>
     opt_plain u (bld_test_source_directory x) \<and> opt_plain u (bld_output_directory x) \<and>
     opt_plain u (bld_test_output_directory x) \<and> opt_plain u (bld_final_name x) \<and>
     opt_plain u (bld_default_goal x) \<and> opt_plain u (bld_directory x) \<and>
     list_all (plain u) (bld_filters x) \<and> list_all (resource_ok u) (bld_resources x) \<and>
     list_all (resource_ok u) (bld_test_resources x) \<and> list_all (plugin_ok u) (bld_plugins x) \<and>
     pred_option (list_all (plugin_ok u)) (bld_plugin_management x)"

definition policy_doc :: "raw_repository_policy \<Rightarrow> pom_event list" where
  "policy_doc x = doc_of (
     opt_item ''enabled'' text_events (\<lambda>v. pol_enabled_update (\<lambda>_. v)) (pol_enabled x) @
     opt_item ''updatePolicy'' text_events (\<lambda>v. pol_update_policy_update (\<lambda>_. v)) (pol_update_policy x) @
     opt_item ''checksumPolicy'' text_events (\<lambda>v. pol_checksum_policy_update (\<lambda>_. v)) (pol_checksum_policy x) :: raw_repository_policy item list)"

definition policy_ok :: "unescaper \<Rightarrow> raw_repository_policy \<Rightarrow> bool" where
  "policy_ok u x \<longleftrightarrow> opt_plain u (pol_enabled x) \<and> opt_plain u (pol_update_policy x) \<and>
     opt_plain u (pol_checksum_policy x)"

definition repository_doc :: "raw_repository \<Rightarrow> pom_event list" where
  "repository_doc x = doc_of (
     opt_item ''id'' text_events (\<lambda>v. repo_id_update (\<lambda>_. v)) (repo_id x) @
     opt_item ''name'' text_events (\<lambda>v. repo_name_update (\<lambda>_. v)) (repo_name x) @
     opt_item ''url'' text_events (\<lambda>v. repo_url_update (\<lambda>_. v)) (repo_url x) @
     opt_item ''layout'' text_events (\<lambda>v. repo_layout_update (\<lambda>_. v)) (repo_layout x) @
     opt_item ''releases'' policy_doc (\<lambda>v. repo_releases_update (\<lambda>_. v)) (repo_releases x) @
     opt_item ''snapshots'' policy_doc (\<lambda>v. repo_snapshots_update (\<lambda>_. v)) (repo_snapshots x) :: raw_repository item list)"

definition repository_ok :: "unescaper \<Rightarrow> raw_repository \<Rightarrow> bool" where
  "repository_ok u x \<longleftrightarrow> opt_plain u (repo_id x) \<and> opt_plain u (repo_name x) \<and> opt_plain u (repo_url x) \<and>
     opt_plain u (repo_layout x) \<and> pred_option (policy_ok u) (repo_releases x) \<and>
     pred_option (policy_ok u) (repo_snapshots x)"

definition act_property_doc :: "raw_activation_property \<Rightarrow> pom_event list" where
  "act_property_doc x = doc_of (
     opt_item ''name'' text_events (\<lambda>v. ap_name_update (\<lambda>_. v)) (ap_name x) @
     opt_item ''value'' text_events (\<lambda>v. ap_value_update (\<lambda>_. v)) (ap_value x) :: raw_activation_property item list)"

definition act_property_ok :: "unescaper \<Rightarrow> raw_activation_property \<Rightarrow> bool" where
  "act_property_ok u x \<longleftrightarrow> opt_plain u (ap_name x) \<and> opt_plain u (ap_value x)"

definition act_file_doc :: "raw_activation_file \<Rightarrow> pom_event list" where
  "act_file_doc x = doc_of (
     opt_item ''exists'' text_events (\<lambda>v. af_exists_update (\<lambda>_. v)) (af_exists x) @
     opt_item ''missing'' text_events (\<lambda>v. af_missing_update (\<lambda>_. v)) (af_missing x) :: raw_activation_file item list)"

definition act_file_ok :: "unescaper \<Rightarrow> raw_activation_file \<Rightarrow> bool" where
  "act_file_ok u x \<longleftrightarrow> opt_plain u (af_exists x) \<and> opt_plain u (af_missing x)"

definition activation_doc :: "raw_activation \<Rightarrow> pom_event list" where
  "activation_doc x = doc_of (
     opt_item ''activeByDefault'' text_events (\<lambda>v. act_active_by_default_update (\<lambda>_. v)) (act_active_by_default x) @
     opt_item ''jdk'' text_events (\<lambda>v. act_jdk_update (\<lambda>_. v)) (act_jdk x) @
     opt_item ''os'' xml_doc (\<lambda>v. act_os_update (\<lambda>_. v)) (act_os x) @
     opt_item ''property'' act_property_doc (\<lambda>v. act_property_update (\<lambda>_. v)) (act_property x) @
     opt_item ''file'' act_file_doc (\<lambda>v. act_file_update (\<lambda>_. v)) (act_file x) :: raw_activation item list)"

definition activation_ok :: "unescaper \<Rightarrow> raw_activation \<Rightarrow> bool" where
  "activation_ok u x \<longleftrightarrow> opt_plain u (act_active_by_default x) \<and> opt_plain u (act_jdk x) \<and>
     pred_option (value_ok u) (act_os x) \<and> pred_option (act_property_ok u) (act_property x) \<and>
     pred_option (act_file_ok u) (act_file x)"

definition profile_doc :: "raw_profile \<Rightarrow> pom_event list" where
  "profile_doc x = doc_of (
     opt_item ''id'' text_events (\<lambda>v. prf_id_update (\<lambda>_. v)) (prf_id x) @
     opt_item ''activation'' activation_doc (\<lambda>v. prf_activation_update (\<lambda>_. v)) (prf_activation x) @
     sub_item ''properties'' (properties_doc) (\<lambda>v. prf_properties_update (\<lambda>_. v)) (prf_properties x) @
     sub_item ''dependencies'' (list_doc ''dependency'' dependency_doc) (\<lambda>v. prf_dependencies_update (\<lambda>_. v)) (prf_dependencies x) @
     opt_item ''dependencyManagement'' dep_management_doc (\<lambda>v. prf_dependency_management_update (\<lambda>_. v)) (prf_dependency_management x) @
     sub_item ''modules'' (list_doc ''module'' text_events) (\<lambda>v. prf_modules_update (\<lambda>_. v)) (prf_modules x) @
     opt_item ''build'' build_doc (\<lambda>v. prf_build_update (\<lambda>_. v)) (prf_build x) @
     sub_item ''repositories'' (list_doc ''repository'' repository_doc) (\<lambda>v. prf_repositories_update (\<lambda>_. v)) (prf_repositories x) @
     sub_item ''pluginRepositories'' (list_doc ''pluginRepository'' repository_doc) (\<lambda>v. prf_plugin_repositories_update (\<lambda>_. v)) (prf_plugin_repositories x) :: raw_profile item list)"

definition profile_ok :: "unescaper \<Rightarrow> raw_profile \<Rightarrow> bool" where
  "profile_ok u x \<longleftrightarrow> opt_plain u (prf_id x) \<and> pred_option (activation_ok u) (prf_activation x) \<and>
     properties_ok u (prf_properties x) \<and> list_all (dependency_ok u) (prf_dependencies x) \<and>
     pred_option (list_all (dependency_ok u)) (prf_dependency_management x) \<and>
     list_all (plain u) (prf_modules x) \<and> pred_option (build_ok u) (prf_build x) \<and>
     list_all (repository_ok u) (prf_repositories x) \<and>
     list_all (repository_ok u) (prf_plugin_repositories x)"

definition parent_doc :: "raw_parent \<Rightarrow> pom_event list" where
  "parent_doc x = doc_of (
     text_item ''groupId'' (\<lambda>v. par_group_id_update (\<lambda>_. v)) (par_group_id x) @
     text_item ''artifactId'' (\<lambda>v. par_artifact_id_update (\<lambda>_. v)) (par_artifact_id x) @
     text_item ''version'' (\<lambda>v. par_version_update (\<lambda>_. v)) (par_version x) @
     opt_item ''relativePath'' text_events (\<lambda>v. par_relative_path_update (\<lambda>_. v)) (par_relative_path x) :: raw_parent item list)"

definition parent_ok :: "unescaper \<Rightarrow> raw_parent \<Rightarrow> bool" where
  "parent_ok u x \<longleftrightarrow> plain u (par_group_id x) \<and> plain u (par_artifact_id x) \<and> plain u (par_version x) \<and>
     opt_plain u (par_relative_path x)"

definition pom_doc :: "raw_pom \<Rightarrow> pom_event list" where
  "pom_doc x = doc_of (
     text_item ''modelVersion'' (\<lambda>v. pom_model_version_update (\<lambda>_. v)) (pom_model_version x) @
     opt_item ''parent'' parent_doc (\<lambda>v. pom_parent_update (\<lambda>_. v)) (pom_parent x) @
     opt_item ''groupId'' text_events (\<lambda>v. pom_group_id_update (\<lambda>_. v)) (pom_group_id x) @
     text_item ''artifactId'' (\<lambda>v. pom_artifact_id_update (\<lambda>_. v)) (pom_artifact_id x) @
     opt_item ''version'' text_events (\<lambda>v. pom_version_update (\<lambda>_. v)) (pom_version x) @
     text_item ''packaging'' (\<lambda>v. pom_packaging_update (\<lambda>_. v)) (pom_packaging x) @
     opt_item ''name'' text_events (\<lambda>v. pom_name_update (\<lambda>_. v)) (pom_name x) @
     opt_item ''description'' text_events (\<lambda>v. pom_description_update (\<lambda>_. v)) (pom_description x) @
     opt_item ''url'' text_events (\<lambda>v. pom_url_update (\<lambda>_. v)) (pom_url x) @
     opt_item ''inceptionYear'' text_events (\<lambda>v. pom_inception_year_update (\<lambda>_. v)) (pom_inception_year x) @
     sub_item ''properties'' (properties_doc) (\<lambda>v. pom_properties_update (\<lambda>_. v)) (pom_properties x) @
     sub_item ''dependencies'' (list_doc ''dependency'' dependency_doc) (\<lambda>v. pom_dependencies_update (\<lambda>_. v)) (pom_dependencies x) @
     opt_item ''dependencyManagement'' dep_management_doc (\<lambda>v. pom_dependency_management_update (\<lambda>_. v)) (pom_dependency_management x) @
     sub_item ''modules'' (list_doc ''module'' text_events) (\<lambda>v. pom_modules_update (\<lambda>_. v)) (pom_modules x) @
     opt_item ''build'' build_doc (\<lambda>v. pom_build_update (\<lambda>_. v)) (pom_build x) @
     sub_item ''profiles'' (list_doc ''profile'' profile_doc) (\<lambda>v. pom_profiles_update (\<lambda>_. v)) (pom_profiles x) @
     sub_item ''repositories'' (list_doc ''repository'' repository_doc) (\<lambda>v. pom_repositories_update (\<lambda>_. v)) (pom_repositories x) @
     sub_item ''pluginRepositories'' (list_doc ''pluginRepository'' repository_doc) (\<lambda>v. pom_plugin_repositories_update (\<lambda>_. v)) (pom_plugin_repositories x) :: raw_pom item list)"

definition pom_ok :: "unescaper \<Rightarrow> raw_pom \<Rightarrow> bool" where
  "pom_ok u x \<longleftrightarrow> plain u (pom_model_version x) \<and> pred_option (parent_ok u) (pom_parent x) \<and>
     opt_plain u (pom_group_id x) \<and> plain u (pom_artifact_id x) \<and> opt_plain u (pom_version x) \<and>
     plain u (pom_packaging x) \<and> opt_plain u (pom_name x) \<and> opt_plain u (pom_description x) \<and>
     opt_plain u (pom_url x) \<and> opt_plain u (pom_inception_year x) \<and>
     properties_ok u (pom_properties x) \<and> list_all (dependency_ok u) (pom_dependencies x) \<and>
     pred_option (list_all (dependency_ok u)) (pom_dependency_management x) \<and>
     list_all (plain u) (pom_modules x) \<and> pred_option (build_ok u) (pom_build x) \<and>
     list_all (profile_ok u) (pom_profiles x) \<and> list_all (repository_ok u) (pom_repositories x) \<and>
     list_all (repository_ok u) (pom_plugin_repositories x)"

section \<open>The reader returns what was written\<close>

lemma parsed_by_items:
  "list_all (item_ok h) items \<Longrightarrow> build_of items d = x \<Longrightarrow> parses (element_loop el h d) (doc_of items) x"
  using parses_items [of h items el d] by simp

named_theorems pom_parsed "documents of the parts of a POM"

declare parses_text [pom_parsed]

lemma opt_plain_simps [simp]: "opt_plain u None" "opt_plain u (Some t) = plain u t"
  by (simp_all add: opt_plain_def)

lemmas item_rules = items_text items_sub items_opt

lemma strings_parsed [pom_parsed]:
  "local_name item = item \<Longrightarrow> list_all (plain u) xs \<Longrightarrow> parses (parse_string_list u item) (list_doc item text_events xs) xs"
  unfolding parse_string_list_def by (rule parses_list) (auto simp: list_all_iff intro: parses_text)

lemma properties_parsed [pom_parsed]:
  "properties_ok u ps \<Longrightarrow> parses (parse_properties u) (properties_doc ps) ps"
proof -
  assume ok: "properties_ok u ps"
  let ?items = "map (\<lambda>(k, t). (k, text_events t, im_insert k t)) ps"
  have "fold (\<lambda>(k, t). im_insert k t) ps qs = qs @ ps"
    if "distinct (map fst (qs @ ps))" for qs :: properties
    using that
  proof (induction ps arbitrary: qs)
    case (Cons p ps)
    obtain k t where p: "p = (k, t)" by fastforce
    have "im_insert k t qs = qs @ [(k, t)]"
      using Cons(2) p by (induction qs) auto
    then show ?case using Cons(1) [of "qs @ [(k, t)]"] Cons(2) p by simp
  qed simp
  from this [of "[]"] have "build_of ?items [] = ps"
    using ok by (simp add: properties_ok_def build_of_def fold_map comp_def case_prod_beta')
  moreover have "list_all (item_ok (\<lambda>name _ entries es. field (read_text u) (\<lambda>t. im_insert name t entries) es)) ?items"
    using ok by (auto simp: properties_ok_def list_all_iff item_ok_def intro!: parses_field parses_text)
  ultimately have "parses (parse_properties u) (doc_of ?items) ps"
    unfolding parse_properties_def by (intro parsed_by_items)
  then show ?thesis by (simp add: doc_of_def properties_doc_def comp_def case_prod_beta')
qed

lemma exclusion_parsed [pom_parsed]: "exclusion_ok u x \<Longrightarrow> parses (parse_exclusion u) (exclusion_doc x) x"
  unfolding parse_exclusion_def exclusion_doc_def
  by (rule parsed_by_items)
    (auto simp: exclusion_ok_def accepts_def exclusion_child_def local_name_def default_exclusion_def
      intro!: item_rules pom_parsed)

lemma exclusions_parsed [pom_parsed]:
  "list_all (exclusion_ok u) xs \<Longrightarrow> parses (parse_exclusions u) (list_doc ''exclusion'' exclusion_doc xs) xs"
  unfolding parse_exclusions_def by (rule parses_list) (auto simp: list_all_iff local_name_def intro: exclusion_parsed)

lemma dependency_parsed [pom_parsed]: "dependency_ok u x \<Longrightarrow> parses (parse_dependency u) (dependency_doc x) x"
  unfolding parse_dependency_def dependency_doc_def
  by (rule parsed_by_items)
    (auto simp: dependency_ok_def accepts_def dependency_child_def local_name_def default_dependency_def
      intro!: item_rules pom_parsed)

lemma dependencies_parsed [pom_parsed]:
  "list_all (dependency_ok u) xs \<Longrightarrow> parses (parse_dependencies u) (list_doc ''dependency'' dependency_doc xs) xs"
  unfolding parse_dependencies_def by (rule parses_list) (auto simp: list_all_iff local_name_def intro: dependency_parsed)

lemma single_parsed:
  assumes "parses p es v" "local_name n = n"
  shows "parses (element_loop el (\<lambda>name _ s es. if name = n then field p (\<lambda>x. x) es else field skip_element (\<lambda>_. s) es) [])
    (EvStart n [] # es @ [EvEnd]) v"
  using assms by (simp add: parses_def field_def)

lemma dep_management_parsed [pom_parsed]:
  "list_all (dependency_ok u) xs \<Longrightarrow> parses (parse_dependency_management u) (dep_management_doc xs) xs"
  unfolding parse_dependency_management_def dep_management_doc_def
  by (rule single_parsed) (auto simp: local_name_def intro: pom_parsed)

lemma resource_parsed [pom_parsed]: "resource_ok u x \<Longrightarrow> parses (parse_resource u) (resource_doc x) x"
  unfolding parse_resource_def resource_doc_def
  by (rule parsed_by_items)
    (auto simp: resource_ok_def accepts_def resource_child_def local_name_def default_resource_def
      intro!: item_rules pom_parsed)

lemma resources_parsed [pom_parsed]:
  "local_name item = item \<Longrightarrow> list_all (resource_ok u) xs \<Longrightarrow> parses (parse_resources u item) (list_doc item resource_doc xs) xs"
  unfolding parse_resources_def by (rule parses_list) (auto simp: list_all_iff intro: resource_parsed)

lemma children_parsed:
  assumes "\<And>v. v \<in> set vs \<Longrightarrow> parses (parse_xml_value u (xv_attributes v)) (xml_doc v) v"
    "\<And>v. v \<in> set vs \<Longrightarrow> read_attributes u (xv_attributes v) = xv_attributes v" "local_name n = n"
    "n \<notin> set (map fst acc)"
    "\<And>rest. xml_value_loop u attrs (acc @ [(n, ws @ vs)]) acct (tail @ rest) = Inr (x, length tail)" "ws \<noteq> [] \<or> vs \<noteq> []"
  shows "xml_value_loop u attrs (acc @ (if ws = [] then [] else [(n, ws)])) acct
      (concat (map (\<lambda>v. EvStart n (xv_attributes v) # xml_doc v) vs) @ tail @ rest) =
    Inr (x, length (concat (map (\<lambda>v. EvStart n (xv_attributes v) # xml_doc v) vs)) + length tail)"
  using assms
proof (induction vs arbitrary: ws rest)
  case (Cons v vs)
  have get: "im_get (acc @ (if ws = [] then [] else [(n, ws)])) n = (if ws = [] then None else Some ws)"
    using Cons(5) map_of_eq_None_iff [of acc n] by (simp add: im_get_def map_add_def)
  have ins: "im_insert n ys (acc @ (if ws = [] then [] else [(n, ws)])) = acc @ [(n, ys)]" for ys
    using Cons(5) by (induction acc) auto
  have v: "xml_value_loop u (read_attributes u (xv_attributes v)) [] [] (xml_doc v @ r) = Inr (v, length (xml_doc v))" for r
    using Cons(2,3) by (simp add: parses_def parse_xml_value_def)
  have "xml_value_loop u attrs (acc @ [(n, ws @ [v])]) acct
      (concat (map (\<lambda>v. EvStart n (xv_attributes v) # xml_doc v) vs) @ tail @ rest) =
    Inr (x, length (concat (map (\<lambda>v. EvStart n (xv_attributes v) # xml_doc v) vs)) + length tail)"
    using Cons(1) [of "ws @ [v]" rest] Cons(2-6) by simp
  then show ?case using v get ins Cons(4) by (cases "ws = []") (simp_all add: Let_def)
qed simp

lemma xml_attributes_read: "xml_ok u v \<Longrightarrow> read_attributes u (xv_attributes v) = xv_attributes v"
  by (cases v) (auto simp: read_attributes_def list_all_iff intro!: map_idI)

lemma xml_children_parsed:
  assumes "\<And>n vs v. (n, vs) \<in> set cs \<Longrightarrow> v \<in> set vs \<Longrightarrow> parses (parse_xml_value u (xv_attributes v)) (xml_doc v) v"
    "list_all (\<lambda>(n, vs). local_name n = n \<and> vs \<noteq> [] \<and> list_all (xml_ok u) vs) cs" "distinct (map fst (acc @ cs))"
  shows "xml_value_loop u attrs acc acct
      (concat (map (\<lambda>(n, vs). concat (map (\<lambda>v. EvStart n (xv_attributes v) # xml_doc v) vs)) cs) @ EvEnd # rest) =
    Inr (XmlValue attrs (if acct = [] then None else Some acct) (acc @ cs),
      Suc (length (concat (map (\<lambda>(n, vs). concat (map (\<lambda>v. EvStart n (xv_attributes v) # xml_doc v) vs)) cs))))"
  using assms
proof (induction cs arbitrary: acc rest)
  case (Cons c cs)
  obtain n vs where c: "c = (n, vs)" by fastforce
  have ih: "\<And>n vs v. (n, vs) \<in> set cs \<Longrightarrow> v \<in> set vs \<Longrightarrow> parses (parse_xml_value u (xv_attributes v)) (xml_doc v) v"
    using Cons(2) by auto
  let ?tail = "concat (map (\<lambda>(n, vs). concat (map (\<lambda>v. EvStart n (xv_attributes v) # xml_doc v) vs)) cs) @ [EvEnd]"
  have "xml_value_loop u attrs (acc @ [(n, [] @ vs)]) acct (?tail @ r) =
      Inr (XmlValue attrs (if acct = [] then None else Some acct) (acc @ c # cs), length ?tail)" for r
    using Cons(1) [of "acc @ [(n, vs)]" r, OF ih] Cons(3,4) c by simp
  note tail = this
  have "\<And>v. v \<in> set vs \<Longrightarrow> parses (parse_xml_value u (xv_attributes v)) (xml_doc v) v"
    "\<And>v. v \<in> set vs \<Longrightarrow> read_attributes u (xv_attributes v) = xv_attributes v"
    "local_name n = n" "n \<notin> set (map fst acc)"
    using Cons(2-4) c by (auto simp: list_all_iff xml_attributes_read)
  from children_parsed [OF this tail, of rest] show ?case
    using Cons(3) c by simp
qed simp

lemma xml_parsed: "xml_ok u v \<Longrightarrow> parses (parse_xml_value u (xv_attributes v)) (xml_doc v) v"
proof (induction v rule: xml_doc.induct)
  case (1 attrs tx children)
  have ih: "parses (parse_xml_value u (xv_attributes v)) (xml_doc v) v" if "(n, vs) \<in> set children" "v \<in> set vs" for n vs v
    using 1(1) [OF that(1) refl that(2)] 1(2) that by (fastforce simp: list_all_iff)
  have kids: "list_all (\<lambda>(n, vs). local_name n = n \<and> vs \<noteq> [] \<and> list_all (xml_ok u) vs) children"
    "distinct (map fst ([] @ children))" and ne: "tx \<noteq> Some []" using 1(2) by auto
  show ?case
    using xml_children_parsed [OF ih kids, where acct = "case tx of None \<Rightarrow> [] | Some t \<Rightarrow> t" and attrs = attrs] ne
    by (cases tx) (auto simp: parses_def parse_xml_value_def)
qed

lemma value_parsed [pom_parsed]: "value_ok u v \<Longrightarrow> parses (parse_xml_value u []) (xml_doc v) v"
  using xml_parsed [of u v] by (simp add: value_ok_def)

lemma execution_parsed [pom_parsed]: "execution_ok u x \<Longrightarrow> parses (parse_plugin_execution u) (execution_doc x) x"
  unfolding parse_plugin_execution_def execution_doc_def
  by (rule parsed_by_items)
    (auto simp: execution_ok_def accepts_def execution_child_def local_name_def default_execution_def
      intro!: item_rules pom_parsed)

lemma executions_parsed [pom_parsed]:
  "list_all (execution_ok u) xs \<Longrightarrow> parses (parse_plugin_executions u) (list_doc ''execution'' execution_doc xs) xs"
  unfolding parse_plugin_executions_def by (rule parses_list) (auto simp: list_all_iff local_name_def intro: execution_parsed)

lemma plugin_parsed [pom_parsed]: "plugin_ok u x \<Longrightarrow> parses (parse_plugin u) (plugin_doc x) x"
  unfolding parse_plugin_def plugin_doc_def
  by (rule parsed_by_items)
    (auto simp: plugin_ok_def accepts_def plugin_child_def local_name_def default_plugin_def
      intro!: item_rules pom_parsed)

lemma plugins_parsed [pom_parsed]:
  "list_all (plugin_ok u) xs \<Longrightarrow> parses (parse_plugins u) (list_doc ''plugin'' plugin_doc xs) xs"
  unfolding parse_plugins_def by (rule parses_list) (auto simp: list_all_iff local_name_def intro: plugin_parsed)

lemma plugin_management_parsed [pom_parsed]:
  "list_all (plugin_ok u) xs \<Longrightarrow> parses (parse_plugin_management u) (plugin_management_doc xs) xs"
  unfolding parse_plugin_management_def plugin_management_doc_def
  by (rule single_parsed) (auto simp: local_name_def intro: pom_parsed)

lemma build_parsed [pom_parsed]: "build_ok u x \<Longrightarrow> parses (parse_build u) (build_doc x) x"
  unfolding parse_build_def build_doc_def
  by (rule parsed_by_items)
    (auto simp: build_ok_def accepts_def build_child_def local_name_def default_build_def
      intro!: item_rules pom_parsed)

lemma policy_parsed [pom_parsed]: "policy_ok u x \<Longrightarrow> parses (parse_repo_policy u) (policy_doc x) x"
  unfolding parse_repo_policy_def policy_doc_def
  by (rule parsed_by_items)
    (auto simp: policy_ok_def accepts_def policy_child_def local_name_def default_policy_def
      intro!: item_rules pom_parsed)

lemma repository_parsed [pom_parsed]: "repository_ok u x \<Longrightarrow> parses (parse_repository u) (repository_doc x) x"
  unfolding parse_repository_def repository_doc_def
  by (rule parsed_by_items)
    (auto simp: repository_ok_def accepts_def repository_child_def local_name_def default_repository_def
      intro!: item_rules pom_parsed)

lemma repositories_parsed [pom_parsed]:
  "local_name item = item \<Longrightarrow> list_all (repository_ok u) xs \<Longrightarrow> parses (parse_repositories u item) (list_doc item repository_doc xs) xs"
  unfolding parse_repositories_def by (rule parses_list) (auto simp: list_all_iff intro: repository_parsed)

lemma act_property_parsed [pom_parsed]: "act_property_ok u x \<Longrightarrow> parses (parse_activation_property u) (act_property_doc x) x"
  unfolding parse_activation_property_def act_property_doc_def
  by (rule parsed_by_items)
    (auto simp: act_property_ok_def accepts_def local_name_def 
      intro!: item_rules pom_parsed)

lemma act_file_parsed [pom_parsed]: "act_file_ok u x \<Longrightarrow> parses (parse_activation_file u) (act_file_doc x) x"
  unfolding parse_activation_file_def act_file_doc_def
  by (rule parsed_by_items)
    (auto simp: act_file_ok_def accepts_def local_name_def 
      intro!: item_rules pom_parsed)

lemma activation_parsed [pom_parsed]: "activation_ok u x \<Longrightarrow> parses (parse_activation u) (activation_doc x) x"
  unfolding parse_activation_def activation_doc_def
  by (rule parsed_by_items)
    (auto simp: activation_ok_def accepts_def activation_child_def local_name_def default_activation_def
      intro!: item_rules pom_parsed)

lemma profile_parsed [pom_parsed]: "profile_ok u x \<Longrightarrow> parses (parse_profile u) (profile_doc x) x"
  unfolding parse_profile_def profile_doc_def
  by (rule parsed_by_items)
    (auto simp: profile_ok_def accepts_def profile_child_def local_name_def default_profile_def
      intro!: item_rules pom_parsed)

lemma profiles_parsed [pom_parsed]:
  "list_all (profile_ok u) xs \<Longrightarrow> parses (parse_profiles u) (list_doc ''profile'' profile_doc xs) xs"
  unfolding parse_profiles_def by (rule parses_list) (auto simp: list_all_iff local_name_def intro: profile_parsed)

lemma parent_parsed [pom_parsed]: "parent_ok u x \<Longrightarrow> parses (parse_parent u) (parent_doc x) x"
  unfolding parse_parent_def parent_doc_def
  by (rule parsed_by_items)
    (auto simp: parent_ok_def accepts_def parent_child_def local_name_def default_parent_def
      intro!: item_rules pom_parsed)

lemma project_loop_parsed:
  "pom_ok u x \<Longrightarrow> parses (element_loop ''project'' (project_child u) (default_pom\<lparr>pom_packaging := p, pom_model_version := v\<rparr>)) (pom_doc x) x"
  unfolding pom_doc_def
  by (rule parsed_by_items)
    (auto simp: pom_ok_def accepts_def project_child_def local_name_def default_pom_def
      intro!: item_rules pom_parsed)

text \<open>C30. For every POM value with model version 4.0.0 or 4.1.0 and a nonempty artifact id whose texts
  the entity decoder leaves alone, whose property and element names are distinct and without a
  namespace prefix, and whose free-form values have no empty text, no empty group of children and
  no attributes at their root, there is a document (the start of \<open>project\<close> and one child element per
  field) that the reader accepts, and it returns exactly that value: parent, properties, dependencies
  with exclusions, management, build with plugins and free-form configuration, profiles and
  repositories included, with nothing lost and nothing misplaced.\<close>

theorem pom_roundtrip:
  assumes "pom_ok u x" "pom_artifact_id x \<noteq> []" "pom_model_version x = ''4.0.0'' \<or> pom_model_version x = ''4.1.0''"
  shows "parse_inner u (EvStart ''project'' as # pom_doc x @ rest) = Inr x"
  using parsesD [OF project_loop_parsed [OF assms(1)]] assms(2,3)
  by (simp add: local_name_def parse_project_def validate_model_version_def rbind_def)

definition demo_pom :: raw_pom where
  "demo_pom = default_pom\<lparr>pom_model_version := ''4.0.0'', pom_artifact_id := ''app'', pom_packaging := ''jar'',
     pom_properties := [(''java.version'', ''21'')],
     pom_dependencies := [default_dependency\<lparr>dep_group_id := ''g'', dep_artifact_id := ''lib'', dep_version := Some ''1.0''\<rparr>]\<rparr>"

theorem pom_roundtrip_witness:
  "parse_inner Inr (EvStart ''project'' [] # pom_doc demo_pom @ []) = Inr demo_pom"
  by (rule pom_roundtrip)
    (simp_all add: demo_pom_def default_pom_def default_dependency_def pom_ok_def properties_ok_def dependency_ok_def
      plain_def local_name_def)

section \<open>Elements the reader does not know\<close>

text \<open>Well-nested content of an element.\<close>

fun nested :: "nat \<Rightarrow> pom_event list \<Rightarrow> bool" where
  "nested d [] \<longleftrightarrow> d = 0"
| "nested d (EvStart _ _ # es) \<longleftrightarrow> nested (Suc d) es"
| "nested d (EvEnd # es) \<longleftrightarrow> d > 0 \<and> nested (d - 1) es"
| "nested d (EvFail _ # es) \<longleftrightarrow> False"
| "nested d (_ # es) \<longleftrightarrow> nested d es"

lemma skip_nested: "nested d es \<Longrightarrow> skip_loop (Suc d) (es @ EvEnd # rest) = Inr ((), Suc (length es))"
proof (induction d es rule: nested.induct)
  case (3 d es)
  then show ?case by (cases d) auto
qed auto

text \<open>The children \<open>parse_project\<close> reads.\<close>

definition project_fields :: "string set" where
  "project_fields = {''modelVersion'', ''parent'', ''groupId'', ''artifactId'', ''version'', ''packaging'', ''name'',
     ''description'', ''url'', ''inceptionYear'', ''properties'', ''dependencies'', ''dependencyManagement'',
     ''modules'', ''build'', ''profiles'', ''repositories'', ''pluginRepositories''}"

lemma unknown_child: "n \<notin> project_fields \<Longrightarrow> project_child u n as p es = field skip_element (\<lambda>_. p) es"
  by (simp add: project_fields_def project_child_def)

lemma unknown_skipped:
  assumes "local_name n \<notin> project_fields" "nested 0 body"
  shows "element_loop el (project_child u) p (EvStart n as # body @ EvEnd # es) =
    after (Suc (Suc (length body))) (element_loop el (project_child u) p es)"
  using skip_nested [OF assms(2)] assms(1)
  by (simp add: unknown_child field_def skip_element_def)

text \<open>Where a child of \<open>project\<close> starts, whatever children came before.\<close>

definition children_doc :: "'s item list \<Rightarrow> pom_event list" where
  "children_doc items = concat (map (\<lambda>(n, b, _). EvStart n [] # b) items)"

lemma loop_prefix:
  assumes "list_all (item_ok h) items"
  shows "element_loop el h s (children_doc items @ es) =
    after (length (children_doc items)) (element_loop el h (build_of items s) es)"
  using assms unfolding children_doc_def
proof (induction items arbitrary: s)
  case Nil
  then show ?case by (cases "element_loop el h s es") (auto simp: after_def)
next
  case (Cons i items)
  obtain n b f where i: "i = (n, b, f)" by (cases i)
  have "h n [] s (b @ r) = Inr (f s, length b)" for r
    using Cons(2) i by (simp add: item_ok_def parses_def)
  then show ?case
    using Cons(1) [of "f s"] Cons(2) i by (simp add: item_ok_def build_of_def)
qed

text \<open>An element under \<open>project\<close> that is not one of the fields the reader models
  (\<open>licenses\<close>, \<open>scm\<close>, \<open>reporting\<close>, \<open>distributionManagement\<close>, ...) is ignored with everything
  nested in it, wherever it stands among the children: the document is read, to a value or an
  error, exactly as without it.\<close>

lemma unknown_element_ignored:
  assumes "list_all (item_ok (project_child u)) items" "local_name n \<notin> project_fields" "nested 0 body"
  shows "parse_inner u (EvStart ''project'' [] # children_doc items @ EvStart n as # body @ EvEnd # es) =
    parse_inner u (EvStart ''project'' [] # children_doc items @ es)"
proof -
  have same: "rbind (after k r) (\<lambda>(pom, n). if pom_artifact_id pom = [] then Inl e else Inr (pom, n)) =
      after k (rbind r (\<lambda>(pom, n). if pom_artifact_id pom = [] then Inl e else Inr (pom, n)))"
    for k e and r :: "(raw_pom \<times> nat, pom_error) result"
    by (cases r) (auto simp: after_def)
  have drop: "rbind (after k r) (\<lambda>(pom, _). f pom) = rbind r (\<lambda>(pom, _). f pom)"
    for k and r :: "(raw_pom \<times> nat, pom_error) result" and f :: "raw_pom \<Rightarrow> (raw_pom, pom_error) result"
    by (cases r) (auto simp: after_def)
  show ?thesis
    using assms(2,3)
    by (simp add: local_name_def [of "''project''"] parse_project_def loop_prefix [OF assms(1)] unknown_skipped same drop
      del: element_loop.simps(2))
qed

definition demo_items :: "raw_pom item list" where
  "demo_items = text_item ''artifactId'' (\<lambda>v. pom_artifact_id_update (\<lambda>_. v)) ''a''"

lemma demo_items_ok: "list_all (item_ok (project_child Inr)) demo_items"
  unfolding demo_items_def
  by (rule items_text [where u = Inr]) (simp_all add: plain_def accepts_def project_child_def local_name_def)

section \<open>References in text\<close>

fun flat_event :: "pom_event \<Rightarrow> bool" where
  "flat_event (EvText _) = True"
| "flat_event (EvCData _) = True"
| "flat_event (EvRef _) = True"
| "flat_event _ = False"

fun is_ref :: "pom_event \<Rightarrow> bool" where
  "is_ref (EvRef _) = True"
| "is_ref _ = False"

definition value_of :: "('a \<times> nat, pom_error) result \<Rightarrow> ('a, pom_error) result" where
  "value_of r = rbind r (\<lambda>(v, _). Inr v)"

lemma value_of_after [simp]: "value_of (after k r) = value_of r"
  by (cases r) (auto simp: value_of_def after_def)

lemma value_of_rbind: "value_of (rbind r f) = rbind r (\<lambda>x. value_of (f x))"
  by (cases r) (simp_all add: value_of_def)

lemma refs_loop:
  "list_all flat_event es \<Longrightarrow>
   value_of (read_text_loop u out (es @ EvEnd # rest)) = value_of (read_text_loop u out (filter (\<lambda>e. \<not> is_ref e) es @ EvEnd # rest))"
proof (induction es arbitrary: out)
  case (Cons e es)
  then show ?case by (cases e) (simp_all add: value_of_rbind)
qed simp

text \<open>quick-xml reports an entity or character reference in text as an event of its own, and
  \<open>read_text\<close> has no arm for it: the text of a field is read as if its references were not there, so
  \<open>R &amp; D\<close> becomes the two words without the ampersand.\<close>

lemma references_lost:
  assumes "list_all flat_event es"
  shows "value_of (read_text u (es @ EvEnd # rest)) = value_of (read_text u (filter (\<lambda>e. \<not> is_ref e) es @ EvEnd # rest))"
  unfolding read_text_def by (rule refs_loop [OF assms])

end
