(* ===== verification/Skipper.thy ===== *)
theory Skipper
  imports ResolverBase
begin

text \<open>
  Subtree pruning (\<open>crates/barista-resolver/src/skipper.rs\<close>). The \<open>BTreeSet\<close> of patterns is
  the list of the patterns inserted; only membership is ever asked. The \<open>u64\<close> counters are
  64-bit words. The lemmas show that the subset test on pattern sets is sound for the
  coordinates the sets match, and when a decision can be \<open>Skip\<close>.
\<close>

datatype skip_reason = AlreadyResolvedShallower nat nat | KnownLeaf

datatype skip_decision = Walk | Skip skip_reason

record exclusion_pattern =
  ep_group :: string
  ep_artifact :: string

type_synonym exclusion_set = "exclusion_pattern list"

definition pattern_new :: "string \<Rightarrow> string \<Rightarrow> exclusion_pattern" where
  "pattern_new g a = \<lparr>ep_group = (if g = [] then ''*'' else g), ep_artifact = (if a = [] then ''*'' else a)\<rparr>"

definition pattern_matches :: "exclusion_pattern \<Rightarrow> coords \<Rightarrow> bool" where
  "pattern_matches p c \<longleftrightarrow>
     (ep_group p = ''*'' \<or> ep_group p = co_group c) \<and> (ep_artifact p = ''*'' \<or> ep_artifact p = co_artifact c)"

definition pattern_subsumes :: "exclusion_pattern \<Rightarrow> exclusion_pattern \<Rightarrow> bool" where
  "pattern_subsumes p q \<longleftrightarrow>
     (ep_group p = ''*'' \<or> ep_group p = ep_group q) \<and> (ep_artifact p = ''*'' \<or> ep_artifact p = ep_artifact q)"

definition set_insert :: "exclusion_pattern \<Rightarrow> exclusion_set \<Rightarrow> exclusion_set" where
  "set_insert p s = (if p \<in> set s then s else s @ [p])"

definition exclusions_from_raw :: "raw_exclusion list \<Rightarrow> exclusion_set" where
  "exclusions_from_raw raw = fold (\<lambda>r. set_insert (pattern_new (exc_group_id r) (exc_artifact_id r))) raw []"

definition matches_any :: "exclusion_set \<Rightarrow> coords \<Rightarrow> bool" where
  "matches_any s c = list_ex (\<lambda>p. pattern_matches p c) s"

definition contains_matching :: "exclusion_set \<Rightarrow> exclusion_pattern \<Rightarrow> bool" where
  "contains_matching s pat = list_ex (\<lambda>our. pattern_subsumes our pat) s"

definition is_superset_of :: "exclusion_set \<Rightarrow> exclusion_set \<Rightarrow> bool" where
  "is_superset_of s other = list_all (contains_matching s) other"

record skipper_stats =
  ss_skips_already_resolved :: "64 word"
  ss_skips_known_leaf :: "64 word"
  ss_walks :: "64 word"

definition total_skips :: "skipper_stats \<Rightarrow> 64 word" where
  "total_skips s = ss_skips_already_resolved s + ss_skips_known_leaf s"

definition total_decisions :: "skipper_stats \<Rightarrow> 64 word" where
  "total_decisions s = ss_walks s + total_skips s"

record skipper_state =
  sk_winners_exclusions :: "(coords, exclusion_set) index_map"
  sk_known_leaves :: "coords list"
  sk_stats :: skipper_stats
  sk_enabled :: bool

definition skipper_with :: "bool \<Rightarrow> skipper_state" where
  "skipper_with en = \<lparr>sk_winners_exclusions = [], sk_known_leaves = [],
     sk_stats = \<lparr>ss_skips_already_resolved = 0, ss_skips_known_leaf = 0, ss_walks = 0\<rparr>, sk_enabled = en\<rparr>"

definition skipper_new :: skipper_state where
  "skipper_new = skipper_with True"

definition skipper_disabled :: skipper_state where
  "skipper_disabled = skipper_with False"

definition count_walk :: "skipper_state \<Rightarrow> skipper_state" where
  "count_walk sk = sk\<lparr>sk_stats := (sk_stats sk)\<lparr>ss_walks := ss_walks (sk_stats sk) + 1\<rparr>\<rparr>"

definition decide ::
    "skipper_state \<Rightarrow> coords \<Rightarrow> nat \<Rightarrow> exclusion_set \<Rightarrow> (coords, resolved_dep) index_map \<Rightarrow>
     skip_decision \<times> skipper_state" where
  "decide sk c depth path_exclusions winners =
     (if \<not> sk_enabled sk then (Walk, count_walk sk)
      else if c \<in> set (sk_known_leaves sk)
      then (Skip KnownLeaf,
            sk\<lparr>sk_stats := (sk_stats sk)\<lparr>ss_skips_known_leaf := ss_skips_known_leaf (sk_stats sk) + 1\<rparr>\<rparr>)
      else case im_get winners c of
        Some winner \<Rightarrow>
          if rd_depth winner < depth \<and>
             is_superset_of path_exclusions (unwrap_or (im_get (sk_winners_exclusions sk) c) [])
          then (Skip (AlreadyResolvedShallower (rd_depth winner) depth),
                sk\<lparr>sk_stats := (sk_stats sk)\<lparr>ss_skips_already_resolved := ss_skips_already_resolved (sk_stats sk) + 1\<rparr>\<rparr>)
          else (Walk, count_walk sk)
      | None \<Rightarrow> (Walk, count_walk sk))"

definition record_visit :: "coords \<Rightarrow> exclusion_set \<Rightarrow> bool \<Rightarrow> skipper_state \<Rightarrow> skipper_state" where
  "record_visit c path_exclusions was_leaf sk =
     (if \<not> sk_enabled sk then sk
      else sk\<lparr>sk_winners_exclusions := im_insert c path_exclusions (sk_winners_exclusions sk),
              sk_known_leaves := (if was_leaf \<and> c \<notin> set (sk_known_leaves sk)
                                  then c # sk_known_leaves sk else sk_known_leaves sk)\<rparr>)"

section \<open>Exclusion sets\<close>

lemma set_set_insert [simp]: "set (set_insert p s) = insert p (set s)"
  by (auto simp: set_insert_def)

lemma set_exclusions_from_raw:
  "set (exclusions_from_raw raw) = (\<lambda>r. pattern_new (exc_group_id r) (exc_artifact_id r)) ` set raw"
proof -
  have "set (fold (\<lambda>r. set_insert (f r)) raw s) = set s \<union> f ` set raw" for f :: "raw_exclusion \<Rightarrow> _" and s
    by (induction raw arbitrary: s) auto
  then show ?thesis by (simp add: exclusions_from_raw_def)
qed

text \<open>The pattern-set comparison is sound: if a set
  is a superset of another in the skipper's sense then it excludes every coordinate the other
  excludes; and it is reflexive and transitive, so it is a preorder on exclusion sets.\<close>

theorem superset_sound:
  "(is_superset_of s t \<longrightarrow> matches_any t c \<longrightarrow> matches_any s c) \<and> is_superset_of s s \<and>
   (is_superset_of s t \<longrightarrow> is_superset_of t u \<longrightarrow> is_superset_of s u)"
proof (intro conjI impI)
  show "matches_any s c" if "is_superset_of s t" "matches_any t c"
    using that unfolding matches_any_def is_superset_of_def contains_matching_def list_ex_iff list_all_iff
      pattern_matches_def pattern_subsumes_def by metis
  show "is_superset_of s s"
    by (auto simp: is_superset_of_def contains_matching_def list_ex_iff list_all_iff pattern_subsumes_def)
  show "is_superset_of s u" if "is_superset_of s t" "is_superset_of t u"
    using that unfolding is_superset_of_def contains_matching_def list_ex_iff list_all_iff
      pattern_subsumes_def by metis
qed

section \<open>Decisions\<close>

lemma decide_disabled: "\<not> sk_enabled sk \<Longrightarrow> fst (decide sk c d ex w) = Walk"
  by (simp add: decide_def)

lemma decide_Skip_winner:
  assumes "fst (decide sk c d ex w) = Skip r" "set (sk_known_leaves sk) \<subseteq> set (im_keys w)"
  shows "im_get w c \<noteq> None"
  using assms im_get_None_iff [of w c] by (auto simp: decide_def split: if_splits option.splits)

lemma decide_keeps [simp]:
  "sk_known_leaves (snd (decide sk c d ex w)) = sk_known_leaves sk"
  "sk_enabled (snd (decide sk c d ex w)) = sk_enabled sk"
  by (auto simp: decide_def count_walk_def split: option.splits)

lemma record_visit_enabled [simp]: "sk_enabled (record_visit c ex l sk) = sk_enabled sk"
  by (simp add: record_visit_def)

lemma record_visit_leaves: "set (sk_known_leaves (record_visit c ex l sk)) \<subseteq> insert c (set (sk_known_leaves sk))"
  by (auto simp: record_visit_def)

end
