(* ===== verification/Oreq.thy ===== *)
theory Oreq
  imports ResolverBase
begin

text \<open>
  The per-session request deduplication (\<open>crates/barista-resolver/src/oreq.rs\<close>). The session
  is shared behind an \<open>Arc\<close> with mutexes and atomics; the walker is sequential, so it is an
  explicit state here. Counters are 64-bit words (\<open>fetch_add\<close> wraps). A lookup returns the hit and the session
  with the counter advanced.
\<close>

record oreq_stats =
  oreq_01_avoided :: "64 word"
  oreq_02_avoided :: "64 word"
  oreq_03_avoided :: "64 word"
  oreq_04_avoided :: "64 word"
  oreq_05_avoided :: "64 word"

definition sat_add64 :: "64 word \<Rightarrow> 64 word \<Rightarrow> 64 word" where
  "sat_add64 a b = (if unat a + unat b < 2 ^ 64 then a + b else - 1)"

definition total_avoided :: "oreq_stats \<Rightarrow> 64 word" where
  "total_avoided s =
     sat_add64 (sat_add64 (sat_add64 (sat_add64 (oreq_01_avoided s) (oreq_02_avoided s))
       (oreq_03_avoided s)) (oreq_04_avoided s)) (oreq_05_avoided s)"

definition zero_stats :: oreq_stats where
  "zero_stats = \<lparr>oreq_01_avoided = 0, oreq_02_avoided = 0, oreq_03_avoided = 0,
     oreq_04_avoided = 0, oreq_05_avoided = 0\<rparr>"

definition to_bench_metadata :: "oreq_stats \<Rightarrow> (string \<times> string) list" where
  "to_bench_metadata s =
     [(''oreq_01_avoided'', show_nat (unat (oreq_01_avoided s))),
      (''oreq_02_avoided'', show_nat (unat (oreq_02_avoided s))),
      (''oreq_03_avoided'', show_nat (unat (oreq_03_avoided s))),
      (''oreq_04_avoided'', show_nat (unat (oreq_04_avoided s))),
      (''oreq_05_avoided'', show_nat (unat (oreq_05_avoided s)))]"

type_synonym metadata_key = "string \<times> coords"
type_synonym pom_key = "coords \<times> string"

record oreq_session =
  os_counters :: oreq_stats
  os_metadata_cache :: "(metadata_key, ga_metadata) index_map"
  os_frozen_pins :: "(coords, string) index_map option"
  os_raw_pom_cache :: "(pom_key, raw_pom) index_map"
  os_resolved_pom_cache :: "(pom_key, resolved_pom) index_map"

definition session_new :: oreq_session where
  "session_new = \<lparr>os_counters = zero_stats, os_metadata_cache = [], os_frozen_pins = None,
     os_raw_pom_cache = [], os_resolved_pom_cache = []\<rparr>"

definition with_frozen_pins :: "(coords, string) index_map \<Rightarrow> oreq_session \<Rightarrow> oreq_session" where
  "with_frozen_pins pins s = s\<lparr>os_frozen_pins := Some pins\<rparr>"

definition is_frozen :: "oreq_session \<Rightarrow> bool" where
  "is_frozen s \<longleftrightarrow> os_frozen_pins s \<noteq> None"

definition frozen_pin :: "oreq_session \<Rightarrow> coords \<Rightarrow> string option" where
  "frozen_pin s c = (case os_frozen_pins s of None \<Rightarrow> None | Some pins \<Rightarrow> im_get pins c)"

definition lookup_metadata :: "metadata_key \<Rightarrow> oreq_session \<Rightarrow> ga_metadata option \<times> oreq_session" where
  "lookup_metadata key s =
     (case im_get (os_metadata_cache s) key of
        Some md \<Rightarrow> (Some md, s\<lparr>os_counters := (os_counters s)\<lparr>oreq_01_avoided := oreq_01_avoided (os_counters s) + 1\<rparr>\<rparr>)
      | None \<Rightarrow> (None, s))"

definition record_metadata_origin :: "fetch_origin \<Rightarrow> oreq_session \<Rightarrow> oreq_session" where
  "record_metadata_origin origin s =
     (if origin = Disk \<or> origin = InMemory
      then s\<lparr>os_counters := (os_counters s)\<lparr>oreq_02_avoided := oreq_02_avoided (os_counters s) + 1\<rparr>\<rparr> else s)"

definition deposit_metadata :: "metadata_key \<Rightarrow> ga_metadata \<Rightarrow> fetch_origin \<Rightarrow> oreq_session \<Rightarrow> oreq_session" where
  "deposit_metadata key md origin s =
     (let s' = record_metadata_origin origin s
      in s'\<lparr>os_metadata_cache := im_insert key md (os_metadata_cache s')\<rparr>)"

definition record_frozen_skip :: "oreq_session \<Rightarrow> oreq_session" where
  "record_frozen_skip s =
     s\<lparr>os_counters := (os_counters s)\<lparr>oreq_03_avoided := oreq_03_avoided (os_counters s) + 1\<rparr>\<rparr>"

definition lookup_parent_pom :: "coords \<Rightarrow> string \<Rightarrow> oreq_session \<Rightarrow> raw_pom option \<times> oreq_session" where
  "lookup_parent_pom c version s =
     (case im_get (os_raw_pom_cache s) (c, version) of
        Some p \<Rightarrow> (Some p, s\<lparr>os_counters := (os_counters s)\<lparr>oreq_04_avoided := oreq_04_avoided (os_counters s) + 1\<rparr>\<rparr>)
      | None \<Rightarrow> (None, s))"

definition deposit_parent_pom :: "coords \<Rightarrow> string \<Rightarrow> raw_pom \<Rightarrow> oreq_session \<Rightarrow> oreq_session" where
  "deposit_parent_pom c version pom s =
     s\<lparr>os_raw_pom_cache := im_insert (c, version) pom (os_raw_pom_cache s)\<rparr>"

definition lookup_effective_pom :: "coords \<Rightarrow> string \<Rightarrow> oreq_session \<Rightarrow> resolved_pom option \<times> oreq_session" where
  "lookup_effective_pom c version s =
     (case im_get (os_resolved_pom_cache s) (c, version) of
        Some r \<Rightarrow> (Some r, s\<lparr>os_counters := (os_counters s)\<lparr>oreq_05_avoided := oreq_05_avoided (os_counters s) + 1\<rparr>\<rparr>)
      | None \<Rightarrow> (None, s))"

definition deposit_effective_pom :: "coords \<Rightarrow> string \<Rightarrow> resolved_pom \<Rightarrow> oreq_session \<Rightarrow> oreq_session" where
  "deposit_effective_pom c version r s =
     s\<lparr>os_resolved_pom_cache := im_insert (c, version) r (os_resolved_pom_cache s)\<rparr>"

section \<open>The memo contract\<close>

text \<open>What the walker relies on for each of the three caches: a lookup changes nothing it could
  later observe, and a deposit is found again and disturbs no other key. A cache all of whose
  entries agree with a reference function stays so, and then a hit is as good as the
  computation.\<close>

locale memo =
  fixes cache_of :: "'s \<Rightarrow> 'k \<Rightarrow> 'v option"
    and lookup :: "'k \<Rightarrow> 's \<Rightarrow> 'v option \<times> 's"
    and deposit :: "'k \<Rightarrow> 'v \<Rightarrow> 's \<Rightarrow> 's"
  assumes lookup_hit: "fst (lookup k s) = cache_of s k"
    and lookup_frame: "cache_of (snd (lookup k s)) = cache_of s"
    and deposit_get: "cache_of (deposit k v s) k' = (if k' = k then Some v else cache_of s k')"
begin

definition agrees :: "('k \<Rightarrow> 'v \<Rightarrow> bool) \<Rightarrow> 's \<Rightarrow> bool" where
  "agrees R s \<longleftrightarrow> (\<forall>k v. cache_of s k = Some v \<longrightarrow> R k v)"

lemma agrees_lookup: "agrees R (snd (lookup k s)) \<longleftrightarrow> agrees R s"
  by (simp add: agrees_def lookup_frame)

lemma agrees_deposit: "agrees R s \<Longrightarrow> R k v \<Longrightarrow> agrees R (deposit k v s)"
  by (simp add: agrees_def deposit_get)

lemma agrees_hit: "agrees R s \<Longrightarrow> fst (lookup k s) = Some v \<Longrightarrow> R k v"
  by (simp add: agrees_def lookup_hit)

lemma deposit_lookup: "fst (lookup k (deposit k v s)) = Some v"
  by (simp add: lookup_hit deposit_get)

end

lemmas oreq_defs = lookup_metadata_def deposit_metadata_def record_metadata_origin_def record_frozen_skip_def
  lookup_parent_pom_def deposit_parent_pom_def lookup_effective_pom_def deposit_effective_pom_def

interpretation md_memo: memo "\<lambda>s. im_get (os_metadata_cache s)" lookup_metadata
  "\<lambda>k md. deposit_metadata k md origin" for origin
  by unfold_locales (auto simp: oreq_defs im.get_put Let_def split: option.splits)

interpretation raw_memo: memo "\<lambda>s. im_get (os_raw_pom_cache s)"
  "\<lambda>k. lookup_parent_pom (fst k) (snd k)" "\<lambda>k. deposit_parent_pom (fst k) (snd k)"
  by unfold_locales (auto simp: oreq_defs im.get_put split: option.splits)

interpretation eff_memo: memo "\<lambda>s. im_get (os_resolved_pom_cache s)"
  "\<lambda>k. lookup_effective_pom (fst k) (snd k)" "\<lambda>k. deposit_effective_pom (fst k) (snd k)"
  by unfold_locales (auto simp: oreq_defs im.get_put split: option.splits)

text \<open>The operations on one cache leave the others and the pins alone.\<close>

lemma oreq_frame [simp]:
  "os_raw_pom_cache (snd (lookup_metadata k s)) = os_raw_pom_cache s"
  "os_resolved_pom_cache (snd (lookup_metadata k s)) = os_resolved_pom_cache s"
  "os_frozen_pins (snd (lookup_metadata k s)) = os_frozen_pins s"
  "os_raw_pom_cache (deposit_metadata k md origin s) = os_raw_pom_cache s"
  "os_resolved_pom_cache (deposit_metadata k md origin s) = os_resolved_pom_cache s"
  "os_frozen_pins (deposit_metadata k md origin s) = os_frozen_pins s"
  "os_metadata_cache (snd (lookup_parent_pom c v s)) = os_metadata_cache s"
  "os_resolved_pom_cache (snd (lookup_parent_pom c v s)) = os_resolved_pom_cache s"
  "os_frozen_pins (snd (lookup_parent_pom c v s)) = os_frozen_pins s"
  "os_metadata_cache (deposit_parent_pom c v p s) = os_metadata_cache s"
  "os_resolved_pom_cache (deposit_parent_pom c v p s) = os_resolved_pom_cache s"
  "os_frozen_pins (deposit_parent_pom c v p s) = os_frozen_pins s"
  "os_metadata_cache (snd (lookup_effective_pom c v s)) = os_metadata_cache s"
  "os_raw_pom_cache (snd (lookup_effective_pom c v s)) = os_raw_pom_cache s"
  "os_frozen_pins (snd (lookup_effective_pom c v s)) = os_frozen_pins s"
  "os_metadata_cache (deposit_effective_pom c v r s) = os_metadata_cache s"
  "os_raw_pom_cache (deposit_effective_pom c v r s) = os_raw_pom_cache s"
  "os_frozen_pins (deposit_effective_pom c v r s) = os_frozen_pins s"
  "os_metadata_cache (record_frozen_skip s) = os_metadata_cache s"
  "os_raw_pom_cache (record_frozen_skip s) = os_raw_pom_cache s"
  "os_resolved_pom_cache (record_frozen_skip s) = os_resolved_pom_cache s"
  "os_frozen_pins (record_frozen_skip s) = os_frozen_pins s"
  by (simp_all add: oreq_defs Let_def split: option.splits)

end
