(* ===== verification/Walker.thy ===== *)
theory Walker
  imports Skipper Oreq
begin

text \<open>
  The breadth-first dependency walker (\<open>crates/barista-resolver/src/walker.rs\<close>).

  \<^item> \<open>walk_world\<close> holds what is outside the program: the metadata source, the process
    environment and the file system test of profile activation.
  \<^item> The O-REQ session (\<open>Option<Arc<OreqSession>>\<close>) is threaded through the state.
  \<^item> The BFS loop may run forever on an infinite graph; \<open>walk_loop\<close> takes a step bound and
    returns \<open>None\<close> when it is used up. That a bound exists for every source with finitely
    many coordinates is proved in \<open>WalkerProps\<close>.
  \<^item> Errors carry the values whose printed form the code puts into the message.
  \<^item> Depths are \<open>u32\<close>: \<open>saturating_add\<close> stops at \<open>2^32 - 1\<close>.
\<close>

section \<open>Types\<close>

datatype err_detail =
    DetailText string
  | DetailMeta metadata_error
  | DetailCoords coord_error
  | DetailResolve resolve_error
  | DetailNoEntry string "string option"

datatype walk_error =
    WMetadata metadata_error
  | InvalidSpec string string spec_error
  | MissingVersion string
  | NoMetaVersionCandidate string version_spec
  | InvalidCoords string string coord_error
  | SnapshotResolution string string err_detail
  | ParentChainResolution string string err_detail
  | EffectivePomResolution string string err_detail

record walk_options =
  wo_strip_optional :: bool
  wo_include_scopes :: "scope list"
  wo_activation :: activation_context
  wo_enable_skipper :: bool
  wo_oreq :: "oreq_session option"
  wo_repo_id :: string

record walk_world =
  ww_source :: metadata_source
  ww_env :: "string \<Rightarrow> string option"
  ww_fs_exists :: "string \<Rightarrow> string \<Rightarrow> bool"

record work_item =
  wi_dep :: raw_dependency
  wi_depth :: nat
  wi_parent_path :: "coords list"
  wi_parent_scope :: scope
  wi_exclusions :: "raw_exclusion list"
  wi_is_direct :: bool

record walk_state =
  ws_queue :: "work_item list"
  ws_winners :: "(coords, resolved_dep) index_map"
  ws_order :: "coords list"
  ws_losers :: "(coords, (string \<times> nat) list) index_map"
  ws_warnings :: "spec_warning list"
  ws_skipper :: skipper_state
  ws_session :: "oreq_session option"

record resolved_graph =
  rg_resolved :: "resolved_dep list"
  rg_winners :: "(coords \<times> resolved_dep) list"
  rg_warnings :: "spec_warning list"
  rg_audit :: "audit_entry list"
  rg_skipper_stats :: skipper_stats
  rg_oreq_stats :: oreq_stats

definition default_options :: walk_options where
  "default_options = \<lparr>wo_strip_optional = True, wo_include_scopes = [], wo_activation = empty_context,
     wo_enable_skipper = True, wo_oreq = None, wo_repo_id = ''default''\<rparr>"

definition MAX_PARENT_PREFETCH_ROUNDS :: nat where
  "MAX_PARENT_PREFETCH_ROUNDS = 64"

definition sat_succ32 :: "nat \<Rightarrow> nat" where
  "sat_succ32 d = min (2 ^ 32 - 1) (d + 1)"

lemma sat_succ32_code [code]: "sat_succ32 d = (if int d < 4294967295 then Suc d else nat 4294967295)"
  by (auto simp: sat_succ32_def)

section \<open>Fetching through the session\<close>

definition fetch_metadata_via_session ::
    "walk_world \<Rightarrow> walk_options \<Rightarrow> coords \<Rightarrow> oreq_session option \<Rightarrow>
     (ga_metadata \<times> oreq_session option, walk_error) result" where
  "fetch_metadata_via_session w opts c ses =
     (case ses of
        Some session \<Rightarrow>
          let key = (wo_repo_id opts, c) in
          (case lookup_metadata key session of
             (Some md, session') \<Rightarrow> Inr (md, Some session')
           | (None, session') \<Rightarrow>
               rbind (map_err WMetadata (fetch_metadata (ww_source w) c)) (\<lambda>(md, origin).
               Inr (md, Some (deposit_metadata key md origin session'))))
      | None \<Rightarrow> rbind (map_err WMetadata (fetch_metadata (ww_source w) c)) (\<lambda>(md, origin). Inr (md, None)))"

definition fetch_pom_via_session ::
    "walk_world \<Rightarrow> coords \<Rightarrow> string \<Rightarrow> oreq_session option \<Rightarrow>
     (raw_pom \<times> oreq_session option, metadata_error) result" where
  "fetch_pom_via_session w c version ses =
     (case ses of
        Some session \<Rightarrow>
          (case lookup_parent_pom c version session of
             (Some pom, session') \<Rightarrow> Inr (pom, Some session')
           | (None, session') \<Rightarrow>
               rbind (fetch_pom (ww_source w) c version) (\<lambda>(pom, origin).
               Inr (pom, Some (deposit_parent_pom c version pom session'))))
      | None \<Rightarrow> rbind (fetch_pom (ww_source w) c version) (\<lambda>(pom, origin). Inr (pom, None)))"

section \<open>Version resolution\<close>

fun max_by :: "('a \<Rightarrow> 'a \<Rightarrow> ordering) \<Rightarrow> 'a list \<Rightarrow> 'a option" where
  "max_by cmp [] = None"
| "max_by cmp (x # xs) = Some (fold (\<lambda>y acc. if cmp acc y = Greater then acc else y) xs x)"

definition in_intervals :: "interval list \<Rightarrow> string \<Rightarrow> bool" where
  "in_intervals intervals v = list_ex (\<lambda>iv. interval_contains iv (version_parse v)) intervals"

definition session_pin :: "oreq_session option \<Rightarrow> coords \<Rightarrow> string option" where
  "session_pin ses c = (case ses of None \<Rightarrow> None | Some s \<Rightarrow> frozen_pin s c)"

fun resolve_spec ::
    "walk_world \<Rightarrow> walk_options \<Rightarrow> version_spec \<Rightarrow> coords \<Rightarrow> oreq_session option \<Rightarrow>
     (string \<times> spec_warning list \<times> oreq_session option, walk_error) result" where
  "resolve_spec w opts (Soft v) c ses =
     (case session_pin ses c of
        Some pin \<Rightarrow> Inr (pin, [], map_option record_frozen_skip ses)
      | None \<Rightarrow> Inr (v, [], ses))"
| "resolve_spec w opts (Hard intervals) c ses =
     (let from_metadata =
        rbind (fetch_metadata_via_session w opts c ses) (\<lambda>(md, ses').
          case max_by vcmp (filter (in_intervals intervals) (gm_versions md)) of
            Some picked \<Rightarrow> Inr (picked, [], ses')
          | None \<Rightarrow> Inl (NoMetaVersionCandidate (coords_display c) (Hard intervals)))
      in case session_pin ses c of
           Some pin \<Rightarrow> if in_intervals intervals pin then Inr (pin, [], map_option record_frozen_skip ses)
                       else from_metadata
         | None \<Rightarrow> from_metadata)"
| "resolve_spec w opts Latest c ses =
     (case session_pin ses c of
        Some pin \<Rightarrow> Inr (pin, [LatestUsed (coords_display c) pin], map_option record_frozen_skip ses)
      | None \<Rightarrow>
          rbind (fetch_metadata_via_session w opts c ses) (\<lambda>(md, ses').
          if gm_versions md = [] then Inl (NoMetaVersionCandidate (coords_display c) Latest)
          else Inr (last (gm_versions md), [LatestUsed (coords_display c) (last (gm_versions md))], ses')))"
| "resolve_spec w opts Release c ses =
     (case session_pin ses c of
        Some pin \<Rightarrow> Inr (pin, [ReleaseUsed (coords_display c) pin], map_option record_frozen_skip ses)
      | None \<Rightarrow>
          rbind (fetch_metadata_via_session w opts c ses) (\<lambda>(md, ses').
          case find (\<lambda>v. \<not> ends_with v ''-SNAPSHOT'') (rev (gm_versions md)) of
            None \<Rightarrow> Inl (NoMetaVersionCandidate (coords_display c) Release)
          | Some picked \<Rightarrow> Inr (picked, [ReleaseUsed (coords_display c) picked], ses')))"

definition resolve_snapshot_fetch_version ::
    "walk_world \<Rightarrow> string \<Rightarrow> coords \<Rightarrow> raw_dependency \<Rightarrow> (string, walk_error) result" where
  "resolve_snapshot_fetch_version w version c dep =
     (if \<not> is_snapshot (version_parse version) then Inr version
      else case fetch_snapshot_info (ww_source w) c version of
        Inr (info, origin) \<Rightarrow>
          let extension = unwrap_or (dep_type dep) ''jar''; classifier = dep_classifier dep in
          (case pick_version info extension classifier of
             Some ts \<Rightarrow> Inr ts
           | None \<Rightarrow> Inl (SnapshotResolution (coords_display c) version (DetailNoEntry extension classifier)))
      | Inl (MetadataNotFound _) \<Rightarrow> Inr version
      | Inl e \<Rightarrow> Inl (SnapshotResolution (coords_display c) version (DetailMeta e)))"

section \<open>Child POMs\<close>

type_synonym pom_chain = "(gav, raw_pom) index_map"

definition map_parent_resolver :: "pom_chain \<Rightarrow> parent_resolver" where
  "map_parent_resolver chain p =
     (case im_get chain (parent_gav p) of
        Some pom \<Rightarrow> Inr pom
      | None \<Rightarrow> Inl (''parent '' @ gav_str (parent_gav p) @ '' not in prefetched chain''))"

text \<open>\<open>n\<close> is the number of ancestors that may still be fetched.\<close>

fun prefetch_loop ::
    "walk_world \<Rightarrow> nat \<Rightarrow> raw_parent option \<Rightarrow> pom_chain \<Rightarrow> oreq_session option \<Rightarrow>
     (pom_chain \<times> oreq_session option, walk_error) result" where
  "prefetch_loop w n None chain ses = Inr (chain, ses)"
| "prefetch_loop w 0 (Some p) chain ses = Inr (chain, ses)"
| "prefetch_loop w (Suc n) (Some p) chain ses =
     (let key = parent_gav p in
      if im_get chain key \<noteq> None then Inr (chain, ses)
      else
        rbind (map_err (\<lambda>e. ParentChainResolution (par_group_id p @ '':'' @ par_artifact_id p) (par_version p) (DetailCoords e))
                 (coords_new (par_group_id p) (par_artifact_id p))) (\<lambda>c.
        rbind (map_err (\<lambda>e. ParentChainResolution (coords_display c) (par_version p) (DetailMeta e))
                 (fetch_pom_via_session w c (par_version p) ses)) (\<lambda>(parent_pom, ses').
        prefetch_loop w n (pom_parent parent_pom) (im_insert key parent_pom chain) ses')))"

definition prefetch_parent_chain ::
    "walk_world \<Rightarrow> raw_pom \<Rightarrow> oreq_session option \<Rightarrow> (pom_chain \<times> oreq_session option, walk_error) result" where
  "prefetch_parent_chain w raw ses = prefetch_loop w MAX_CHAIN_DEPTH (pom_parent raw) [] ses"

definition parse_gav :: "string \<Rightarrow> gav option" where
  "parse_gav s =
     (case split_once (CHR '':'') s of
        None \<Rightarrow> None
      | Some (g, r) \<Rightarrow>
          (case split_once (CHR '':'') r of
             None \<Rightarrow> None
           | Some (a, v) \<Rightarrow> if g = [] \<or> a = [] \<or> v = [] then None else Some (g, a, v)))"

fun missing_coord :: "resolve_error \<Rightarrow> string option" where
  "missing_coord (Effective (ParentResolution missing _)) = Some missing"
| "missing_coord (BomImportResolution missing _) = Some missing"
| "missing_coord _ = None"

fun resolve_rounds ::
    "walk_world \<Rightarrow> walk_options \<Rightarrow> coords \<Rightarrow> string \<Rightarrow> raw_pom \<Rightarrow> nat \<Rightarrow> pom_chain \<Rightarrow> oreq_session option \<Rightarrow>
     (resolved_pom \<times> oreq_session option, walk_error) result" where
  "resolve_rounds w opts c version raw 0 chain ses =
     Inl (EffectivePomResolution (coords_display c) version
       (DetailText (''parent-prefetch fixed point did not converge after '' @ show_nat MAX_PARENT_PREFETCH_ROUNDS @ '' rounds'')))"
| "resolve_rounds w opts c version raw (Suc n) chain ses =
     (case resolve_pom (map_parent_resolver chain) (ww_env w) (ww_fs_exists w) raw (wo_activation opts) of
        Inr resolved1 \<Rightarrow> Inr (resolved1, ses)
      | Inl e \<Rightarrow>
          (case missing_coord e of
             None \<Rightarrow> Inl (EffectivePomResolution (coords_display c) version (DetailResolve e))
           | Some missing \<Rightarrow>
               (case parse_gav missing of
                  None \<Rightarrow> Inl (EffectivePomResolution (coords_display c) version
                      (DetailText (''unparseable missing-coord from resolver: '' @ missing)))
                | Some (mg, ma, mv) \<Rightarrow>
                    rbind (map_err (\<lambda>e. ParentChainResolution (mg @ '':'' @ ma) mv (DetailCoords e)) (coords_new mg ma)) (\<lambda>mc.
                    rbind (map_err (\<lambda>e. ParentChainResolution (coords_display mc) mv (DetailMeta e))
                             (fetch_pom_via_session w mc mv ses)) (\<lambda>(missing_pom, ses1).
                    rbind (prefetch_parent_chain w missing_pom ses1) (\<lambda>(extra, ses2).
                    resolve_rounds w opts c version raw n
                      (fold (\<lambda>(k, p). im_insert k p) extra (im_insert (mg, ma, mv) missing_pom chain)) ses2))))))"

definition resolve_child_pom ::
    "walk_world \<Rightarrow> walk_options \<Rightarrow> coords \<Rightarrow> string \<Rightarrow> raw_pom \<Rightarrow> oreq_session option \<Rightarrow>
     (resolved_pom \<times> oreq_session option, walk_error) result" where
  "resolve_child_pom w opts c version raw ses =
     rbind (prefetch_parent_chain w raw ses) (\<lambda>(chain, ses').
     resolve_rounds w opts c version raw MAX_PARENT_PREFETCH_ROUNDS chain ses')"

text \<open>The effective POM of a winner, through the session when there is one.\<close>

definition fetch_child ::
    "walk_world \<Rightarrow> walk_options \<Rightarrow> coords \<Rightarrow> string \<Rightarrow> oreq_session option \<Rightarrow>
     (resolved_pom \<times> oreq_session option, walk_error) result" where
  "fetch_child w opts c fetch_version ses =
     (case ses of
        Some session \<Rightarrow>
          (case lookup_effective_pom c fetch_version session of
             (Some r, session') \<Rightarrow> Inr (r, Some (snd (lookup_parent_pom c fetch_version session')))
           | (None, session') \<Rightarrow>
               rbind (map_err WMetadata (fetch_pom_via_session w c fetch_version (Some session'))) (\<lambda>(raw, ses1).
               rbind (resolve_child_pom w opts c fetch_version raw ses1) (\<lambda>(r, ses2).
               Inr (r, map_option (deposit_effective_pom c fetch_version r) ses2))))
      | None \<Rightarrow>
          rbind (map_err WMetadata (fetch_pom (ww_source w) c fetch_version)) (\<lambda>(raw, origin).
          resolve_child_pom w opts c fetch_version raw None))"

section \<open>The walk\<close>

definition matches_any_exclusion :: "coords \<Rightarrow> raw_exclusion list \<Rightarrow> bool" where
  "matches_any_exclusion c exclusions =
     list_ex (\<lambda>x. (exc_group_id x = ''*'' \<or> exc_group_id x = co_group c) \<and>
                  (exc_artifact_id x = ''*'' \<or> exc_artifact_id x = co_artifact c)) exclusions"

definition parse_bool :: "string option \<Rightarrow> bool" where
  "parse_bool s \<longleftrightarrow> map_option trim s = Some ''true''"

text \<open>\<open>None\<close>: the item is dropped by its scope.\<close>

definition item_scope :: "work_item \<Rightarrow> scope option" where
  "item_scope item =
     (let declared_scope = scope_parse (dep_scope (wi_dep item)) in
      if wi_is_direct item then (if declared_scope = Import then None else Some declared_scope)
      else scope_inherit (wi_parent_scope item) declared_scope)"

definition push_loser :: "coords \<Rightarrow> string \<Rightarrow> nat \<Rightarrow> walk_state \<Rightarrow> walk_state" where
  "push_loser c v d st =
     st\<lparr>ws_losers := im_insert c (unwrap_or (im_get (ws_losers st) c) [] @ [(v, d)]) (ws_losers st)\<rparr>"

definition skipped_version :: "raw_dependency \<Rightarrow> string" where
  "skipped_version dep =
     (case map_option trim (dep_version dep) of
        Some v \<Rightarrow> if v \<noteq> [] then v else ''<unresolved>''
      | None \<Rightarrow> ''<unresolved>'')"

definition declared_version :: "coords \<Rightarrow> raw_dependency \<Rightarrow> (string, walk_error) result" where
  "declared_version c dep =
     (case dep_version dep of
        Some v \<Rightarrow> if trim v \<noteq> [] then Inr v else Inl (MissingVersion (coords_display c))
      | None \<Rightarrow> Inl (MissingVersion (coords_display c)))"

definition dep_record :: "work_item \<Rightarrow> coords \<Rightarrow> string \<Rightarrow> scope \<Rightarrow> resolved_dep" where
  "dep_record item c version sc =
     \<lparr>rd_coords = c, rd_version = version, rd_scope = sc, rd_classifier = dep_classifier (wi_dep item),
      rd_type = unwrap_or (dep_type (wi_dep item)) ''jar'', rd_optional = parse_bool (dep_optional (wi_dep item)),
      rd_depth = wi_depth item, rd_winning_path = wi_parent_path item @ [c]\<rparr>"

definition record_winner :: "resolved_dep \<Rightarrow> walk_state \<Rightarrow> walk_state" where
  "record_winner r st =
     (let c = rd_coords r in
      st\<lparr>ws_order := (if im_get (ws_winners st) c = None then ws_order st @ [c] else ws_order st),
         ws_winners := im_insert c r (ws_winners st)\<rparr>)"

definition child_items :: "work_item \<Rightarrow> coords \<Rightarrow> scope \<Rightarrow> raw_dependency list \<Rightarrow> work_item list" where
  "child_items item c sc deps =
     map (\<lambda>child. \<lparr>wi_dep = child, wi_depth = sat_succ32 (wi_depth item),
            wi_parent_path = wi_parent_path item @ [c], wi_parent_scope = sc,
            wi_exclusions = wi_exclusions item @ dep_exclusions (wi_dep item), wi_is_direct = False\<rparr>)
       (filter (\<lambda>child. scope_parse (dep_scope child) \<noteq> Import) deps)"

text \<open>Steps 5 to 7 of \<open>process_item\<close>: the item becomes the winner of its coordinates and its
  children are enqueued.\<close>

definition expand_item ::
    "walk_world \<Rightarrow> walk_options \<Rightarrow> work_item \<Rightarrow> coords \<Rightarrow> scope \<Rightarrow> string \<Rightarrow> string \<Rightarrow> walk_state \<Rightarrow>
     (walk_state, walk_error) result" where
  "expand_item w opts item c effective_scope resolved_version fetch_version st =
     (let path_exclusions = exclusions_from_raw (wi_exclusions item);
          st1 = record_winner (dep_record item c resolved_version effective_scope) st in
      if effective_scope = System
      then Inr (st1\<lparr>ws_skipper := record_visit c path_exclusions True (ws_skipper st1)\<rparr>)
      else
        rbind (fetch_child w opts c fetch_version (ws_session st1)) (\<lambda>(resolved_child, ses).
        let children = child_items item c effective_scope (pom_dependencies (rp_pom resolved_child)) in
        Inr (st1\<lparr>ws_session := ses, ws_queue := ws_queue st1 @ children,
                 ws_skipper := record_visit c path_exclusions (children = []) (ws_skipper st1)\<rparr>)))"

text \<open>The nearest-wins check.\<close>

definition contest ::
    "walk_world \<Rightarrow> walk_options \<Rightarrow> work_item \<Rightarrow> coords \<Rightarrow> scope \<Rightarrow> string \<Rightarrow> string \<Rightarrow> walk_state \<Rightarrow>
     (walk_state, walk_error) result" where
  "contest w opts item c effective_scope resolved_version fetch_version st =
     (let depth = wi_depth item in
      case im_get (ws_winners st) c of
        Some existing \<Rightarrow>
          if rd_depth existing \<le> depth then Inr (push_loser c resolved_version depth st)
          else expand_item w opts item c effective_scope resolved_version fetch_version
                 (push_loser c (rd_version existing) (rd_depth existing) st)
      | None \<Rightarrow> expand_item w opts item c effective_scope resolved_version fetch_version st)"

text \<open>Version resolution.\<close>

definition resolve_item ::
    "walk_world \<Rightarrow> walk_options \<Rightarrow> work_item \<Rightarrow> coords \<Rightarrow> scope \<Rightarrow> walk_state \<Rightarrow> (walk_state, walk_error) result" where
  "resolve_item w opts item c effective_scope st =
     (let dep = wi_dep item in
      rbind (declared_version c dep) (\<lambda>raw_version.
      rbind (map_err (InvalidSpec (coords_display c) raw_version) (spec_parse raw_version)) (\<lambda>spec.
      rbind (resolve_spec w opts spec c (ws_session st)) (\<lambda>(resolved_version, warns, ses).
      rbind (resolve_snapshot_fetch_version w resolved_version c dep) (\<lambda>fetch_version.
      contest w opts item c effective_scope resolved_version fetch_version
        (st\<lparr>ws_warnings := ws_warnings st @ warns, ws_session := ses\<rparr>))))))"

definition process_item ::
    "walk_world \<Rightarrow> walk_options \<Rightarrow> walk_state \<Rightarrow> work_item \<Rightarrow> (walk_state, walk_error) result" where
  "process_item w opts st item =
     (let dep = wi_dep item in
      rbind (map_err (InvalidCoords (dep_group_id dep) (dep_artifact_id dep))
               (coords_new (dep_group_id dep) (dep_artifact_id dep))) (\<lambda>c.
      if matches_any_exclusion c (wi_exclusions item) then Inr st
      else
        let path_exclusions = exclusions_from_raw (wi_exclusions item);
            (decision, sk) = decide (ws_skipper st) c (wi_depth item) path_exclusions (ws_winners st);
            st1 = st\<lparr>ws_skipper := sk\<rparr> in
        case decision of
          Skip _ \<Rightarrow>
            if im_get (ws_winners st1) c \<noteq> None
            then Inr (push_loser c (skipped_version dep) (wi_depth item) st1) else Inr st1
        | Walk \<Rightarrow>
            (case item_scope item of
               None \<Rightarrow> Inr st1
             | Some effective_scope \<Rightarrow>
                 if parse_bool (dep_optional dep) \<and> \<not> wi_is_direct item \<and> wo_strip_optional opts then Inr st1
                 else resolve_item w opts item c effective_scope st1)))"

definition direct_items :: "raw_dependency list \<Rightarrow> work_item list" where
  "direct_items deps =
     map (\<lambda>d. \<lparr>wi_dep = d, wi_depth = 1, wi_parent_path = [], wi_parent_scope = Compile,
            wi_exclusions = [], wi_is_direct = True\<rparr>)
       (filter (\<lambda>d. scope_parse (dep_scope d) \<noteq> Import) deps)"

definition walk_init :: "walk_options \<Rightarrow> raw_pom \<Rightarrow> walk_state" where
  "walk_init opts root =
     \<lparr>ws_queue = direct_items (pom_dependencies root), ws_winners = [], ws_order = [], ws_losers = [],
      ws_warnings = [], ws_skipper = (if wo_enable_skipper opts then skipper_new else skipper_disabled),
      ws_session = wo_oreq opts\<rparr>"

fun walk_loop ::
    "walk_world \<Rightarrow> walk_options \<Rightarrow> nat \<Rightarrow> walk_state \<Rightarrow> (walk_state, walk_error) result option" where
  "walk_loop w opts n st =
     (case ws_queue st of
        [] \<Rightarrow> Some (Inr st)
      | item # rest \<Rightarrow>
          (case n of
             0 \<Rightarrow> None
           | Suc m \<Rightarrow>
               (case process_item w opts (st\<lparr>ws_queue := rest\<rparr>) item of
                  Inl e \<Rightarrow> Some (Inl e)
                | Inr st' \<Rightarrow> walk_loop w opts m st')))"

declare walk_loop.simps [simp del]

definition walk_finish :: "walk_state \<Rightarrow> resolved_graph" where
  "walk_finish st =
     (let winners_btree = sort_key fst (ws_winners st) in
      \<lparr>rg_resolved = List.map_filter (im_get (ws_winners st)) (ws_order st),
       rg_winners = winners_btree,
       rg_warnings = ws_warnings st,
       rg_audit = sort_key ae_coords
         (map (\<lambda>(_, r). \<lparr>ae_coords = rd_coords r, ae_winning_version = rd_version r,
            ae_winning_depth = rd_depth r,
            ae_also_seen_at = unwrap_or (im_get (ws_losers st) (rd_coords r)) []\<rparr>) winners_btree),
       rg_skipper_stats = sk_stats (ws_skipper st),
       rg_oreq_stats = (case ws_session st of None \<Rightarrow> zero_stats | Some s \<Rightarrow> os_counters s)\<rparr>)"

definition walk ::
    "walk_world \<Rightarrow> walk_options \<Rightarrow> nat \<Rightarrow> raw_pom \<Rightarrow> (resolved_graph, walk_error) result option" where
  "walk w opts n root =
     map_option (\<lambda>r. rbind r (\<lambda>st. Inr (walk_finish st))) (walk_loop w opts n (walk_init opts root))"

end
