(* ===== verification/SessionProps.thy ===== *)
theory SessionProps
  imports Walker
begin

text \<open>
  The request-avoidance session does not change what the walker computes. A session is
  consistent with a metadata source when every cached value is the one the source would give.
  Every fetch keeps it consistent and gives the answer of the fetch without a session.
\<close>

section \<open>Consistent sessions\<close>

fun sess_ok :: "walk_world \<Rightarrow> walk_options \<Rightarrow> oreq_session option \<Rightarrow> bool" where
  "sess_ok w opts None = True"
| "sess_ok w opts (Some s) =
     (md_memo.agrees (\<lambda>(rid, c) md. rid = wo_repo_id opts \<longrightarrow> map_sum id fst (fetch_metadata (ww_source w) c) = Inr md) s \<and>
      raw_memo.agrees (\<lambda>(c, v) p. map_sum id fst (fetch_pom (ww_source w) c v) = Inr p) s \<and>
      eff_memo.agrees (\<lambda>(c, v) r. fetch_child w opts c v None = Inr (r, None)) s)"

definition sess_rel :: "walk_world \<Rightarrow> walk_options \<Rightarrow> oreq_session option \<Rightarrow> oreq_session option \<Rightarrow> bool" where
  "sess_rel w opts a b \<longleftrightarrow> sess_ok w opts a \<and> sess_ok w opts b \<and> session_pin a = session_pin b"

text \<open>\<open>x\<close> is the outcome with a session, \<open>y\<close> the outcome without.\<close>

definition tracks ::
    "walk_world \<Rightarrow> walk_options \<Rightarrow> (coords \<Rightarrow> string option) \<Rightarrow>
     ('a \<times> oreq_session option, 'e) result \<Rightarrow> ('a \<times> oreq_session option, 'e) result \<Rightarrow> bool" where
  "tracks w opts pins x y \<longleftrightarrow>
     rel_sum (=) (\<lambda>(v, s) (v', s'). v = v' \<and> s' = None \<and> sess_ok w opts s \<and> session_pin s = pins) x y"

lemma rel_sum_rbind:
  assumes "rel_sum (=) R x y" "\<And>a b. R a b \<Longrightarrow> rel_sum (=) S (f a) (g b)"
  shows "rel_sum (=) S (rbind x f) (rbind y g)"
  using assms by (cases x; cases y) auto

lemma rel_sum_map_err:
  "rel_sum (=) R x y \<Longrightarrow> rel_sum (=) R (map_err f x) (map_err f y)"
  by (cases x; cases y) auto

lemma tracks_rbind:
  assumes "tracks w opts pins x y"
    "\<And>v s. sess_ok w opts s \<Longrightarrow> tracks w opts (session_pin s) (f (v, s)) (g (v, None))"
  shows "tracks w opts pins (rbind x f) (rbind y g)"
  using assms unfolding tracks_def by (auto elim!: rel_sum_rbind)

lemma tracks_map_err: "tracks w opts pins x y \<Longrightarrow> tracks w opts pins (map_err f x) (map_err f y)"
  by (simp add: tracks_def rel_sum_map_err)

lemma tracks_simps [simp]:
  "tracks w opts pins (Inl e) (Inl e') \<longleftrightarrow> e = e'"
  "tracks w opts pins (Inr (v, s)) (Inr (v', s')) \<longleftrightarrow>
     v = v' \<and> s' = None \<and> sess_ok w opts s \<and> session_pin s = pins"
  by (simp_all add: tracks_def)

lemma sess_ok_frame [simp]:
  "sess_ok w opts (Some (snd (lookup_metadata k s))) = sess_ok w opts (Some s)"
  "sess_ok w opts (Some (snd (lookup_parent_pom c v s))) = sess_ok w opts (Some s)"
  "sess_ok w opts (Some (snd (lookup_effective_pom c v s))) = sess_ok w opts (Some s)"
  "sess_ok w opts (Some (record_frozen_skip s)) = sess_ok w opts (Some s)"
  using md_memo.lookup_frame [of k s] raw_memo.lookup_frame [of "(c, v)" s] eff_memo.lookup_frame [of "(c, v)" s]
  by (simp_all add: md_memo.agrees_def raw_memo.agrees_def eff_memo.agrees_def fun_eq_iff)

lemma session_pin_frame [simp]:
  "session_pin (Some (snd (lookup_metadata k s))) = session_pin (Some s)"
  "session_pin (Some (snd (lookup_parent_pom c v s))) = session_pin (Some s)"
  "session_pin (Some (snd (lookup_effective_pom c v s))) = session_pin (Some s)"
  "session_pin (Some (record_frozen_skip s)) = session_pin (Some s)"
  "session_pin (Some (deposit_metadata k md origin s)) = session_pin (Some s)"
  "session_pin (Some (deposit_parent_pom c v p s)) = session_pin (Some s)"
  "session_pin (Some (deposit_effective_pom c v r s)) = session_pin (Some s)"
  by (simp_all add: session_pin_def frozen_pin_def fun_eq_iff)

lemma sess_ok_deposit:
  assumes "sess_ok w opts (Some s)"
  shows "map_sum id fst (fetch_metadata (ww_source w) c) = Inr md \<Longrightarrow>
      sess_ok w opts (Some (deposit_metadata (wo_repo_id opts, c) md origin s))"
    "map_sum id fst (fetch_pom (ww_source w) c v) = Inr p \<Longrightarrow> sess_ok w opts (Some (deposit_parent_pom c v p s))"
    "fetch_child w opts c v None = Inr (r, None) \<Longrightarrow> sess_ok w opts (Some (deposit_effective_pom c v r s))"
  using assms md_memo.deposit_get [of _ _ origin s] raw_memo.deposit_get [of "(c, v)" _ s]
    eff_memo.deposit_get [of "(c, v)" _ s]
  by (simp_all add: md_memo.agrees_def raw_memo.agrees_def eff_memo.agrees_def)

declare sess_ok.simps(2) [simp del]

section \<open>Fetches\<close>

lemma fetch_metadata_tracks:
  assumes "sess_ok w opts ses"
  shows "tracks w opts (session_pin ses) (fetch_metadata_via_session w opts c ses)
    (fetch_metadata_via_session w opts c None)"
proof (cases ses)
  case None
  then show ?thesis
    by (cases "fetch_metadata (ww_source w) c") (auto simp: fetch_metadata_via_session_def)
next
  case (Some s)
  let ?k = "(wo_repo_id opts, c)"
  obtain hit s' where l: "lookup_metadata ?k s = (hit, s')" by fastforce
  then have s': "s' = snd (lookup_metadata ?k s)" and hit: "hit = im_get (os_metadata_cache s) ?k"
    using md_memo.lookup_hit [of ?k s] by simp_all
  have ok: "sess_ok w opts (Some s')" "session_pin (Some s') = session_pin ses"
    using assms Some s' by simp_all
  show ?thesis
  proof (cases hit)
    case None
    with l Some ok show ?thesis
      by (cases "fetch_metadata (ww_source w) c")
        (auto simp: fetch_metadata_via_session_def intro!: sess_ok_deposit(1))
  next
    case (Some md)
    with hit assms \<open>ses = Some s\<close> have "map_sum id fst (fetch_metadata (ww_source w) c) = Inr md"
      by (auto simp: sess_ok.simps md_memo.agrees_def)
    with l Some \<open>ses = Some s\<close> ok show ?thesis
      by (cases "fetch_metadata (ww_source w) c") (auto simp: fetch_metadata_via_session_def)
  qed
qed

lemma fetch_pom_tracks:
  assumes "sess_ok w opts ses"
  shows "tracks w opts (session_pin ses) (fetch_pom_via_session w c v ses) (fetch_pom_via_session w c v None)"
proof (cases ses)
  case None
  then show ?thesis
    by (cases "fetch_pom (ww_source w) c v") (auto simp: fetch_pom_via_session_def)
next
  case (Some s)
  obtain hit s' where l: "lookup_parent_pom c v s = (hit, s')" by fastforce
  then have s': "s' = snd (lookup_parent_pom c v s)" and hit: "hit = im_get (os_raw_pom_cache s) (c, v)"
    using raw_memo.lookup_hit [of "(c, v)" s] by simp_all
  have ok: "sess_ok w opts (Some s')" "session_pin (Some s') = session_pin ses"
    using assms Some s' by simp_all
  show ?thesis
  proof (cases hit)
    case None
    with l Some ok show ?thesis
      by (cases "fetch_pom (ww_source w) c v")
        (auto simp: fetch_pom_via_session_def intro!: sess_ok_deposit(2))
  next
    case (Some p)
    with hit assms \<open>ses = Some s\<close> have "map_sum id fst (fetch_pom (ww_source w) c v) = Inr p"
      by (auto simp: sess_ok.simps raw_memo.agrees_def)
    with l Some \<open>ses = Some s\<close> ok show ?thesis
      by (cases "fetch_pom (ww_source w) c v") (auto simp: fetch_pom_via_session_def)
  qed
qed

lemma tracks_pure: "tracks w opts pins (rbind x f) (rbind x g)"
  if "\<And>v. x = Inr v \<Longrightarrow> tracks w opts pins (f v) (g v)"
  using that by (cases x) auto

lemma prefetch_loop_tracks:
  "sess_ok w opts ses \<Longrightarrow>
   tracks w opts (session_pin ses) (prefetch_loop w n p chain ses) (prefetch_loop w n p chain None)"
proof (induction n arbitrary: p chain ses)
  case 0
  then show ?case by (cases p) simp_all
next
  case (Suc n)
  then show ?case
    by (cases p) (auto simp: Let_def intro!: tracks_pure tracks_rbind [OF tracks_map_err [OF fetch_pom_tracks]])
qed

lemma prefetch_tracks:
  "sess_ok w opts ses \<Longrightarrow>
   tracks w opts (session_pin ses) (prefetch_parent_chain w raw ses) (prefetch_parent_chain w raw None)"
  by (simp add: prefetch_parent_chain_def prefetch_loop_tracks)

lemma resolve_rounds_tracks:
  "sess_ok w opts ses \<Longrightarrow>
   tracks w opts (session_pin ses) (resolve_rounds w opts c v raw n chain ses) (resolve_rounds w opts c v raw n chain None)"
proof (induction n arbitrary: chain ses)
  case (Suc n)
  have step: "tracks w opts (session_pin ses)
      (rbind (map_err f (fetch_pom_via_session w mc mv ses)) (\<lambda>(missing_pom, ses1).
       rbind (prefetch_parent_chain w missing_pom ses1) (\<lambda>(extra, ses2).
         resolve_rounds w opts c v raw n (h missing_pom extra) ses2)))
      (rbind (map_err f (fetch_pom_via_session w mc mv None)) (\<lambda>(missing_pom, ses1).
       rbind (prefetch_parent_chain w missing_pom ses1) (\<lambda>(extra, ses2).
         resolve_rounds w opts c v raw n (h missing_pom extra) ses2)))" for f mc mv h
  proof (rule tracks_rbind [OF tracks_map_err [OF fetch_pom_tracks]])
    fix pom ses1 assume "sess_ok w opts ses1"
    then show "tracks w opts (session_pin ses1)
       (case (pom, ses1) of (missing_pom, ses1) \<Rightarrow> rbind (prefetch_parent_chain w missing_pom ses1) (\<lambda>(extra, ses2).
         resolve_rounds w opts c v raw n (h missing_pom extra) ses2))
       (case (pom, None) of (missing_pom, ses1) \<Rightarrow> rbind (prefetch_parent_chain w missing_pom ses1) (\<lambda>(extra, ses2).
         resolve_rounds w opts c v raw n (h missing_pom extra) ses2))"
      by (auto intro!: tracks_rbind [OF prefetch_tracks] Suc.IH)
  qed (rule Suc.prems)
  from Suc.prems show ?case
    by (auto split: sum.splits option.splits prod.splits intro!: tracks_pure step)
qed simp

lemma resolve_child_tracks:
  "sess_ok w opts ses \<Longrightarrow>
   tracks w opts (session_pin ses) (resolve_child_pom w opts c v raw ses) (resolve_child_pom w opts c v raw None)"
  unfolding resolve_child_pom_def
  by (rule tracks_rbind [OF prefetch_tracks]) (auto intro: resolve_rounds_tracks)

lemma fetch_child_None:
  "fetch_child w opts c v None =
     rbind (map_err WMetadata (fetch_pom_via_session w c v None)) (\<lambda>(raw, ses). resolve_child_pom w opts c v raw ses)"
  by (cases "fetch_pom (ww_source w) c v") (auto simp: fetch_child_def fetch_pom_via_session_def)

lemma deposit_child:
  assumes "fetch_child w opts c v None = Inr (r, None)" "sess_ok w opts b"
  shows "sess_ok w opts (map_option (deposit_effective_pom c v r) b)"
    "session_pin (map_option (deposit_effective_pom c v r) b) = session_pin b"
  using assms by (cases b; simp add: sess_ok_deposit(3))+

lemma fetch_child_tracks:
  assumes "sess_ok w opts ses"
  shows "tracks w opts (session_pin ses) (fetch_child w opts c v ses) (fetch_child w opts c v None)"
proof (cases ses)
  case None
  have "tracks w opts (session_pin None) (resolve_child_pom w opts c v raw None) (resolve_child_pom w opts c v raw None)" for raw
    by (rule resolve_child_tracks) simp
  with None show ?thesis
    by (cases "fetch_pom (ww_source w) c v") (auto simp: fetch_child_None fetch_pom_via_session_def)
next
  case (Some s)
  obtain hit s' where l: "lookup_effective_pom c v s = (hit, s')" by fastforce
  then have s': "s' = snd (lookup_effective_pom c v s)" and hit: "hit = im_get (os_resolved_pom_cache s) (c, v)"
    using eff_memo.lookup_hit [of "(c, v)" s] by simp_all
  have ok: "sess_ok w opts (Some s')" "session_pin (Some s') = session_pin ses"
    using assms Some s' by simp_all
  show ?thesis
  proof (cases hit)
    case None
    have miss: "fetch_child w opts c v ses =
        rbind (rbind (map_err WMetadata (fetch_pom_via_session w c v (Some s'))) (\<lambda>(raw, ses).
            resolve_child_pom w opts c v raw ses)) (\<lambda>(r, ses2). Inr (r, map_option (deposit_effective_pom c v r) ses2))"
      using l None Some by (auto simp: fetch_child_def rbind_def split: sum.splits)
    have "tracks w opts (session_pin (Some s')) (rbind (map_err WMetadata (fetch_pom_via_session w c v (Some s'))) (\<lambda>(raw, ses).
            resolve_child_pom w opts c v raw ses)) (fetch_child w opts c v None)"
      unfolding fetch_child_None
      by (auto intro!: tracks_rbind [OF tracks_map_err [OF fetch_pom_tracks]] resolve_child_tracks ok)
    then show ?thesis
      unfolding miss ok(2) tracks_def
      by (auto simp: rel_sum.simps deposit_child)
  next
    case (Some r)
    with hit assms \<open>ses = Some s\<close> have "fetch_child w opts c v None = Inr (r, None)"
      by (auto simp: sess_ok.simps eff_memo.agrees_def)
    with l Some \<open>ses = Some s\<close> ok show ?thesis by (simp add: fetch_child_def)
  qed
qed

lemma tracks_rel:
  assumes "tracks w opts pins x z" "tracks w opts pins y z"
  shows "rel_sum (=) (rel_prod (=) (sess_rel w opts)) x y"
  using assms unfolding tracks_def by (cases x; cases y; cases z) (auto simp: sess_rel_def)

lemma fetch_rel:
  assumes "sess_rel w opts a b"
  shows "rel_sum (=) (rel_prod (=) (sess_rel w opts)) (fetch_metadata_via_session w opts c a) (fetch_metadata_via_session w opts c b)"
    "rel_sum (=) (rel_prod (=) (sess_rel w opts)) (fetch_child w opts c v a) (fetch_child w opts c v b)"
proof -
  have ok: "sess_ok w opts a" "sess_ok w opts b" "session_pin b = session_pin a"
    using assms by (simp_all add: sess_rel_def)
  show "rel_sum (=) (rel_prod (=) (sess_rel w opts)) (fetch_metadata_via_session w opts c a) (fetch_metadata_via_session w opts c b)"
    using fetch_metadata_tracks [OF ok(1)] fetch_metadata_tracks [OF ok(2)] unfolding ok(3) by (rule tracks_rel)
  show "rel_sum (=) (rel_prod (=) (sess_rel w opts)) (fetch_child w opts c v a) (fetch_child w opts c v b)"
    using fetch_child_tracks [OF ok(1)] fetch_child_tracks [OF ok(2)] unfolding ok(3) by (rule tracks_rel)
qed

lemma frozen_skip_rel: "sess_rel w opts a b \<Longrightarrow> sess_rel w opts (map_option record_frozen_skip a) (map_option record_frozen_skip b)"
proof -
  have "sess_ok w opts (map_option record_frozen_skip a) = sess_ok w opts a"
    "session_pin (map_option record_frozen_skip a) = session_pin a" for a
    by (cases a; simp)+
  then show "sess_rel w opts a b \<Longrightarrow> ?thesis" by (simp add: sess_rel_def)
qed

lemma resolve_spec_rel:
  assumes "sess_rel w opts a b"
  shows "rel_sum (=) (rel_prod (=) (rel_prod (=) (sess_rel w opts))) (resolve_spec w opts spec c a) (resolve_spec w opts spec c b)"
proof -
  have pin: "session_pin b = session_pin a" using assms by (simp add: sess_rel_def)
  note skip = frozen_skip_rel [OF assms] and fetch = rel_sum_rbind [OF fetch_rel(1) [OF assms]]
  show ?thesis
    by (cases spec) (auto simp: pin assms skip Let_def split: option.splits intro!: fetch)
qed

section \<open>The walk with and without a session\<close>

definition st_rel :: "walk_world \<Rightarrow> walk_options \<Rightarrow> walk_state \<Rightarrow> walk_state \<Rightarrow> bool" where
  "st_rel w opts a b \<longleftrightarrow> ws_queue a = ws_queue b \<and> ws_winners a = ws_winners b \<and> ws_order a = ws_order b \<and>
     ws_losers a = ws_losers b \<and> ws_warnings a = ws_warnings b \<and> ws_skipper a = ws_skipper b \<and>
     sess_rel w opts (ws_session a) (ws_session b)"

lemma rel_sum_pure: "(\<And>v. x = Inr v \<Longrightarrow> rel_sum (=) S (f v) (g v)) \<Longrightarrow> rel_sum (=) S (rbind x f) (rbind x g)"
  by (cases x) auto

lemma st_rel_steps:
  assumes "st_rel w opts a b"
  shows "st_rel w opts (record_winner r a) (record_winner r b)"
    "st_rel w opts (push_loser c v d a) (push_loser c v d b)"
    "st_rel w opts (a\<lparr>ws_skipper := sk\<rparr>) (b\<lparr>ws_skipper := sk\<rparr>)"
    "st_rel w opts (a\<lparr>ws_queue := q\<rparr>) (b\<lparr>ws_queue := q\<rparr>)"
    "sess_rel w opts s1 s2 \<Longrightarrow> st_rel w opts (a\<lparr>ws_warnings := wn, ws_session := s1\<rparr>) (b\<lparr>ws_warnings := wn, ws_session := s2\<rparr>)"
  using assms by (auto simp: st_rel_def record_winner_def push_loser_def Let_def)

lemma expand_item_rel:
  assumes "st_rel w opts a b"
  shows "rel_sum (=) (st_rel w opts) (expand_item w opts item c sc rv fv a) (expand_item w opts item c sc rv fv b)"
proof -
  let ?r = "record_winner (dep_record item c rv sc)"
  have r: "st_rel w opts (?r a) (?r b)" using assms by (rule st_rel_steps)
  then have "sess_rel w opts (ws_session (?r a)) (ws_session (?r b))" by (simp add: st_rel_def)
  from fetch_rel(2) [OF this] r show ?thesis
    by (auto simp: expand_item_def Let_def intro!: rel_sum_rbind) (auto simp: st_rel_def)
qed

lemma resolve_item_rel:
  assumes "st_rel w opts a b"
  shows "rel_sum (=) (st_rel w opts) (resolve_item w opts item c sc a) (resolve_item w opts item c sc b)"
proof -
  have s: "sess_rel w opts (ws_session a) (ws_session b)" and eq: "ws_winners a = ws_winners b" "ws_warnings a = ws_warnings b"
    using assms by (simp_all add: st_rel_def)
  show ?thesis
    using st_rel_steps(5) [OF assms]
    by (auto simp: resolve_item_def contest_def Let_def eq split: option.splits
        intro!: rel_sum_pure rel_sum_rbind [OF resolve_spec_rel [OF s]] expand_item_rel st_rel_steps(2))
qed

lemma process_item_rel:
  assumes "st_rel w opts a b"
  shows "rel_sum (=) (st_rel w opts) (process_item w opts a item) (process_item w opts b item)"
proof -
  have "ws_winners a = ws_winners b" "ws_skipper a = ws_skipper b"
    using assms by (simp_all add: st_rel_def)
  then show ?thesis
    using assms
    by (auto simp: process_item_def Let_def split: prod.splits option.splits skip_decision.splits
        intro!: rel_sum_pure resolve_item_rel st_rel_steps)
qed

lemma walk_loop_rel:
  "st_rel w opts a b \<Longrightarrow> rel_option (rel_sum (=) (st_rel w opts)) (walk_loop w opts n a) (walk_loop w opts n b)"
proof (induction n arbitrary: a b)
  case 0
  then show ?case
    by (auto simp: walk_loop.simps [of w opts 0] st_rel_def split: list.splits)
next
  case (Suc n)
  have q: "ws_queue b = ws_queue a" using Suc.prems by (auto simp: st_rel_def)
  show ?case
  proof (cases "ws_queue a")
    case Nil
    with q Suc.prems show ?thesis by (simp add: walk_loop.simps [of w opts "Suc n"])
  next
    case (Cons item rest)
    from process_item_rel [OF st_rel_steps(4) [OF Suc.prems], of rest item] Suc.IH Cons q show ?thesis
      by (auto simp: walk_loop.simps [of w opts "Suc n"] rel_sum.simps)
  qed
qed

section \<open>Options that only shape the initial state\<close>

lemma opts_select:
  "wo_repo_id (opts\<lparr>wo_oreq := x\<rparr>) = wo_repo_id opts"
  "wo_repo_id (opts\<lparr>wo_enable_skipper := e\<rparr>) = wo_repo_id opts"
  "wo_strip_optional (opts\<lparr>wo_oreq := x\<rparr>) = wo_strip_optional opts"
  "wo_strip_optional (opts\<lparr>wo_enable_skipper := e\<rparr>) = wo_strip_optional opts"
  "wo_activation (opts\<lparr>wo_oreq := x\<rparr>) = wo_activation opts"
  "wo_activation (opts\<lparr>wo_enable_skipper := e\<rparr>) = wo_activation opts"
  by simp_all

lemma fetch_metadata_opts:
  "fetch_metadata_via_session w (opts\<lparr>wo_oreq := x\<rparr>) = fetch_metadata_via_session w opts"
  "fetch_metadata_via_session w (opts\<lparr>wo_enable_skipper := e\<rparr>) = fetch_metadata_via_session w opts"
  unfolding fetch_metadata_via_session_def opts_select by simp_all

lemma resolve_spec_opts:
  "resolve_spec w (opts\<lparr>wo_oreq := x\<rparr>) = resolve_spec w opts"
  "resolve_spec w (opts\<lparr>wo_enable_skipper := e\<rparr>) = resolve_spec w opts"
proof -
  have "resolve_spec w (opts\<lparr>wo_oreq := x\<rparr>) spec c ses = resolve_spec w opts spec c ses"
    "resolve_spec w (opts\<lparr>wo_enable_skipper := e\<rparr>) spec c ses = resolve_spec w opts spec c ses" for spec c ses
    unfolding resolve_spec.simps by (cases spec; simp only: resolve_spec.simps fetch_metadata_opts)+
  then show "resolve_spec w (opts\<lparr>wo_oreq := x\<rparr>) = resolve_spec w opts"
    "resolve_spec w (opts\<lparr>wo_enable_skipper := e\<rparr>) = resolve_spec w opts" by blast+
qed

lemma resolve_rounds_opts:
  "resolve_rounds w (opts\<lparr>wo_oreq := x\<rparr>) c v raw n = resolve_rounds w opts c v raw n"
  "resolve_rounds w (opts\<lparr>wo_enable_skipper := e\<rparr>) c v raw n = resolve_rounds w opts c v raw n"
proof -
  have "resolve_rounds w (opts\<lparr>wo_oreq := x\<rparr>) c v raw n = resolve_rounds w opts c v raw n \<and>
    resolve_rounds w (opts\<lparr>wo_enable_skipper := e\<rparr>) c v raw n = resolve_rounds w opts c v raw n"
  proof (induction n)
    case (Suc n)
    have "resolve_rounds w (opts\<lparr>wo_oreq := x\<rparr>) c v raw (Suc n) chain ses = resolve_rounds w opts c v raw (Suc n) chain ses"
      "resolve_rounds w (opts\<lparr>wo_enable_skipper := e\<rparr>) c v raw (Suc n) chain ses = resolve_rounds w opts c v raw (Suc n) chain ses"
      for chain ses
      unfolding resolve_rounds.simps opts_select conjunct1 [OF Suc] conjunct2 [OF Suc] by simp_all
    then show ?case by blast
  qed (simp add: fun_eq_iff)
  then show "resolve_rounds w (opts\<lparr>wo_oreq := x\<rparr>) c v raw n = resolve_rounds w opts c v raw n"
    "resolve_rounds w (opts\<lparr>wo_enable_skipper := e\<rparr>) c v raw n = resolve_rounds w opts c v raw n" by blast+
qed

lemma fetch_child_opts:
  "fetch_child w (opts\<lparr>wo_oreq := x\<rparr>) = fetch_child w opts"
  "fetch_child w (opts\<lparr>wo_enable_skipper := e\<rparr>) = fetch_child w opts"
  unfolding fetch_child_def resolve_child_pom_def resolve_rounds_opts by simp_all

lemma process_item_opts:
  "process_item w (opts\<lparr>wo_oreq := x\<rparr>) = process_item w opts"
  "process_item w (opts\<lparr>wo_enable_skipper := e\<rparr>) = process_item w opts"
  unfolding process_item_def resolve_item_def contest_def expand_item_def resolve_spec_opts fetch_child_opts opts_select by simp_all

lemma walk_loop_opts:
  "walk_loop w (opts\<lparr>wo_oreq := x\<rparr>) n st = walk_loop w opts n st"
  "walk_loop w (opts\<lparr>wo_enable_skipper := e\<rparr>) n st = walk_loop w opts n st"
proof (induction n arbitrary: st)
  case 0
  { case 1 show ?case unfolding walk_loop.simps [of w _ 0] nat.case .. }
  { case 2 show ?case unfolding walk_loop.simps [of w _ 0] nat.case .. }
next
  case (Suc n)
  { case 1 show ?case unfolding walk_loop.simps [of w _ "Suc n"] nat.case process_item_opts Suc.IH .. }
  { case 2 show ?case unfolding walk_loop.simps [of w _ "Suc n"] nat.case process_item_opts Suc.IH .. }
qed

lemma sess_ok_new: "sess_ok w opts (Some session_new)"
  by (simp add: sess_ok.simps session_new_def md_memo.agrees_def raw_memo.agrees_def eff_memo.agrees_def)

text \<open>The graph without the request counters.\<close>

definition graph_of :: "resolved_graph \<Rightarrow> resolved_graph" where
  "graph_of g = g\<lparr>rg_oreq_stats := zero_stats\<rparr>"

text \<open>C5. The request-avoidance session is transparent: with any session whose caches agree with
  the metadata source and that has no pins (a new one, or one used for earlier walks), the walk
  ends in the same way, with the same error or with the same graph, warnings and audit trail,
  as the walk without a session. Only the request counters differ.\<close>

theorem session_transparent:
  assumes "sess_ok w opts (Some s)" "os_frozen_pins s = None"
  shows "map_option (map_sum id graph_of) (walk w (opts\<lparr>wo_oreq := Some s\<rparr>) n root) =
    map_option (map_sum id graph_of) (walk w (opts\<lparr>wo_oreq := None\<rparr>) n root)"
proof -
  let ?a = "walk_init (opts\<lparr>wo_oreq := Some s\<rparr>) root" and ?b = "walk_init (opts\<lparr>wo_oreq := None\<rparr>) root"
  have "st_rel w opts ?a ?b"
    using assms by (simp add: st_rel_def walk_init_def sess_rel_def session_pin_def frozen_pin_def fun_eq_iff)
  moreover have "graph_of (walk_finish a) = graph_of (walk_finish b)" if "st_rel w opts a b" for a b
    using that by (simp add: st_rel_def walk_finish_def graph_of_def Let_def)
  ultimately show ?thesis
    using walk_loop_rel [of w opts ?a ?b n]
    by (auto simp: walk_def walk_loop_opts rel_sum.simps elim!: option.rel_cases)
qed

section \<open>A sample repository\<close>

text \<open>\<open>g:a:1\<close> is a leaf, \<open>g:b:1\<close> depends on \<open>g:a\<close>; the root depends on both.\<close>

definition sample_dep :: "string \<Rightarrow> string \<Rightarrow> string \<Rightarrow> raw_dependency" where
  "sample_dep g a v = default_dependency\<lparr>dep_group_id := g, dep_artifact_id := a, dep_version := Some v\<rparr>"

definition sample_world :: "string \<Rightarrow> walk_world" where
  "sample_world v =
     \<lparr>ww_source = fixture_as_source (add_pom (Coords ''g'' ''a'') ''1'' default_pom
        (add_pom (Coords ''g'' ''b'') ''1'' (default_pom\<lparr>pom_dependencies := [sample_dep ''g'' ''a'' v]\<rparr>) fixture_new)),
      ww_env = (\<lambda>_. None), ww_fs_exists = (\<lambda>_ _. False)\<rparr>"

definition sample_root :: raw_pom where
  "sample_root = default_pom\<lparr>pom_dependencies := [sample_dep ''g'' ''a'' ''1'', sample_dep ''g'' ''b'' ''1'']\<rparr>"

theorem session_transparent_witness:
  "map_option (map_sum id graph_of) (walk (sample_world ''2'') (default_options\<lparr>wo_oreq := Some session_new\<rparr>) 5 sample_root) =
   map_option (map_sum id graph_of) (walk (sample_world ''2'') (default_options\<lparr>wo_oreq := None\<rparr>) 5 sample_root)"
proof (rule session_transparent)
  show "sess_ok (sample_world ''2'') default_options (Some session_new)" by (rule sess_ok_new)
  show "os_frozen_pins session_new = None" by (simp add: session_new_def)
qed

end
