(* ===== verification/NearestWins.thy ===== *)
theory NearestWins
  imports SessionProps
begin

text \<open>
  The abstract machine the walker implements: breadth-first, nearest-wins conflict resolution
  on a queue of items and the map of winners. It has no skipper, no session, no audit trail and
  no replacement of a winner; its versions and child POMs are those the source gives. The
  invariants of its runs are proved here. That the walker refines it is proved in
  \<open>WalkerProps\<close>.
\<close>

section \<open>The machine\<close>

definition item_coords :: "work_item \<Rightarrow> (coords, coord_error) result" where
  "item_coords item = coords_new (dep_group_id (wi_dep item)) (dep_artifact_id (wi_dep item))"

text \<open>Excluded on its path, of a scope that is not inherited, or an optional transitive.\<close>

definition dropped :: "walk_options \<Rightarrow> work_item \<Rightarrow> coords \<Rightarrow> bool" where
  "dropped opts item c \<longleftrightarrow> matches_any_exclusion c (wi_exclusions item) \<or> item_scope item = None \<or>
     (parse_bool (dep_optional (wi_dep item)) \<and> \<not> wi_is_direct item \<and> wo_strip_optional opts)"

text \<open>The resolved version of an item and the version its POM is fetched at.\<close>

definition chosen_version :: "walk_world \<Rightarrow> walk_options \<Rightarrow> work_item \<Rightarrow> coords \<Rightarrow> (string \<times> string, walk_error) result" where
  "chosen_version w opts item c =
     rbind (declared_version c (wi_dep item)) (\<lambda>raw.
     rbind (map_err (InvalidSpec (coords_display c) raw) (spec_parse raw)) (\<lambda>spec.
     rbind (resolve_spec w opts spec c (wo_oreq opts)) (\<lambda>(rv, _, _).
     rbind (resolve_snapshot_fetch_version w rv c (wi_dep item)) (\<lambda>fv. Inr (rv, fv)))))"

definition child_deps :: "walk_world \<Rightarrow> walk_options \<Rightarrow> coords \<Rightarrow> string \<Rightarrow> scope \<Rightarrow> (raw_dependency list, walk_error) result" where
  "child_deps w opts c fv sc =
     (if sc = System then Inr []
      else rbind (fetch_child w opts c fv None) (\<lambda>(r, _). Inr (pom_dependencies (rp_pom r))))"

type_synonym nw_state = "work_item list \<times> (coords, resolved_dep) index_map"

inductive nw_step :: "walk_world \<Rightarrow> walk_options \<Rightarrow> nw_state \<Rightarrow> nw_state \<Rightarrow> bool" for w opts where
  nw_drop: "item_coords item = Inr c \<Longrightarrow> dropped opts item c \<Longrightarrow> nw_step w opts (item # q, W) (q, W)"
| nw_lose: "item_coords item = Inr c \<Longrightarrow> im_get W c = Some r \<Longrightarrow> rd_depth r \<le> wi_depth item \<Longrightarrow>
    nw_step w opts (item # q, W) (q, W)"
| nw_win: "item_coords item = Inr c \<Longrightarrow> \<not> dropped opts item c \<Longrightarrow> im_get W c = None \<Longrightarrow>
    item_scope item = Some sc \<Longrightarrow> chosen_version w opts item c = Inr (rv, fv) \<Longrightarrow>
    child_deps w opts c fv sc = Inr deps \<Longrightarrow>
    nw_step w opts (item # q, W) (q @ child_items item c sc deps, im_insert c (dep_record item c rv sc) W)"

inductive_cases nw_stepE: "nw_step w opts (i # q, W) st"

section \<open>Breadth-first order\<close>

text \<open>The queue is sorted by depth, spans at most two levels, and no winner is deeper than its
  head.\<close>

definition bfs_inv :: "nw_state \<Rightarrow> bool" where
  "bfs_inv st \<longleftrightarrow> (case st of (q, W) \<Rightarrow> sorted (map wi_depth q) \<and>
     (\<forall>i \<in> set q. \<forall>j \<in> set q. wi_depth j \<le> sat_succ32 (wi_depth i)) \<and>
     (\<forall>i \<in> set q. \<forall>r \<in> set (map snd W). rd_depth r \<le> wi_depth i) \<and> (\<forall>i \<in> set q. wi_depth i < 2 ^ 32))"

lemma sat_succ32_bounds:
  "d < 2 ^ 32 \<Longrightarrow> d \<le> sat_succ32 d" "sat_succ32 d < 2 ^ 32" "d \<le> e \<Longrightarrow> sat_succ32 d \<le> sat_succ32 e"
  by (auto simp: sat_succ32_def)

lemma child_items_depth: "i \<in> set (child_items item c sc deps) \<Longrightarrow> wi_depth i = sat_succ32 (wi_depth item)"
  by (auto simp: child_items_def)

lemma map_depth_child_items:
  "map wi_depth (child_items item c sc deps) = replicate (length (child_items item c sc deps)) (sat_succ32 (wi_depth item))"
  by (auto simp: child_items_def intro!: replicate_eqI)

lemma set_im_insert_new: "im_get m k = None \<Longrightarrow> im_insert k v m = m @ [(k, v)]"
  by (induction k v m rule: im_insert.induct) (auto simp: im_get_def split: if_splits)

lemma dep_record_sel [simp]:
  "rd_coords (dep_record i c v sc) = c" "rd_version (dep_record i c v sc) = v" "rd_scope (dep_record i c v sc) = sc"
  "rd_depth (dep_record i c v sc) = wi_depth i" "rd_winning_path (dep_record i c v sc) = wi_parent_path i @ [c]"
  by (simp_all add: dep_record_def)

lemma nw_step_bfs:
  assumes "nw_step w opts st st'" "bfs_inv st"
  shows "bfs_inv st'"
  using assms
proof cases
  case (nw_win item c W sc rv fv deps q)
  let ?d = "wi_depth item"
  from assms(2) nw_win(1) have q: "\<forall>i \<in> set q. ?d \<le> wi_depth i \<and> wi_depth i \<le> sat_succ32 ?d"
    "sorted (map wi_depth q)" "?d < 2 ^ 32" "\<forall>i \<in> set q. wi_depth i < 2 ^ 32"
    "\<forall>i \<in> set q. \<forall>j \<in> set q. wi_depth j \<le> sat_succ32 (wi_depth i)"
    and W: "\<forall>r \<in> set (map snd W). rd_depth r \<le> ?d"
    by (auto simp: bfs_inv_def)
  have le: "?d \<le> sat_succ32 ?d" "sat_succ32 ?d < 2 ^ 32"
    using q(3) by (blast intro: sat_succ32_bounds)+
  have mem: "?d \<le> wi_depth i \<and> wi_depth i \<le> sat_succ32 ?d \<and> wi_depth i < 2 ^ 32"
    if "i \<in> set (q @ child_items item c sc deps)" for i
    using that q le child_items_depth by auto
  have span: "wi_depth j \<le> sat_succ32 (wi_depth i)"
    if "i \<in> set (q @ child_items item c sc deps)" "j \<in> set (q @ child_items item c sc deps)" for i j
    using mem [OF that(1)] mem [OF that(2)] sat_succ32_bounds(3) le_trans by blast
  have "sorted (map wi_depth (q @ child_items item c sc deps))"
    using q(1,2) by (auto simp: sorted_append map_depth_child_items)
  moreover have "rd_depth r \<le> wi_depth i"
    if "i \<in> set (q @ child_items item c sc deps)" "r \<in> insert (dep_record item c rv sc) (snd ` set W)" for i r
    using mem [OF that(1)] that(2) W by (fastforce dest: le_trans)
  ultimately show ?thesis
    using mem span unfolding nw_win(2) bfs_inv_def set_im_insert_new [OF nw_win(5)] by auto
qed (auto simp: bfs_inv_def)

lemma bfs_init: "bfs_inv (direct_items deps, [])"
proof -
  have "\<forall>i \<in> set (direct_items deps). wi_depth i = 1" by (auto simp: direct_items_def)
  then show ?thesis by (auto simp: bfs_inv_def sat_succ32_def sorted_iff_nth_mono_less)
qed

section \<open>Winning paths\<close>

text \<open>Items and winners form a tree: a winner's path extends the path of the winner that
  declared it, and its depth is the length of its path.\<close>

definition tree_item :: "(coords, resolved_dep) index_map \<Rightarrow> work_item \<Rightarrow> bool" where
  "tree_item W i \<longleftrightarrow> (if wi_is_direct i then wi_parent_path i = [] \<and> wi_depth i = 1
     else \<exists>p \<in> set W. wi_parent_path i = rd_winning_path (snd p) \<and> wi_parent_scope i = rd_scope (snd p) \<and>
            wi_depth i = sat_succ32 (rd_depth (snd p)))"

definition tree_dep :: "(coords, resolved_dep) index_map \<Rightarrow> coords \<times> resolved_dep \<Rightarrow> bool" where
  "tree_dep W p \<longleftrightarrow> (let r = snd p; path = rd_winning_path r in
     rd_coords r = fst p \<and> path \<noteq> [] \<and> last path = rd_coords r \<and> rd_depth r = min (2 ^ 32 - 1) (length path) \<and>
     rd_scope r \<noteq> Import \<and>
     (length path = 1 \<or> (\<exists>s d. (last (butlast path), s) \<in> set W \<and> rd_winning_path s = butlast path \<and>
        scope_inherit (rd_scope s) d = Some (rd_scope r))))"

definition tree_inv :: "nw_state \<Rightarrow> bool" where
  "tree_inv st \<longleftrightarrow> im_wf (snd st) \<and> list_all (tree_item (snd st)) (fst st) \<and> list_all (tree_dep (snd st)) (snd st)"

lemma tree_mono:
  assumes "set W \<subseteq> set W'"
  shows "tree_item W i \<Longrightarrow> tree_item W' i" "tree_dep W p \<Longrightarrow> tree_dep W' p"
proof -
  show "tree_item W i \<Longrightarrow> tree_item W' i"
    using subsetD [OF assms] unfolding tree_item_def by (cases "wi_is_direct i") auto
  show "tree_dep W p \<Longrightarrow> tree_dep W' p"
    using subsetD [OF assms] unfolding tree_dep_def Let_def by blast
qed

lemma tree_dep_new:
  assumes W: "list_all (tree_dep W) W" and i: "tree_item W i" "item_scope i = Some sc"
  shows "tree_dep W (c, dep_record i c v sc)"
proof (cases "wi_is_direct i")
  case True
  with i show ?thesis
    by (auto simp: tree_dep_def tree_item_def item_scope_def Let_def split: if_splits)
next
  case False
  with i(1) obtain pc ps where p: "(pc, ps) \<in> set W" "wi_parent_path i = rd_winning_path ps"
    "wi_parent_scope i = rd_scope ps" "wi_depth i = sat_succ32 (rd_depth ps)"
    by (auto simp: tree_item_def)
  from W p(1) have t: "tree_dep W (pc, ps)" by (auto simp: list_all_iff)
  from False i(2) p(3) have sc: "scope_inherit (rd_scope ps) (scope_parse (dep_scope (wi_dep i))) = Some sc"
    by (simp add: item_scope_def Let_def del: scope_inherit.simps)
  then have "sc \<noteq> Import" by (auto split: if_splits scope.splits)
  moreover have "wi_depth i = min (2 ^ 32 - 1) (length (wi_parent_path i @ [c]))"
    using t p(2,4) by (simp add: tree_dep_def Let_def sat_succ32_def)
  moreover have "last (wi_parent_path i) = pc" "wi_parent_path i \<noteq> []"
    using t p(2) by (simp_all add: tree_dep_def Let_def)
  ultimately show ?thesis
    using sc p(1,2) unfolding tree_dep_def Let_def by (auto simp del: scope_inherit.simps)
qed

lemma nw_step_tree:
  assumes "nw_step w opts st st'" "tree_inv st"
  shows "tree_inv st'"
  using assms
proof cases
  case (nw_win item c W sc rv fv deps q)
  let ?r = "dep_record item c rv sc" let ?W = "W @ [(c, dep_record item c rv sc)]"
  from assms(2) nw_win(1) have inv: "im_wf W" "list_all (tree_item W) (item # q)" "list_all (tree_dep W) W"
    by (simp_all add: tree_inv_def)
  have "tree_dep W (c, ?r)" using inv nw_win(6) by (auto intro: tree_dep_new)
  then have "list_all (tree_dep ?W) ?W"
    using inv(3) tree_mono(2) [of W ?W] by (auto simp: list_all_iff)
  moreover have "list_all (tree_item ?W) (q @ child_items item c sc deps)"
    using inv(2) tree_mono(1) [of W ?W] by (auto simp: list_all_iff child_items_def tree_item_def)
  moreover have "im_wf ?W"
    using inv(1) im_wf_insert [of W c ?r] by (simp add: set_im_insert_new [OF nw_win(5)])
  ultimately show ?thesis
    unfolding nw_win(2) tree_inv_def by (simp add: set_im_insert_new [OF nw_win(5)])
qed (auto simp: tree_inv_def)

lemma tree_init: "tree_inv (direct_items deps, [])"
  by (auto simp: tree_inv_def im_wf_def direct_items_def list_all_iff tree_item_def)

section \<open>Closure\<close>

definition kids :: "walk_world \<Rightarrow> walk_options \<Rightarrow> work_item \<Rightarrow> coords \<Rightarrow> scope \<Rightarrow> work_item list" where
  "kids w opts i c sc =
     (case chosen_version w opts i c of
        Inl _ \<Rightarrow> []
      | Inr (rv, fv) \<Rightarrow> (case child_deps w opts c fv sc of Inl _ \<Rightarrow> [] | Inr deps \<Rightarrow> child_items i c sc deps))"

text \<open>The items a set of winners gives rise to, when \<open>X\<close> is the item each winner came from.\<close>

definition items_of ::
    "walk_world \<Rightarrow> walk_options \<Rightarrow> raw_dependency list \<Rightarrow> (coords \<Rightarrow> work_item) \<Rightarrow> resolved_dep list \<Rightarrow> work_item set" where
  "items_of w opts deps X rs =
     set (direct_items deps) \<union> (\<Union>r \<in> set rs. set (kids w opts (X (rd_coords r)) (rd_coords r) (rd_scope r)))"

definition justified :: "walk_world \<Rightarrow> walk_options \<Rightarrow> work_item \<Rightarrow> resolved_dep \<Rightarrow> bool" where
  "justified w opts i r \<longleftrightarrow>
     item_coords i = Inr (rd_coords r) \<and> \<not> dropped opts i (rd_coords r) \<and> item_scope i = Some (rd_scope r) \<and>
     (\<exists>fv. chosen_version w opts i (rd_coords r) = Inr (rd_version r, fv)) \<and>
     r = dep_record i (rd_coords r) (rd_version r) (rd_scope r)"

definition settled :: "walk_options \<Rightarrow> resolved_dep list \<Rightarrow> work_item \<Rightarrow> bool" where
  "settled opts rs i \<longleftrightarrow> (\<exists>c. item_coords i = Inr c \<and>
     (dropped opts i c \<or> (\<exists>r \<in> set rs. rd_coords r = c \<and> rd_depth r \<le> wi_depth i)))"

definition closed_inv :: "walk_world \<Rightarrow> walk_options \<Rightarrow> raw_dependency list \<Rightarrow> (coords \<Rightarrow> work_item) \<Rightarrow> nw_state \<Rightarrow> bool" where
  "closed_inv w opts deps X st \<longleftrightarrow> (case st of (q, W) \<Rightarrow>
     let rs = map snd W; items = items_of w opts deps X rs in
     (\<forall>(c, r) \<in> set W. rd_coords r = c) \<and> (\<forall>r \<in> set rs. X (rd_coords r) \<in> items \<and> justified w opts (X (rd_coords r)) r) \<and>
     set q \<subseteq> items \<and> (\<forall>i \<in> items. i \<in> set q \<or> settled opts rs i))"

lemma settled_mono: "settled opts rs i \<Longrightarrow> set rs \<subseteq> set rs' \<Longrightarrow> settled opts rs' i"
  by (auto simp: settled_def)

lemma nw_win_closed:
  assumes inv: "closed_inv w opts deps X (item # q, W)"
    and win: "item_coords item = Inr c" "\<not> dropped opts item c" "im_get W c = None" "item_scope item = Some sc"
      "chosen_version w opts item c = Inr (rv, fv)" "child_deps w opts c fv sc = Inr ds"
  shows "closed_inv w opts deps (X(c := item)) (q @ child_items item c sc ds, W @ [(c, dep_record item c rv sc)])"
proof -
  let ?r = "dep_record item c rv sc" let ?X = "X(c := item)"
  let ?I = "items_of w opts deps X (map snd W)" let ?J = "items_of w opts deps ?X (map snd W @ [?r])"
  have fst: "\<forall>(c', r) \<in> set W. rd_coords r = c'" and q: "set (item # q) \<subseteq> ?I"
    and just: "\<forall>r \<in> snd ` set W. X (rd_coords r) \<in> ?I \<and> justified w opts (X (rd_coords r)) r"
    and set: "\<forall>i \<in> ?I. i \<in> set (item # q) \<or> settled opts (map snd W) i"
    using inv by (auto simp: closed_inv_def Let_def)
  have new: "\<forall>r \<in> snd ` set W. rd_coords r \<noteq> c"
    using fst win(3) by (force simp: im_get_None_iff im_keys_def)
  then have "?J = ?I \<union> set (child_items item c sc ds)"
    using win(5,6) by (auto simp: items_of_def kids_def)
  moreover have "justified w opts item ?r" using win by (simp add: justified_def)
  moreover have "settled opts (map snd W @ [?r]) item" using win(1) by (auto simp: settled_def)
  moreover have "settled opts (map snd W @ [?r]) i" if "settled opts (map snd W) i" for i
    using that by (rule settled_mono) auto
  ultimately show ?thesis
    using fst q just set new unfolding closed_inv_def Let_def by auto
qed

lemma nw_step_closed:
  assumes "nw_step w opts st st'" "closed_inv w opts deps X st"
  shows "\<exists>X'. closed_inv w opts deps X' st'"
  using assms
proof cases
  case (nw_drop item c q W)
  then have "settled opts (map snd W) item" by (auto simp: settled_def)
  with nw_drop assms(2) have "closed_inv w opts deps X st'" by (auto simp: closed_inv_def Let_def)
  then show ?thesis by blast
next
  case (nw_lose item c W r q)
  from assms(2) nw_lose(1,4) have "rd_coords r = c" "r \<in> set (map snd W)"
    by (auto simp: closed_inv_def im_get_def Let_def dest!: map_of_SomeD intro: image_eqI [where x = "(c, r)"])
  with nw_lose have "settled opts (map snd W) item" by (auto simp: settled_def)
  with nw_lose assms(2) have "closed_inv w opts deps X st'" by (auto simp: closed_inv_def Let_def)
  then show ?thesis by blast
next
  case (nw_win item c W sc rv fv ds q)
  with nw_win_closed [of w opts deps X item q W c sc rv fv ds] assms(2) show ?thesis
    by (auto simp: set_im_insert_new)
qed

lemma closed_init: "closed_inv w opts deps X (direct_items deps, [])"
  by (simp add: closed_inv_def items_of_def Let_def)

section \<open>Runs\<close>

abbreviation nw_run :: "walk_world \<Rightarrow> walk_options \<Rightarrow> nw_state \<Rightarrow> nw_state \<Rightarrow> bool" where
  "nw_run w opts \<equiv> (nw_step w opts)\<^sup>*\<^sup>*"

lemma nw_run_invs:
  assumes "nw_run w opts (direct_items deps, []) st"
  shows "bfs_inv st \<and> tree_inv st \<and> (\<exists>X. closed_inv w opts deps X st)"
  using assms
proof (induction rule: rtranclp_induct)
  case base
  show ?case using bfs_init tree_init closed_init by blast
next
  case (step y z)
  then show ?case using nw_step_bfs nw_step_tree nw_step_closed by blast
qed

text \<open>The machine is deterministic.\<close>

lemma nw_step_det: "nw_step w opts st st1 \<Longrightarrow> nw_step w opts st st2 \<Longrightarrow> st1 = st2"
  by (erule nw_step.cases; erule nw_step.cases; simp)

lemma nw_stuck: "\<not> nw_step w opts ([], W) st"
  by (auto elim: nw_step.cases)

lemma nw_run_det:
  assumes "nw_run w opts st ([], W)" "nw_run w opts st ([], W')"
  shows "W = W'"
  using assms
proof (induction st rule: converse_rtranclp_induct)
  case base
  then show ?case by (auto elim: converse_rtranclpE dest: nw_stuck [THEN notE])
next
  case (step y z)
  from step.prems step.hyps(1) obtain z' where "nw_step w opts y z'" "nw_run w opts z' ([], W')"
    by (auto elim: converse_rtranclpE simp: nw_stuck)
  with step nw_step_det show ?case by blast
qed

end
