(* ===== verification/WalkerProps.thy ===== *)
theory WalkerProps
  imports NearestWins
begin

text \<open>
  The walker refines the nearest-wins machine, and what follows from it: the shape of the
  resolved graph, its closure, the independence of the skipper, and termination.
\<close>

section \<open>Steps of the walker\<close>

inductive walk_step :: "walk_world \<Rightarrow> walk_options \<Rightarrow> walk_state \<Rightarrow> walk_state \<Rightarrow> bool" for w opts where
  walk_step: "ws_queue st = item # rest \<Longrightarrow> process_item w opts (st\<lparr>ws_queue := rest\<rparr>) item = Inr st' \<Longrightarrow>
    walk_step w opts st st'"

lemma walk_loop_run:
  "walk_loop w opts n st = Some (Inr st') \<Longrightarrow> (walk_step w opts)\<^sup>*\<^sup>* st st' \<and> ws_queue st' = []"
proof (induction n arbitrary: st)
  case 0
  then show ?case by (auto simp: walk_loop.simps [of w opts 0] split: list.splits)
next
  case (Suc n)
  then show ?case
    by (auto simp: walk_loop.simps [of w opts "Suc n"] split: list.splits sum.splits
        dest!: Suc.IH intro: converse_rtranclp_into_rtranclp walk_step)
qed

section \<open>Simulation\<close>

abbreviation nw_abs :: "walk_state \<Rightarrow> nw_state" where
  "nw_abs st \<equiv> (ws_queue st, ws_winners st)"

definition side_inv :: "walk_world \<Rightarrow> walk_options \<Rightarrow> walk_state \<Rightarrow> bool" where
  "side_inv w opts st \<longleftrightarrow> set (sk_known_leaves (ws_skipper st)) \<subseteq> set (im_keys (ws_winners st)) \<and>
     ws_order st = im_keys (ws_winners st) \<and> sess_rel w opts (wo_oreq opts) (ws_session st)"

definition walk_inv :: "walk_world \<Rightarrow> walk_options \<Rightarrow> walk_state \<Rightarrow> bool" where
  "walk_inv w opts st \<longleftrightarrow> bfs_inv (nw_abs st) \<and> side_inv w opts st"

lemma fetch_child_pure:
  assumes "sess_rel w opts a b" "fetch_child w opts c v b = Inr (r, b')"
  shows "fetch_child w opts c v None = Inr (r, None) \<and> sess_rel w opts a b'"
  using fetch_child_tracks [of w opts b c v] assms
  by (auto simp: sess_rel_def tracks_def rel_sum.simps)

lemma resolve_spec_pins:
  assumes "sess_ok w opts b" "resolve_spec w opts spec c b = Inr (rv, wn, b')"
  shows "session_pin b' = session_pin b"
proof -
  have "session_pin s' = session_pin b" if "fetch_metadata_via_session w opts c b = Inr (md, s')" for md s'
    using fetch_metadata_tracks [OF assms(1), of c] that by (auto simp: tracks_def rel_sum.simps)
  moreover have "session_pin (map_option record_frozen_skip b) = session_pin b" by (cases b) simp_all
  ultimately show ?thesis
    using assms(2) by (cases spec) (auto simp: Let_def split: option.splits if_splits)
qed

lemma resolve_spec_pure:
  assumes "sess_rel w opts a b" "resolve_spec w opts spec c b = Inr (rv, wn, b')"
  shows "(\<exists>a'. resolve_spec w opts spec c a = Inr (rv, wn, a')) \<and> sess_rel w opts a b'"
  using resolve_spec_rel [OF assms(1), of spec c] resolve_spec_pins [OF _ assms(2)] assms
  by (auto simp: rel_sum.simps sess_rel_def)

lemma bfs_winner:
  assumes "bfs_inv (item # q, W)" "im_get W c = Some r"
  shows "rd_depth r \<le> wi_depth item"
  using assms map_of_SomeD [of W c r] by (force simp: bfs_inv_def im_get_def)

lemma push_loser_sel [simp]:
  "ws_queue (push_loser c v d st) = ws_queue st" "ws_winners (push_loser c v d st) = ws_winners st"
  "ws_order (push_loser c v d st) = ws_order st" "ws_skipper (push_loser c v d st) = ws_skipper st"
  "ws_session (push_loser c v d st) = ws_session st"
  by (simp_all add: push_loser_def)

lemma record_winner_sel [simp]:
  "ws_queue (record_winner r st) = ws_queue st" "ws_skipper (record_winner r st) = ws_skipper st"
  "ws_session (record_winner r st) = ws_session st"
  "ws_winners (record_winner r st) = im_insert (rd_coords r) r (ws_winners st)"
  "ws_order (record_winner r st) =
     (if im_get (ws_winners st) (rd_coords r) = None then ws_order st @ [rd_coords r] else ws_order st)"
  by (simp_all add: record_winner_def Let_def)

lemma side_inv_push [simp]: "side_inv w opts (push_loser c v d st) = side_inv w opts st"
  by (simp add: side_inv_def)

lemma expand_item_sim:
  assumes ex: "expand_item w opts item c sc rv fv st = Inr st'"
    and new: "im_get (ws_winners st) c = None" and inv: "side_inv w opts st"
  shows "\<exists>deps. child_deps w opts c fv sc = Inr deps \<and>
    nw_abs st' = (ws_queue st @ child_items item c sc deps, im_insert c (dep_record item c rv sc) (ws_winners st)) \<and>
    side_inv w opts st'"
proof -
  have leaves: "x = c \<or> x \<in> set (im_keys (ws_winners st))"
    if "x \<in> set (sk_known_leaves (record_visit c ex l (ws_skipper st)))" for x ex l
    using record_visit_leaves [of c ex l "ws_skipper st"] inv that by (auto simp: side_inv_def)
  have c: "c \<notin> set (im_keys (ws_winners st))" using new by (simp add: im_get_None_iff)
  show ?thesis
  proof (cases "sc = System")
    case True
    with ex c new inv show ?thesis
      by (auto simp: expand_item_def Let_def child_deps_def side_inv_def child_items_def dest: leaves)
  next
    case False
    with ex obtain r ses where f: "fetch_child w opts c fv (ws_session st) = Inr (r, ses)"
      by (auto simp: expand_item_def Let_def)
    with inv have "fetch_child w opts c fv None = Inr (r, None)" "sess_rel w opts (wo_oreq opts) ses"
      using fetch_child_pure by (auto simp: side_inv_def)
    with False ex f c new inv show ?thesis
      by (auto simp: expand_item_def Let_def child_deps_def side_inv_def dest: leaves)
  qed
qed

lemma contest_sim:
  assumes co: "item_coords item = Inr c" and keep: "\<not> dropped opts item c" "item_scope item = Some sc"
    and ch: "chosen_version w opts item c = Inr (rv, fv)" and res: "contest w opts item c sc rv fv st = Inr st'"
    and inv: "side_inv w opts st" and bfs: "bfs_inv (item # ws_queue st, ws_winners st)"
  shows "nw_step w opts (item # ws_queue st, ws_winners st) (nw_abs st') \<and> side_inv w opts st'"
proof (cases "im_get (ws_winners st) c")
  case None
  with res expand_item_sim [of w opts item c sc rv fv st st'] inv co keep ch show ?thesis
    by (auto simp: contest_def intro: nw_win)
next
  case (Some r)
  have "rd_depth r \<le> wi_depth item" using bfs Some by (rule bfs_winner)
  with res Some inv co show ?thesis by (auto simp: contest_def intro: nw_lose)
qed

lemma resolve_itemE:
  assumes "resolve_item w opts item c sc st = Inr st'"
  obtains raw spec rv wn ses fv where "declared_version c (wi_dep item) = Inr raw" "spec_parse raw = Inr spec"
    "resolve_spec w opts spec c (ws_session st) = Inr (rv, wn, ses)"
    "resolve_snapshot_fetch_version w rv c (wi_dep item) = Inr fv"
    "contest w opts item c sc rv fv (st\<lparr>ws_warnings := ws_warnings st @ wn, ws_session := ses\<rparr>) = Inr st'"
  using assms by (auto simp: resolve_item_def Let_def)

lemma resolve_item_sim:
  assumes res: "resolve_item w opts item c sc st = Inr st'" and co: "item_coords item = Inr c"
    and keep: "\<not> dropped opts item c" "item_scope item = Some sc"
    and inv: "side_inv w opts st" and bfs: "bfs_inv (item # ws_queue st, ws_winners st)"
  shows "nw_step w opts (item # ws_queue st, ws_winners st) (nw_abs st') \<and> side_inv w opts st'"
  using res
proof (rule resolve_itemE)
  fix raw spec rv wn ses fv
  assume v: "declared_version c (wi_dep item) = Inr raw" "spec_parse raw = Inr spec"
    "resolve_spec w opts spec c (ws_session st) = Inr (rv, wn, ses)"
    "resolve_snapshot_fetch_version w rv c (wi_dep item) = Inr fv"
    and ct: "contest w opts item c sc rv fv (st\<lparr>ws_warnings := ws_warnings st @ wn, ws_session := ses\<rparr>) = Inr st'"
  from inv have "sess_rel w opts (wo_oreq opts) (ws_session st)" by (simp add: side_inv_def)
  from resolve_spec_pure [OF this v(3)] obtain a' where
    a': "resolve_spec w opts spec c (wo_oreq opts) = Inr (rv, wn, a')" and "sess_rel w opts (wo_oreq opts) ses"
    by blast
  then have "side_inv w opts (st\<lparr>ws_warnings := ws_warnings st @ wn, ws_session := ses\<rparr>)"
    using inv by (simp add: side_inv_def)
  moreover have "chosen_version w opts item c = Inr (rv, fv)" using v a' by (simp add: chosen_version_def)
  ultimately show ?thesis using contest_sim [OF co keep _ ct] bfs by simp
qed

lemma process_item_sim:
  assumes pr: "process_item w opts st item = Inr st'"
    and inv: "side_inv w opts st" and bfs: "bfs_inv (item # ws_queue st, ws_winners st)"
  shows "nw_step w opts (item # ws_queue st, ws_winners st) (nw_abs st') \<and> side_inv w opts st'"
proof -
  from pr obtain c where co: "item_coords item = Inr c"
    by (auto simp: process_item_def item_coords_def Let_def)
  show ?thesis
  proof (cases "matches_any_exclusion c (wi_exclusions item)")
    case True
    with pr co inv show ?thesis
      by (auto simp: process_item_def item_coords_def Let_def dropped_def intro!: nw_drop)
  next
    case False
    define ex where "ex = exclusions_from_raw (wi_exclusions item)"
    obtain dec sk where d: "decide (ws_skipper st) c (wi_depth item) ex (ws_winners st) = (dec, sk)" by fastforce
    let ?st = "st\<lparr>ws_skipper := sk\<rparr>"
    have "sk_known_leaves sk = sk_known_leaves (ws_skipper st)"
      using decide_keeps(1) [of "ws_skipper st" c "wi_depth item" ex "ws_winners st"] d by simp
    then have inv': "side_inv w opts ?st" using inv by (simp add: side_inv_def)
    show ?thesis
    proof (cases dec)
      case (Skip why)
      then have "im_get (ws_winners st) c \<noteq> None"
        using decide_Skip_winner [of "ws_skipper st" c "wi_depth item" ex "ws_winners st" why] d inv
        by (simp add: side_inv_def)
      with bfs_winner [OF bfs] pr co False d Skip inv' show ?thesis
        by (auto simp: process_item_def item_coords_def Let_def ex_def [symmetric] intro!: nw_lose)
    next
      case Walk
      have body: "(case item_scope item of
           None \<Rightarrow> Inr ?st
         | Some sc \<Rightarrow> if parse_bool (dep_optional (wi_dep item)) \<and> \<not> wi_is_direct item \<and> wo_strip_optional opts
             then Inr ?st else resolve_item w opts item c sc ?st) = Inr st'"
        using pr co False d Walk by (simp add: process_item_def item_coords_def Let_def ex_def [symmetric])
      show ?thesis
      proof (cases "dropped opts item c")
        case True
        with body co inv' False show ?thesis
          by (auto simp: dropped_def intro!: nw_drop split: option.splits)
      next
        case kept: False
        then obtain sc where sc: "item_scope item = Some sc" by (auto simp: dropped_def)
        with body kept have "resolve_item w opts item c sc ?st = Inr st'" by (auto simp: dropped_def)
        from resolve_item_sim [OF this co kept sc inv'] bfs show ?thesis by simp
      qed
    qed
  qed
qed

lemma walk_step_sim:
  assumes "walk_step w opts st st'" "walk_inv w opts st"
  shows "nw_step w opts (nw_abs st) (nw_abs st') \<and> walk_inv w opts st'"
  using assms
proof cases
  case (walk_step item rest)
  have "side_inv w opts (st\<lparr>ws_queue := rest\<rparr>)" using assms(2) by (simp add: walk_inv_def side_inv_def)
  from process_item_sim [OF walk_step(2) this] walk_step(1) assms(2)
  have "nw_step w opts (nw_abs st) (nw_abs st')" "side_inv w opts st'" by (simp_all add: walk_inv_def)
  with assms(2) nw_step_bfs [of w opts "nw_abs st" "nw_abs st'"] show ?thesis by (simp add: walk_inv_def)
qed

lemma walk_steps_sim:
  "(walk_step w opts)\<^sup>*\<^sup>* st st' \<Longrightarrow> walk_inv w opts st \<Longrightarrow>
   nw_run w opts (nw_abs st) (nw_abs st') \<and> walk_inv w opts st'"
proof (induction rule: rtranclp_induct)
  case (step y z)
  then show ?case using walk_step_sim by (meson rtranclp.rtrancl_into_rtrancl)
qed simp

lemma walk_inv_init:
  "sess_ok w opts (wo_oreq opts) \<Longrightarrow> walk_inv w opts (walk_init opts root)"
  by (auto simp: walk_inv_def side_inv_def walk_init_def bfs_init sess_rel_def im_keys_def
      skipper_new_def skipper_disabled_def skipper_with_def)

section \<open>The resolved graph\<close>

lemma resolved_of_winners:
  fixes W :: "('k, 'v) index_map"
  shows "im_wf W \<Longrightarrow> List.map_filter (im_get W) (im_keys W) = map snd W"
proof -
  have "List.map_filter (im_get m) (map fst xs) = map snd xs" if "set xs \<subseteq> set m" "distinct (map fst m)"
    for m xs :: "('k, 'v) index_map"
    using that by (induction xs) (auto simp: List.map_filter_simps im_get_def)
  then show "im_wf W \<Longrightarrow> ?thesis" by (simp add: im_wf_def im_keys_def)
qed

lemma walk_run:
  assumes "sess_ok w opts (wo_oreq opts)" "walk w opts n root = Some (Inr g)"
  shows "\<exists>W. nw_run w opts (direct_items (pom_dependencies root), []) ([], W) \<and>
    rg_resolved g = map snd W \<and> rg_winners g = sort_key fst W"
proof -
  from assms(2) obtain st where st: "walk_loop w opts n (walk_init opts root) = Some (Inr st)" "g = walk_finish st"
    by (auto simp: walk_def elim!: rbind_InrE)
  note r = walk_loop_run [OF st(1)]
  note sim = walk_steps_sim [OF conjunct1 [OF r] walk_inv_init [OF assms(1)]]
  have "nw_abs (walk_init opts root) = (direct_items (pom_dependencies root), [])" "ws_queue st = []"
    using r by (simp_all add: walk_init_def)
  with sim have run: "nw_run w opts (direct_items (pom_dependencies root), []) ([], ws_winners st)"
    and inv: "walk_inv w opts st" by simp_all
  have "im_wf (ws_winners st)" using nw_run_invs [OF run] by (simp add: tree_inv_def)
  with inv have "rg_resolved g = map snd (ws_winners st)" "rg_winners g = sort_key fst (ws_winners st)"
    unfolding st(2) walk_finish_def by (simp_all add: Let_def walk_inv_def side_inv_def resolved_of_winners)
  with run show ?thesis by blast
qed

text \<open>C2. The walker implements nearest-wins resolution: whatever the session and the skipper do,
  a successful walk is a run of the abstract breadth-first machine from the direct dependencies
  to an empty queue, \<open>resolved\<close> lists its winners in discovery order and \<open>winners\<close> the same
  records sorted by coordinates.\<close>

theorem walk_refines:
  assumes "sess_ok w opts (wo_oreq opts)" "walk w opts n root = Some (Inr g)"
  shows "\<exists>W. nw_run w opts (direct_items (pom_dependencies root), []) ([], W) \<and>
    rg_resolved g = map snd W \<and> rg_winners g = sort_key fst W"
  using assms by (rule walk_run)

text \<open>C1. The resolved graph is exactly the nearest-wins closure of the root: there is an item
  for each resolved dependency that justifies its version, scope and path and comes from the
  root or from the effective POM of a resolved dependency; and every item that the root or a
  resolved dependency gives rise to is dropped by its exclusions, scope or optionality, or its
  coordinates are resolved at no greater depth.\<close>

theorem walk_closure:
  assumes "sess_ok w opts (wo_oreq opts)" "walk w opts n root = Some (Inr g)"
  shows "\<exists>X. let items = items_of w opts (pom_dependencies root) X (rg_resolved g) in
    (\<forall>r \<in> set (rg_resolved g). X (rd_coords r) \<in> items \<and> justified w opts (X (rd_coords r)) r) \<and>
    (\<forall>i \<in> items. settled opts (rg_resolved g) i)"
proof -
  obtain W where W: "nw_run w opts (direct_items (pom_dependencies root), []) ([], W)" "rg_resolved g = map snd W"
    using walk_run [OF assms] by blast
  from nw_run_invs [OF W(1)] obtain X where "closed_inv w opts (pom_dependencies root) X ([], W)" by blast
  then show ?thesis unfolding W(2) closed_inv_def Let_def by (intro exI [of _ X]) auto
qed

text \<open>C6. The resolved dependencies form a tree: coordinates are distinct, a winning path ends
  in its own coordinates and its length is the depth (up to the 32-bit saturation), no scope is
  \<open>import\<close>, and a path longer than one step extends the winning path of another resolved
  dependency from whose scope the scope is inherited.\<close>

theorem walk_tree:
  assumes "sess_ok w opts (wo_oreq opts)" "walk w opts n root = Some (Inr g)"
  shows "distinct (map rd_coords (rg_resolved g)) \<and>
    (\<forall>r \<in> set (rg_resolved g). let path = rd_winning_path r in
       path \<noteq> [] \<and> last path = rd_coords r \<and> rd_depth r = min (2 ^ 32 - 1) (length path) \<and> rd_scope r \<noteq> Import \<and>
       (1 < length path \<longrightarrow> (\<exists>s \<in> set (rg_resolved g). rd_winning_path s = butlast path \<and>
          (\<exists>d. scope_inherit (rd_scope s) d = Some (rd_scope r)))))"
proof -
  obtain W where W: "nw_run w opts (direct_items (pom_dependencies root), []) ([], W)" "rg_resolved g = map snd W"
    using walk_run [OF assms] by blast
  from nw_run_invs [OF W(1)] have t: "im_wf W" "\<forall>p \<in> set W. tree_dep W p" by (auto simp: tree_inv_def list_all_iff)
  have "map rd_coords (map snd W) = map fst W" using t(2) by (auto simp: tree_dep_def Let_def)
  with t(1) have "distinct (map rd_coords (map snd W))" by (simp only: im_wf_def)
  moreover have "let path = rd_winning_path r in
       path \<noteq> [] \<and> last path = rd_coords r \<and> rd_depth r = min (2 ^ 32 - 1) (length path) \<and> rd_scope r \<noteq> Import \<and>
       (1 < length path \<longrightarrow> (\<exists>s \<in> set (map snd W). rd_winning_path s = butlast path \<and>
          (\<exists>d. scope_inherit (rd_scope s) d = Some (rd_scope r))))" if r: "r \<in> set (map snd W)" for r
  proof -
    from r obtain c where "(c, r) \<in> set W" by auto
    then have "tree_dep W (c, r)" using t(2) by blast
    then show ?thesis unfolding tree_dep_def Let_def by (auto simp del: scope_inherit.simps) (metis image_eqI snd_conv)
  qed
  ultimately show ?thesis unfolding W(2) by blast
qed

section \<open>The skipper\<close>

lemma resolve_item_ok:
  assumes "resolve_item w opts item c sc d = Inr d'" and eq: "ws_winners e = ws_winners d"
    and rel: "sess_rel w opts (ws_session d) (ws_session e)"
  shows "\<exists>e'. resolve_item w opts item c sc e = Inr e'"
  using assms(1)
proof (rule resolve_itemE)
  fix raw spec rv wn ses fv
  assume v: "declared_version c (wi_dep item) = Inr raw" "spec_parse raw = Inr spec"
    "resolve_spec w opts spec c (ws_session d) = Inr (rv, wn, ses)"
    "resolve_snapshot_fetch_version w rv c (wi_dep item) = Inr fv"
    and ct: "contest w opts item c sc rv fv (d\<lparr>ws_warnings := ws_warnings d @ wn, ws_session := ses\<rparr>) = Inr d'"
  from resolve_spec_rel [OF rel, of spec c] v(3) obtain ses' where
    ses': "resolve_spec w opts spec c (ws_session e) = Inr (rv, wn, ses')" "sess_rel w opts ses ses'"
    by (auto simp: rel_sum.simps)
  have "\<exists>e'. contest w opts item c sc rv fv (e\<lparr>ws_warnings := ws_warnings e @ wn, ws_session := ses'\<rparr>) = Inr e'"
    using ct eq fetch_rel(2) [OF ses'(2), of c fv]
    by (auto simp: contest_def expand_item_def Let_def rel_sum.simps split: option.splits if_splits)
  then show ?thesis using v ses'(1) by (simp add: resolve_item_def Let_def)
qed

lemma process_item_ok:
  assumes d: "process_item w opts d item = Inr d'" and off: "\<not> sk_enabled (ws_skipper d)"
    and eq: "ws_winners e = ws_winners d" "sess_rel w opts (ws_session d) (ws_session e)"
  shows "\<exists>e'. process_item w opts e item = Inr e'"
proof -
  have dec: "decide (ws_skipper d) c n ex W = (Walk, count_walk (ws_skipper d))" for c n ex W
    using off by (simp add: decide_def)
  have res: "\<exists>e'. resolve_item w opts item c sc (e\<lparr>ws_skipper := sk2\<rparr>) = Inr e'"
    if "resolve_item w opts item c sc (d\<lparr>ws_skipper := sk1\<rparr>) = Inr d'" for c sc sk1 sk2
    using resolve_item_ok [OF that] eq by simp
  show ?thesis
    using d by (auto simp: process_item_def Let_def dec split: prod.splits skip_decision.splits option.splits if_splits intro: res)
qed

lemma process_item_enabled:
  "process_item w opts st item = Inr st' \<Longrightarrow> sk_enabled (ws_skipper st') = sk_enabled (ws_skipper st)"
proof -
  have keep: "sk_enabled sk' = sk_enabled sk" if "decide sk c n ex W = (dec, sk')" for sk c n ex W dec sk'
    using decide_keeps(2) [of sk c n ex W] that by simp
  have ex: "sk_enabled (ws_skipper b) = sk_enabled (ws_skipper a)" if "expand_item w opts item c sc rv fv a = Inr b" for c sc rv fv a b
    using that by (auto simp: expand_item_def Let_def split: if_splits)
  have "sk_enabled (ws_skipper b) = sk_enabled (ws_skipper a)" if "resolve_item w opts item c sc a = Inr b" for c sc a b
    using that by (auto simp: contest_def Let_def split: option.splits if_splits elim!: resolve_itemE dest!: ex)
  then show "process_item w opts st item = Inr st' \<Longrightarrow> ?thesis"
    by (fastforce simp: process_item_def Let_def split: prod.splits skip_decision.splits option.splits if_splits dest: keep)
qed

lemma walk_loop_skipper:
  assumes "walk_loop w opts n d = Some (Inr d')" "\<not> sk_enabled (ws_skipper d)"
    "walk_inv w opts d" "walk_inv w opts e" "nw_abs d = nw_abs e"
  shows "\<exists>e'. walk_loop w opts n e = Some (Inr e') \<and> nw_abs e' = nw_abs d' \<and> walk_inv w opts d' \<and> walk_inv w opts e'"
  using assms
proof (induction n arbitrary: d e)
  case 0
  then show ?case by (auto simp: walk_loop.simps [of w opts 0] split: list.splits)
next
  case (Suc n)
  show ?case
  proof (cases "ws_queue d")
    case Nil
    with Suc.prems show ?thesis by (auto simp: walk_loop.simps [of w opts "Suc n"])
  next
    case (Cons item rest)
    let ?d = "d\<lparr>ws_queue := rest\<rparr>" let ?e = "e\<lparr>ws_queue := rest\<rparr>"
    from Cons Suc.prems(1) obtain d1 where d1: "process_item w opts ?d item = Inr d1" "walk_loop w opts n d1 = Some (Inr d')"
      by (auto simp: walk_loop.simps [of w opts "Suc n"] split: sum.splits)
    have "sess_rel w opts (ws_session ?d) (ws_session ?e)"
      using Suc.prems(3,4) by (auto simp: walk_inv_def side_inv_def sess_rel_def)
    with process_item_ok [OF d1(1), of ?e] Suc.prems(2,5) obtain e1 where e1: "process_item w opts ?e item = Inr e1"
      by auto
    have steps: "walk_step w opts d d1" "walk_step w opts e e1"
      using Cons Suc.prems(5) d1(1) e1 by (auto intro!: walk_step)
    note sd = walk_step_sim [OF steps(1) Suc.prems(3)] and se = walk_step_sim [OF steps(2) Suc.prems(4)]
    have "nw_abs d1 = nw_abs e1" using sd se Suc.prems(5) nw_step_det by metis
    moreover have "\<not> sk_enabled (ws_skipper d1)" using process_item_enabled [OF d1(1)] Suc.prems(2) by simp
    ultimately have "\<exists>e'. walk_loop w opts n e1 = Some (Inr e') \<and> nw_abs e' = nw_abs d' \<and> walk_inv w opts d' \<and> walk_inv w opts e'"
      using Suc.IH [OF d1(2)] sd se by blast
    moreover have "ws_queue e = item # rest" using Cons Suc.prems(5) by simp
    ultimately show ?thesis using e1 by (simp add: walk_loop.simps [of w opts "Suc n"])
  qed
qed

text \<open>C4. The skipper is correctness-safe on walks that succeed without it: when the walk with the
  skipper disabled returns a graph, the walk with the skipper enabled returns one with the same
  resolved dependencies in the same order and the same winners.\<close>

theorem skipper_equivalence:
  assumes "sess_ok w opts (wo_oreq opts)" "walk w (opts\<lparr>wo_enable_skipper := False\<rparr>) n root = Some (Inr g)"
  shows "\<exists>g'. walk w (opts\<lparr>wo_enable_skipper := True\<rparr>) n root = Some (Inr g') \<and>
    rg_resolved g' = rg_resolved g \<and> rg_winners g' = rg_winners g"
proof -
  let ?d = "walk_init (opts\<lparr>wo_enable_skipper := False\<rparr>) root" and ?e = "walk_init (opts\<lparr>wo_enable_skipper := True\<rparr>) root"
  from assms(2) obtain d' where d': "walk_loop w opts n ?d = Some (Inr d')" "g = walk_finish d'"
    by (auto simp: walk_def walk_loop_opts elim!: rbind_InrE)
  have inv: "walk_inv w opts ?d" "walk_inv w opts ?e"
    using assms(1)
    by (auto simp: walk_inv_def side_inv_def walk_init_def bfs_init sess_rel_def im_keys_def
        skipper_new_def skipper_disabled_def skipper_with_def)
  have "\<not> sk_enabled (ws_skipper ?d)" "nw_abs ?d = nw_abs ?e"
    by (simp_all add: walk_init_def skipper_disabled_def skipper_with_def)
  from walk_loop_skipper [OF d'(1) this(1) inv this(2)] obtain e' where
    e': "walk_loop w opts n ?e = Some (Inr e')" "ws_winners e' = ws_winners d'" "walk_inv w opts d'" "walk_inv w opts e'"
    by auto
  then have "ws_order e' = ws_order d'" by (simp add: walk_inv_def side_inv_def)
  with e' show ?thesis
    unfolding d'(2) by (auto simp: walk_def walk_loop_opts walk_finish_def Let_def)
qed

section \<open>Termination\<close>

lemma walk_loop_more:
  "walk_loop w opts n st = Some r \<Longrightarrow> walk_loop w opts (n + k) st = Some r"
proof (induction n arbitrary: st)
  case 0
  then show ?case by (auto simp: walk_loop.simps [of w opts 0] walk_loop.simps [of w opts k] split: list.splits)
next
  case (Suc n)
  then show ?case
    by (auto simp: walk_loop.simps [of w opts "Suc n"] walk_loop.simps [of w opts "Suc (n + k)"]
        split: list.splits sum.splits)
qed

text \<open>Every step removes an item or resolves one more of the finitely many coordinates that have
  a POM.\<close>

definition nw_measure :: "coords set \<Rightarrow> (nw_state \<times> nw_state) set" where
  "nw_measure F = measures [\<lambda>st. card (F - set (im_keys (snd st))), \<lambda>st. length (fst st)]"

lemma nw_step_measure:
  assumes "nw_step w opts st st'" and F: "finite F" "{c. \<exists>v p. fetch_pom (ww_source w) c v = Inr p} \<subseteq> F"
  shows "(st', st) \<in> nw_measure F"
  using assms(1)
proof cases
  case (nw_win item c W sc rv fv deps q)
  have c: "c \<notin> set (im_keys W)" using nw_win(5) by (simp add: im_get_None_iff)
  show ?thesis
  proof (cases "c \<in> F")
    case True
    then have "F - insert c (set (im_keys W)) \<subset> F - set (im_keys W)" using c by blast
    then have "card (F - insert c (set (im_keys W))) < card (F - set (im_keys W))"
      using F(1) by (intro psubset_card_mono) simp_all
    then show ?thesis using c unfolding nw_win(1,2) nw_measure_def by simp
  next
    case False
    then have "fetch_pom (ww_source w) c v \<noteq> Inr p" for v p using F(2) by blast
    then have "deps = []"
      using nw_win(8) by (cases "fetch_pom (ww_source w) c fv") (auto simp: child_deps_def fetch_child_def split: if_splits)
    moreover have "F - insert c (set (im_keys W)) = F - set (im_keys W)" using False by blast
    ultimately show ?thesis using c unfolding nw_win(1,2) nw_measure_def by (simp add: child_items_def)
  qed
qed (simp_all add: nw_measure_def)

lemma walk_loop_ends:
  assumes F: "finite F" "{c. \<exists>v p. fetch_pom (ww_source w) c v = Inr p} \<subseteq> F" and "walk_inv w opts st"
  shows "\<exists>n r. walk_loop w opts n st = Some r"
proof -
  have wf: "wf (inv_image (nw_measure F) nw_abs)" by (simp add: nw_measure_def)
  show ?thesis
    using assms(3)
  proof (induction st rule: wf_induct_rule [OF wf])
    case (1 st)
    show ?case
    proof (cases "ws_queue st")
      case Nil
      then have "walk_loop w opts 0 st = Some (Inr st)" by (simp add: walk_loop.simps [of w opts 0])
      then show ?thesis by blast
    next
      case (Cons item rest)
      show ?thesis
      proof (cases "process_item w opts (st\<lparr>ws_queue := rest\<rparr>) item")
        case (Inl e)
        with Cons have "walk_loop w opts (Suc 0) st = Some (Inl e)" by (simp add: walk_loop.simps [of w opts "Suc 0"])
        then show ?thesis by blast
      next
        case (Inr st')
        with Cons have step: "walk_step w opts st st'" by (blast intro: walk_step)
        have sim: "nw_step w opts (nw_abs st) (nw_abs st')" "walk_inv w opts st'"
          using walk_step_sim [OF step 1(2)] by blast+
        have "(st', st) \<in> inv_image (nw_measure F) nw_abs"
          using nw_step_measure [OF sim(1) F] by (simp add: in_inv_image)
        from 1(1) [OF this sim(2)] obtain n r where "walk_loop w opts n st' = Some r" by blast
        with Cons Inr have "walk_loop w opts (Suc n) st = Some r" by (simp add: walk_loop.simps [of w opts "Suc n"])
        then show ?thesis by blast
      qed
    qed
  qed
qed

text \<open>C3. The walk terminates on every source that has POMs for finitely many coordinates, however
  many versions there are and even when dependencies are cyclic: from some number of steps on it
  has one and the same outcome.\<close>

theorem walk_terminates:
  assumes "sess_ok w opts (wo_oreq opts)" "finite {c. \<exists>v p. fetch_pom (ww_source w) c v = Inr p}"
  shows "\<exists>n r. \<forall>m \<ge> n. walk w opts m root = Some r"
proof -
  from walk_loop_ends [OF assms(2) subset_refl walk_inv_init [OF assms(1)]] obtain n r where
    r: "walk_loop w opts n (walk_init opts root) = Some r" by blast
  have "walk w opts m root = Some (rbind r (\<lambda>st. Inr (walk_finish st)))" if "n \<le> m" for m
    using walk_loop_more [OF r, of "m - n"] that by (simp add: walk_def)
  then show ?thesis by blast
qed

section \<open>Version choice\<close>

context three_way
begin

lemma max_by_maximal:
  assumes "max_by cmp3 xs = Some m"
  shows "m \<in> set xs \<and> (\<forall>x \<in> set xs. cmp3 x m \<noteq> Greater)"
proof -
  have "fold (\<lambda>y acc. if cmp3 acc y = Greater then acc else y) ys x \<in> insert x (set ys) \<and>
      (\<forall>z \<in> insert x (set ys). cmp3 z (fold (\<lambda>y acc. if cmp3 acc y = Greater then acc else y) ys x) \<noteq> Greater)" for ys x
  proof (induction ys arbitrary: x)
    case Nil
    show ?case by (simp add: cmp_self)
  next
    case (Cons y ys)
    let ?x = "if cmp3 x y = Greater then x else y"
    have le: "cmp3 x ?x \<noteq> Greater" "cmp3 y ?x \<noteq> Greater"
      using cmp_flip [of y x] by (auto simp: cmp_self)
    let ?m = "fold (\<lambda>y acc. if cmp3 acc y = Greater then acc else y) ys ?x"
    note IH = Cons.IH [of ?x]
    have "cmp3 x ?m \<noteq> Greater" "cmp3 y ?m \<noteq> Greater"
      using cmp_trans [OF le(1)] cmp_trans [OF le(2)] IH by blast+
    with IH show ?case by auto
  qed
  with assms show ?thesis by (cases xs) fastforce+
qed

end

lemma three_way_release_cmp: "three_way release_cmp"
  unfolding release_cmp_def
  using three_way_then_with [OF three_way_on [OF padded.three_way_axioms, of "map digits_val"]
      three_way_on [OF key.three_way_axioms, of qual_rank]] by simp

interpretation release_version: three_way release_cmp
  by (rule three_way_release_cmp)

lemma max_by_release:
  assumes "list_all release_ok rs"
  shows "max_by vcmp (map release_str rs) = map_option release_str (max_by release_cmp rs)"
proof -
  have cmp: "vcmp (release_str x) (release_str y) = release_cmp x y" if "release_ok x" "release_ok y" for x y
    using that dotted_compare by (simp add: release_ok_def release_cmp_def)
  have "fold (\<lambda>y acc. if vcmp acc y = Greater then acc else y) (map release_str ys) (release_str x) =
      release_str (fold (\<lambda>y acc. if release_cmp acc y = Greater then acc else y) ys x)"
    if "release_ok x" "list_all release_ok ys" for x ys
    using that by (induction ys arbitrary: x) (auto simp: cmp)
  with assms show ?thesis by (cases rs) auto
qed

text \<open>C7. A range is resolved to its largest published version: for a coordinate that is not
  pinned and whose published versions are release-shaped, the walker picks a published version in
  the range such that no published version in the range is larger, and fails with the
  no-candidate error exactly when the range holds no published version. The lower bound of the
  range is not a fallback in that case, although a comment of the function says so.\<close>

theorem hard_range_max:
  assumes "sess_ok w opts ses" "session_pin ses c = None" "fetch_metadata (ww_source w) c = Inr (md, origin)"
    "gm_versions md = map release_str rs" "list_all release_ok rs"
  shows "case resolve_spec w opts (Hard ivs) c ses of
      Inl e \<Rightarrow> e = NoMetaVersionCandidate (coords_display c) (Hard ivs) \<and> (\<forall>r \<in> set rs. \<not> in_intervals ivs (release_str r))
    | Inr (v, warns, _) \<Rightarrow> warns = [] \<and> in_intervals ivs v \<and> (\<exists>m \<in> set rs. v = release_str m \<and>
        (\<forall>r \<in> set rs. in_intervals ivs (release_str r) \<longrightarrow> release_cmp r m \<noteq> Greater))"
proof -
  obtain ses' where md: "fetch_metadata_via_session w opts c ses = Inr (md, ses')"
    using fetch_metadata_tracks [OF assms(1), of c] assms(3)
    by (auto simp: tracks_def rel_sum.simps fetch_metadata_via_session_def [of w opts c None])
  let ?P = "\<lambda>r. in_intervals ivs (release_str r)"
  have filt: "filter (in_intervals ivs) (gm_versions md) = map release_str (filter ?P rs)"
    by (simp add: assms(4) filter_map o_def)
  have mx: "max_by vcmp (map release_str (filter ?P rs)) = map_option release_str (max_by release_cmp (filter ?P rs))"
    using assms(5) by (intro max_by_release) (auto simp: list_all_iff)
  show ?thesis
  proof (cases "max_by release_cmp (filter ?P rs)")
    case None
    then have "filter ?P rs = []" by (cases "filter ?P rs") simp_all
    with None md filt mx assms(2) show ?thesis by (auto simp: Let_def filter_empty_conv)
  next
    case (Some m)
    from release_version.max_by_maximal [OF Some] md filt mx Some assms(2) show ?thesis
      by (auto simp: Let_def)
  qed
qed

theorem hard_range_max_witness:
  "case resolve_spec (sample_world ''2'') default_options (Hard [\<lparr>iv_lower = Unbounded, iv_upper = Unbounded\<rparr>])
      (Coords ''g'' ''a'') None of Inl _ \<Rightarrow> False | Inr (v, _, _) \<Rightarrow> v = ''1''"
proof -
  let ?ivs = "[\<lparr>iv_lower = Unbounded, iv_upper = Unbounded\<rparr>]"
  let ?md = "fst (projr (fetch_metadata (ww_source (sample_world ''2'')) (Coords ''g'' ''a'')))"
  have ok: "release_ok ([''1''], None)" "release_str ([''1''], None) = ''1''"
    by (simp_all add: release_ok_def num_str_def is_ascii_digit_def byte_of_def qual_ok_def dotted_def)
  have "\<not> isl (fetch_metadata (ww_source (sample_world ''2'')) (Coords ''g'' ''a''))" "gm_versions ?md = [''1'']"
    by code_simp+
  then have md: "fetch_metadata (ww_source (sample_world ''2'')) (Coords ''g'' ''a'') =
      Inr (?md, snd (projr (fetch_metadata (ww_source (sample_world ''2'')) (Coords ''g'' ''a''))))" "gm_versions ?md = [''1'']"
    by simp_all
  have inr: "in_intervals ?ivs ''1''" by (simp add: in_intervals_def interval_contains_def)
  from hard_range_max [of "sample_world ''2''" default_options None "Coords ''g'' ''a''" _ _ "[([''1''], None)]" ?ivs, OF _ _ md(1)]
    md(2) ok inr show ?thesis
    by (auto simp: session_pin_def split: sum.splits)
qed

lemma max_by_in: "max_by cmp xs = Some v \<Longrightarrow> v \<in> set xs"
proof (cases xs)
  case (Cons x ys)
  have "fold (\<lambda>y acc. if cmp acc y = Greater then acc else y) ys x \<in> insert x (set ys)" for x ys
  proof (induction ys arbitrary: x)
    case (Cons y ys)
    then show ?case using Cons.IH [of "if cmp x y = Greater then x else y"] by (auto split: if_splits)
  qed simp
  then show "max_by cmp xs = Some v \<Longrightarrow> v \<in> set xs" using Cons by fastforce
qed simp

lemma justified_pinned:
  assumes "justified w opts i r" "wo_oreq opts = Some s" "frozen_pin s (rd_coords r) = Some pin"
  shows "rd_version r = pin \<or> (\<exists>raw ivs. declared_version (rd_coords r) (wi_dep i) = Inr raw \<and>
    spec_parse raw = Inr (Hard ivs) \<and> \<not> in_intervals ivs pin \<and> in_intervals ivs (rd_version r))"
proof -
  let ?c = "rd_coords r"
  from assms(1) obtain raw spec wn ses where sp: "declared_version ?c (wi_dep i) = Inr raw" "spec_parse raw = Inr spec"
    "resolve_spec w opts spec ?c (wo_oreq opts) = Inr (rd_version r, wn, ses)"
    by (auto simp: justified_def chosen_version_def)
  have pin: "session_pin (wo_oreq opts) ?c = Some pin" using assms(2,3) by (simp add: session_pin_def)
  show ?thesis
  proof (cases spec)
    case (Hard ivs)
    show ?thesis
    proof (cases "in_intervals ivs pin")
      case True
      with sp(3) pin Hard show ?thesis by (simp add: Let_def)
    next
      case False
      with sp(3) pin Hard obtain md :: ga_metadata where "max_by vcmp (filter (in_intervals ivs) (gm_versions md)) = Some (rd_version r)"
        by (auto simp: Let_def split: option.splits)
      from max_by_in [OF this] sp(1,2) Hard False show ?thesis by auto
    qed
  qed (use sp pin in auto)
qed

text \<open>C8. Frozen pins decide the versions: the items that won the walk (one per resolved
  dependency, each from the root or from the effective POM of a resolved dependency) are such
  that a resolved dependency with pinned coordinates has the pinned version, unless the version
  its own winning item declares is a range the pin is outside of; then its version is in that
  range.\<close>

theorem frozen_walk:
  assumes "sess_ok w opts (wo_oreq opts)" "walk w opts n root = Some (Inr g)" "wo_oreq opts = Some s"
  shows "\<exists>X. \<forall>r \<in> set (rg_resolved g).
    X (rd_coords r) \<in> items_of w opts (pom_dependencies root) X (rg_resolved g) \<and> justified w opts (X (rd_coords r)) r \<and>
    (case frozen_pin s (rd_coords r) of None \<Rightarrow> True
     | Some pin \<Rightarrow> rd_version r = pin \<or>
        (\<exists>raw ivs. declared_version (rd_coords r) (wi_dep (X (rd_coords r))) = Inr raw \<and> spec_parse raw = Inr (Hard ivs) \<and>
           \<not> in_intervals ivs pin \<and> in_intervals ivs (rd_version r)))"
proof -
  obtain W where W: "nw_run w opts (direct_items (pom_dependencies root), []) ([], W)" "rg_resolved g = map snd W"
    using walk_run [OF assms(1,2)] by blast
  from nw_run_invs [OF W(1)] obtain X where "closed_inv w opts (pom_dependencies root) X ([], W)" by blast
  then have X: "\<forall>r \<in> set (rg_resolved g). X (rd_coords r) \<in> items_of w opts (pom_dependencies root) X (rg_resolved g) \<and>
      justified w opts (X (rd_coords r)) r"
    unfolding W(2) closed_inv_def Let_def by auto
  have "case frozen_pin s (rd_coords r) of None \<Rightarrow> True
     | Some pin \<Rightarrow> rd_version r = pin \<or>
        (\<exists>raw ivs. declared_version (rd_coords r) (wi_dep (X (rd_coords r))) = Inr raw \<and> spec_parse raw = Inr (Hard ivs) \<and>
           \<not> in_intervals ivs pin \<and> in_intervals ivs (rd_version r))" if "r \<in> set (rg_resolved g)" for r
  proof (cases "frozen_pin s (rd_coords r)")
    case (Some pin)
    from X that have "justified w opts (X (rd_coords r)) r" by blast
    from justified_pinned [OF this assms(3) Some] show ?thesis unfolding Some option.case .
  qed simp
  with X show ?thesis by blast
qed

section \<open>Sample walks\<close>

abbreviation off_options :: walk_options where
  "off_options \<equiv> default_options\<lparr>wo_enable_skipper := False\<rparr>"

definition pinned_options :: walk_options where
  "pinned_options = default_options\<lparr>wo_oreq := Some (with_frozen_pins [(Coords ''g'' ''a'', ''1'')] session_new)\<rparr>"

lemma sample_off: "\<exists>g. walk (sample_world ''2'') off_options 5 sample_root = Some (Inr g) \<and> rg_resolved g \<noteq> []"
proof -
  have "case walk (sample_world ''2'') off_options 5 sample_root of Some (Inr g) \<Rightarrow> rg_resolved g \<noteq> [] | _ \<Rightarrow> False"
    by code_simp
  then show ?thesis by (auto split: option.splits sum.splits)
qed

lemma sample_pinned:
  "\<exists>g r. walk (sample_world ''2'') pinned_options 5 sample_root = Some (Inr g) \<and> r \<in> set (rg_resolved g) \<and>
     rd_coords r = Coords ''g'' ''a''"
proof -
  have "case walk (sample_world ''2'') pinned_options 5 sample_root of
      Some (Inr g) \<Rightarrow> list_ex (\<lambda>r. rd_coords r = Coords ''g'' ''a'') (rg_resolved g) | _ \<Rightarrow> False"
    by code_simp
  then show ?thesis by (auto simp: list_ex_iff split: option.splits sum.splits)
qed

lemma sample_sess_ok: "sess_ok w off_options (wo_oreq off_options)" "sess_ok w pinned_options (wo_oreq pinned_options)"
  by (simp_all add: default_options_def pinned_options_def sess_ok.simps session_new_def with_frozen_pins_def
      md_memo.agrees_def raw_memo.agrees_def eff_memo.agrees_def)

theorem walk_refines_witness:
  "\<exists>g W. walk (sample_world ''2'') off_options 5 sample_root = Some (Inr g) \<and>
     nw_run (sample_world ''2'') off_options (direct_items (pom_dependencies sample_root), []) ([], W) \<and>
     rg_resolved g = map snd W \<and> rg_resolved g \<noteq> []"
  using sample_off walk_refines [OF sample_sess_ok(1), of "sample_world ''2''" 5 sample_root] by blast

theorem walk_closure_witness:
  "\<exists>g X. walk (sample_world ''2'') off_options 5 sample_root = Some (Inr g) \<and> rg_resolved g \<noteq> [] \<and>
     (\<forall>i \<in> items_of (sample_world ''2'') off_options (pom_dependencies sample_root) X (rg_resolved g).
        settled off_options (rg_resolved g) i)"
  using sample_off walk_closure [OF sample_sess_ok(1), of "sample_world ''2''" 5 sample_root]
  unfolding Let_def by blast

theorem walk_tree_witness:
  "\<exists>g. walk (sample_world ''2'') off_options 5 sample_root = Some (Inr g) \<and> distinct (map rd_coords (rg_resolved g))"
  using sample_off walk_tree [OF sample_sess_ok(1), of "sample_world ''2''" 5 sample_root] by blast

theorem skipper_equivalence_witness:
  "\<exists>g g'. walk (sample_world ''2'') off_options 5 sample_root = Some (Inr g) \<and>
     walk (sample_world ''2'') (default_options\<lparr>wo_enable_skipper := True\<rparr>) 5 sample_root = Some (Inr g') \<and>
     rg_winners g' = rg_winners g"
proof -
  have "sess_ok (sample_world ''2'') default_options (wo_oreq default_options)" by (simp add: default_options_def)
  with sample_off skipper_equivalence [of "sample_world ''2''" default_options 5 sample_root] show ?thesis by blast
qed

theorem walk_terminates_witness:
  "\<exists>n r. \<forall>m \<ge> n. walk \<lparr>ww_source = null_source, ww_env = (\<lambda>_. None), ww_fs_exists = (\<lambda>_ _. False)\<rparr>
     off_options m sample_root = Some r"
proof (rule walk_terminates [OF sample_sess_ok(1)])
  show "finite {c. \<exists>v p. fetch_pom (ww_source \<lparr>ww_source = null_source, ww_env = (\<lambda>_. None), ww_fs_exists = (\<lambda>_ _. False)\<rparr>) c v = Inr p}"
    by (simp add: null_source_def)
qed

theorem frozen_walk_witness:
  "\<exists>g r X. walk (sample_world ''2'') pinned_options 5 sample_root = Some (Inr g) \<and> r \<in> set (rg_resolved g) \<and>
     rd_coords r = Coords ''g'' ''a'' \<and> justified (sample_world ''2'') pinned_options (X (rd_coords r)) r \<and>
     (rd_version r = ''1'' \<or> (\<exists>raw ivs. declared_version (rd_coords r) (wi_dep (X (rd_coords r))) = Inr raw \<and>
        spec_parse raw = Inr (Hard ivs) \<and> \<not> in_intervals ivs ''1'' \<and> in_intervals ivs (rd_version r)))"
proof -
  obtain g r where g: "walk (sample_world ''2'') pinned_options 5 sample_root = Some (Inr g)"
    "r \<in> set (rg_resolved g)" "rd_coords r = Coords ''g'' ''a''" using sample_pinned by blast
  have pins: "wo_oreq pinned_options = Some (with_frozen_pins [(Coords ''g'' ''a'', ''1'')] session_new)"
    "frozen_pin (with_frozen_pins [(Coords ''g'' ''a'', ''1'')] session_new) (rd_coords r) = Some ''1''"
    using g(3) by (simp_all add: pinned_options_def frozen_pin_def with_frozen_pins_def im_get_def)
  from frozen_walk [OF sample_sess_ok(2) g(1) pins(1)] g(2) obtain X where
    "justified (sample_world ''2'') pinned_options (X (rd_coords r)) r"
    "case frozen_pin (with_frozen_pins [(Coords ''g'' ''a'', ''1'')] session_new) (rd_coords r) of None \<Rightarrow> True
     | Some pin \<Rightarrow> rd_version r = pin \<or>
        (\<exists>raw ivs. declared_version (rd_coords r) (wi_dep (X (rd_coords r))) = Inr raw \<and> spec_parse raw = Inr (Hard ivs) \<and>
           \<not> in_intervals ivs pin \<and> in_intervals ivs (rd_version r))" by blast
  with pins(2) g show ?thesis by (intro exI [of _ g] exI [of _ r] exI [of _ X]) simp
qed

text \<open>The documented invariant that the winners are the same with and without the skipper fails
  when the unskippered walk fails: here \<open>g:b\<close> asks for \<open>g:a\<close> at the malformed version \<open>[1\<close>. With
  the skipper the known leaf \<open>g:a\<close> is skipped before its version is read and the walk succeeds,
  without it the walk is an invalid-version error.\<close>

theorem skipper_masks_error:
  "map_option (map_sum id (\<lambda>g. map rd_coords (rg_resolved g))) (walk (sample_world ''[1'') default_options 5 sample_root) =
     Some (Inr [Coords ''g'' ''a'', Coords ''g'' ''b'']) \<and>
   map_option (map_sum id (\<lambda>g. map rd_coords (rg_resolved g))) (walk (sample_world ''[1'') off_options 5 sample_root) =
     Some (Inl (InvalidSpec ''g:a'' ''[1'' (UnmatchedBracket ''[1'')))"
proof
  show "map_option (map_sum id (\<lambda>g. map rd_coords (rg_resolved g))) (walk (sample_world ''[1'') default_options 5 sample_root) =
     Some (Inr [Coords ''g'' ''a'', Coords ''g'' ''b''])" by code_simp
  show "map_option (map_sum id (\<lambda>g. map rd_coords (rg_resolved g))) (walk (sample_world ''[1'') off_options 5 sample_root) =
     Some (Inl (InvalidSpec ''g:a'' ''[1'' (UnmatchedBracket ''[1'')))" by code_simp
qed

end
