(* ===== verification/Spec2Isabelle.thy ===== *)
theory Spec2Isabelle
  imports LockDiff CacheRows IndexThreads CacheLocks Coords VersionOrder VersionSpec Snapshot PomResolve PomParseProps WalkerProps
begin

text \<open>
  A verification of Barista, a build front end for Maven projects: of the crates that read and
  resolve POMs, choose dependency versions, keep the artifact cache and write the lockfile. The
  definitions are translated from the Rust sources under \<open>src/crates\<close> and keep their names; each
  theory names its source file.

  \<^bold>\<open>The program.\<close> A POM is read (\<open>barista-pom/raw.rs\<close>), merged with its parents and interpolated
  (\<open>effective.rs\<close>), its BOM imports are expanded, its profiles activated and its managed versions
  applied (\<open>profile.rs\<close>). From the dependencies of the resolved POM the walker
  (\<open>barista-resolver/walker.rs\<close>) goes breadth-first through the POMs of the dependencies, chooses
  versions (\<open>version_spec.rs\<close>, ordered by \<open>barista-version\<close>), and keeps the nearest declaration of
  each coordinate. It asks a metadata source, through a session that avoids repeated requests
  (\<open>oreq.rs\<close>), and prunes subtrees it has seen (\<open>skipper.rs\<close>). The metadata source of the program is
  the cache (\<open>barista-cache\<close>): an index of rows in memory, recorded in a journal and a snapshot,
  that point into a content-addressed store; what is not there is fetched from a shared cache server
  or upstream, verified against checksum files, stored and recorded. A collector and a recovery
  scan maintain it, locks keep threads and processes apart. The result is written to a lockfile
  (\<open>barista-lockfile\<close>) that later runs validate and compare.

  \<^bold>\<open>Conventions (\<open>Prelude\<close>, \<open>FileSys\<close>).\<close> A struct is a record, an enum a datatype, \<open>Result\<close> the sum
  \<open>('a, 'e) result\<close> with \<open>Inl\<close> the error, \<open>?\<close> is \<open>rbind\<close>. A string is the list of its UTF-8 bytes;
  trimming and lower-casing are written out for ASCII. \<open>IndexMap\<close> and \<open>BTreeMap\<close> are association
  lists in insertion and in key order. Counters and lengths that may overflow are words or
  saturating. Code with side effects is a value of \<open>('s, 'a, 'e) io\<close>, a function from the state of
  the world to a result and the state after it, where the state is extended record by record: files,
  clock and fault schedule (\<open>world\<close>), the journal's buffer (\<open>journal_world\<close>), the index
  (\<open>index_world\<close>), the requests sent (\<open>net_world\<close>), locks and observers (\<open>source_world\<close>).
  Every system call consults the schedule \<open>wd_faults\<close>: it may fail with any error, and a write may
  do so after part of its data, so a kill is a schedule on which every later call fails
  (\<open>killed_at\<close>). Theorems with an unrestricted schedule hold for all of these; \<open>quiet\<close> is the world
  without faults, \<open>honest\<close> one that never reports an existing file as missing, \<open>one_device\<close> one in
  which hard links do not cross file systems. \<open>wp\<close> and \<open>keeps\<close> are the weakest precondition and the frame rule of this monad.

  \<^bold>\<open>Theories and what they show.\<close>

  \<^item> \<open>Coords\<close> (\<open>barista-coords/lib.rs\<close>): coordinates, their parsers, printers and order; round trips.
  \<^item> \<open>Version\<close>, \<open>VersionOrder\<close> (\<open>barista-version/lib.rs\<close>): tokenizer, normalization and comparison;
    on release-shaped versions the comparison is an independent zero-padded order.
  \<^item> \<open>VersionSpec\<close> (\<open>version_spec.rs\<close>): soft versions, ranges and meta-versions; printing and parsing
    are inverse, ranges contain what interval arithmetic says.
  \<^item> \<open>PomRaw\<close>, \<open>PomParse\<close>, \<open>PomParseProps\<close> (\<open>raw.rs\<close>): the data of a POM and the reader over
    XML events; every expressible value is returned from its document.
  \<^item> \<open>PomEffective\<close> (\<open>effective.rs\<close>): parent chain, merge and interpolation; which chains are accepted,
    which ancestor a merged field comes from, that no strict placeholder survives.
  \<^item> \<open>PomResolve\<close> (\<open>profile.rs\<close>): BOM imports, profiles, dependency management; what each adds, the
    precedence of managed versions, and exactly when a version is missing.
  \<^item> \<open>Snapshot\<close> (\<open>snapshot.rs\<close>): snapshot metadata and update policies; the reader inverts the writer.
  \<^item> \<open>ResolverBase\<close>, \<open>Skipper\<close>, \<open>Oreq\<close>, \<open>Walker\<close> (\<open>source.rs\<close>, \<open>skipper.rs\<close>, \<open>oreq.rs\<close>, \<open>walker.rs\<close>):
    the walk with its queue, winners, audit and session.
  \<^item> \<open>NearestWins\<close>: the abstract machine, a step relation on a queue and a map of winners, with its
    invariants. \<open>WalkerProps\<close>: the walk refines it whatever skipper and session do; from this the
    closure and tree properties, the independence of the skipper, the effect of frozen pins and
    termination. \<open>SessionProps\<close>: a consistent session changes no outcome.
  \<^item> \<open>Cas\<close> (\<open>cas.rs\<close>): the store; objects always hash to their names.
  \<^item> \<open>Journal\<close>, \<open>CacheIndex\<close>, \<open>IndexRecovery\<close>, \<open>IndexProps\<close> (\<open>journal.rs\<close>, \<open>index.rs\<close>): record format,
    buffered reading and writing, opening with recovery, mutations, compaction; what a restart
    recovers after any interruption.
  \<^item> \<open>IndexThreads\<close> (\<open>index.rs\<close>): calls of several threads as interleaved steps under the write lock;
    a schedule on which a successful \<open>put\<close> is lost.
  \<^item> \<open>CacheGc\<close> (\<open>gc.rs\<close>, \<open>recovery.rs\<close>): the collector and the recovery scan; safety under faults, the
    exact effect without.
  \<^item> \<open>CacheLocks\<close> (\<open>lock.rs\<close>): the in-process lock map as a transition system with an exclusion
    invariant, the file locks and how long their polling waits.
  \<^item> \<open>RoasteryClient\<close>, \<open>CacheFetch\<close> (\<open>barista-roastery-client\<close>, \<open>fetch.rs\<close>, \<open>checksum.rs\<close>, \<open>m2.rs\<close>):
    requests and their outcomes, checksum files, the mirror in Maven's layout.
  \<^item> \<open>CacheSource\<close>, \<open>CacheSourceProps\<close>, \<open>CacheRows\<close> (\<open>source.rs\<close>): the path of a request; integrity of
    what it returns, that no server is trusted beyond the published digest, that rows keep their
    blobs, and the behaviour on a row without one.
  \<^item> \<open>LockTime\<close>, \<open>LockFile\<close>, \<open>LockDiff\<close> (\<open>barista-lockfile\<close>): time stamp and calendar, atomic writing,
    signature and validation modes, and the semantic diff.

  \<^bold>\<open>Interfaces.\<close> \<open>three_way\<close> (a comparison function), \<open>map_store\<close> (lookups after updates) and \<open>memo\<close>
  (a cache that agrees with what it caches) are locales interpreted on the code's comparisons, maps
  and session caches; \<open>frame_relation\<close> and \<open>memory_frame\<close> carry an invariant through the system
  calls and through the journal, and are interpreted for each of the cache's invariants; \<open>polling\<close> is
  the retry loop shared by the two kinds of file lock.

  \<^bold>\<open>Bounds.\<close> The walk takes the number of steps as an argument and returns \<open>None\<close> when it is not
  enough; \<open>walk_terminates\<close> shows that some number is, for every source with POMs for finitely many
  coordinates. All other loops are recursive functions with a termination proof. The limits on
  parent chains, interpolation rounds, import depth and prefetch rounds are the constants of the code,
  and the 8 KiB of \<open>BUF_SIZE\<close> are the default capacity of the standard library's buffers.

  \<^bold>\<open>Parameters.\<close> Code that is not in the repository is an argument of the definitions that call it:
  the hash functions, bincode, CRC-32 and the TOML form, quick-xml's tokenizer and unescaping, the
  HTTP client (\<open>hl_send\<close>, an arbitrary answer to every request), the environment and the file tests of
  profile activation. What is assumed of them is stated in the theorem that needs it: that a codec
  decodes what it encoded (\<open>codec_ok\<close>, \<open>snapshot_codec_ok\<close>), that a hash does not collide on the two
  streams at hand (\<open>signature_sound\<close>). Nothing is assumed about servers.

  \<^bold>\<open>Not modelled.\<close> The derived serde instances and log events; asynchrony within one request, whose
  calls are made in the order in which they are awaited; the limit on simultaneous requests and
  the construction of TLS clients. Of the other crates: the strict resolver, which is a call of the
  pubgrub library; the CBOR blob of a POM; command line, daemon, IPC, configuration files,
  telemetry, traffic analysis and benchmarks, which are input and output around the parts above; the
  cache server in \<open>src/roastery\<close>, which the client does not trust; and the Java daemon in \<open>src/barback\<close>.
\<close>

end
